(* ===== verification/Prelude.thy ===== *)
theory Prelude
  imports Main "HOL-Library.Word" "HOL-Library.Monad_Syntax"
begin

text \<open>
  Shared vocabulary of the development: the machine integer types, C memory areas as byte
  lists with bounds-checked accesses, and the byte encodings of integers.

  A C function that touches memory returns an option: \<open>None\<close> is an access
  outside its array (undefined behaviour in C), so that a proof of \<open>Some\<close> is a
  proof of memory safety. The collection \<open>mem_simps\<close> holds the facts about these
  accesses.
\<close>

unbundle bit_operations_syntax

named_theorems mem_simps \<open>facts about bounds-checked memory accesses\<close>

section \<open>Machine integers\<close>

type_synonym u8 = "8 word"
type_synonym u16 = "16 word"
type_synonym u32 = "32 word"
type_synonym u64 = "64 word"
type_synonym bytes = "u8 list"

section \<open>Bounds-checked memory\<close>

definition arr_get :: "'a list \<Rightarrow> nat \<Rightarrow> 'a option" where
  "arr_get xs i = (if i < length xs then Some (xs ! i) else None)"

definition arr_put :: "'a list \<Rightarrow> nat \<Rightarrow> 'a \<Rightarrow> 'a list option" where
  "arr_put xs i v = (if i < length xs then Some (xs[i := v]) else None)"

definition mem_read :: "'a list \<Rightarrow> nat \<Rightarrow> nat \<Rightarrow> 'a list option" where
  "mem_read xs off n = (if off + n \<le> length xs then Some (take n (drop off xs)) else None)"

definition mem_write :: "'a list \<Rightarrow> nat \<Rightarrow> 'a list \<Rightarrow> 'a list option" where
  "mem_write xs off d =
     (if off + length d \<le> length xs
      then Some (take off xs @ d @ drop (off + length d) xs) else None)"

lemma arr_get_Some [mem_simps]: "i < length xs \<Longrightarrow> arr_get xs i = Some (xs ! i)"
  by (simp add: arr_get_def)

lemma arr_get_eq_Some [mem_simps]: "arr_get xs i = Some x \<longleftrightarrow> i < length xs \<and> x = xs ! i"
  by (auto simp: arr_get_def)

lemma arr_put_Some [mem_simps]: "i < length xs \<Longrightarrow> arr_put xs i v = Some (xs[i := v])"
  by (simp add: arr_put_def)

lemma mem_read_Some [mem_simps]:
  "off + n \<le> length xs \<Longrightarrow> mem_read xs off n = Some (take n (drop off xs))"
  by (simp add: mem_read_def)

lemma mem_read_length: "mem_read xs off n = Some d \<Longrightarrow> length d = n"
  by (auto simp: mem_read_def split: if_splits)

lemma mem_write_Some [mem_simps]:
  "off + length d \<le> length xs \<Longrightarrow>
   mem_write xs off d = Some (take off xs @ d @ drop (off + length d) xs)"
  by (simp add: mem_write_def)

lemma mem_write_None [mem_simps]: "length xs < off + length d \<Longrightarrow> mem_write xs off d = None"
  by (simp add: mem_write_def)

lemma mem_write_length: "mem_write xs off d = Some ys \<Longrightarrow> length ys = length xs"
  by (auto simp: mem_write_def split: if_splits)

lemma mem_write_same: "mem_write xs off d = Some ys \<Longrightarrow> take (length d) (drop off ys) = d"
  by (auto simp: mem_write_def split: if_splits)

lemma arr_put_mem_write: "arr_put xs i v = mem_write xs i [v]"
  by (simp add: arr_put_def mem_write_def upd_conv_take_nth_drop)

text \<open>A write at the end of what has been written so far extends the written prefix.\<close>

lemma mem_write_prefix:
  assumes "length p = off" and "off + length d \<le> length p + length r"
  shows "mem_write (p @ r) off d = Some ((p @ d) @ drop (length d) r)"
  using assms by (simp add: mem_write_def)

lemma arr_put_prefix:
  assumes "length p = i" and "r \<noteq> []"
  shows "arr_put (p @ r) i v = Some ((p @ [v]) @ drop 1 r)"
  using assms by (cases r) (auto simp: arr_put_def list_update_append)

section \<open>Postconditions of partial computations\<close>

text \<open>
  \<open>returns c Q\<close>: the computation is defined and its result satisfies \<open>Q\<close> (total
  correctness). Sequences of calls are verified by the rule for bind.
\<close>

definition returns :: "'a option \<Rightarrow> ('a \<Rightarrow> bool) \<Rightarrow> bool" where
  "returns c Q \<longleftrightarrow> (\<exists>x. c = Some x \<and> Q x)"

lemma returns_Some [simp]: "returns (Some x) Q \<longleftrightarrow> Q x"
  by (simp add: returns_def)

lemma returns_bindI: "returns c (\<lambda>x. returns (f x) Q) \<Longrightarrow> returns (Option.bind c f) Q"
  by (auto simp: returns_def)

lemma returns_mono: "returns c P \<Longrightarrow> (\<And>x. P x \<Longrightarrow> Q x) \<Longrightarrow> returns c Q"
  by (auto simp: returns_def)

text \<open>
  A C loop \<open>for (i = 0; i < n; i++)\<close> whose body may leave the function with
  \<open>return false\<close>: the boolean says whether the loop ran to its end.
\<close>

primrec for_each :: "('i \<Rightarrow> 's \<Rightarrow> (bool \<times> 's) option) \<Rightarrow> 'i list \<Rightarrow> 's \<Rightarrow> (bool \<times> 's) option"
where
  "for_each body [] s = Some (True, s)"
| "for_each body (i # js) s =
     do { (ok, s) \<leftarrow> body i s; if ok then for_each body js s else Some (False, s) }"

text \<open>A loop invariant indexed by the items already handled.\<close>

lemma for_each_rule:
  assumes "P [] s"
    and "\<And>pre i js s. xs = pre @ i # js \<Longrightarrow> P pre s \<Longrightarrow>
      returns (body i s) (\<lambda>(ok, s'). ok \<and> P (pre @ [i]) s')"
  shows "returns (for_each body xs s) (\<lambda>(ok, s'). ok \<and> P xs s')"
proof -
  have "returns (for_each body js s) (\<lambda>(ok, s'). ok \<and> P xs s')"
    if "xs = pre @ js" and "P pre s" for pre js s
    using that
  proof (induction js arbitrary: pre s)
    case Nil
    then show ?case by simp
  next
    case (Cons i js)
    have "returns (body i s) (\<lambda>(ok, s'). ok \<and> P (pre @ [i]) s')"
      using Cons.prems by (rule assms(2))
    moreover have "returns (for_each body js s') (\<lambda>(ok, s'). ok \<and> P xs s')"
      if "P (pre @ [i]) s'" for s'
      using Cons.IH [of "pre @ [i]" s'] Cons.prems(1) that by simp
    ultimately show ?case by (auto simp: returns_def)
  qed
  from this [of "[]" xs s] assms(1) show ?thesis by simp
qed

section \<open>Byte encodings of integers\<close>

text \<open>
  The little-endian bytes of a word, least significant first, and the word that a list of
  bytes denotes; the big-endian encoding is the reverse.
\<close>

primrec le_bytes :: "nat \<Rightarrow> 'a::len word \<Rightarrow> bytes" where
  "le_bytes 0 w = []"
| "le_bytes (Suc n) w = ucast w # le_bytes n (drop_bit 8 w)"

primrec le_word :: "bytes \<Rightarrow> 'a::len word" where
  "le_word [] = 0"
| "le_word (b # bs) = ucast b OR push_bit 8 (le_word bs)"

definition be_bytes :: "nat \<Rightarrow> 'a::len word \<Rightarrow> bytes" where
  "be_bytes n w = rev (le_bytes n w)"

definition be_word :: "bytes \<Rightarrow> 'a::len word" where
  "be_word bs = le_word (rev bs)"

lemma length_le_bytes [simp]: "length (le_bytes n w) = n"
  by (induction n arbitrary: w) auto

lemma length_be_bytes [simp]: "length (be_bytes n w) = n"
  by (simp add: be_bytes_def)

lemma nth_le_bytes: "i < n \<Longrightarrow> le_bytes n w ! i = ucast (drop_bit (8 * i) w)"
proof (induction n arbitrary: w i)
  case 0
  then show ?case by simp
next
  case (Suc n)
  then show ?case by (cases i) (simp_all add: drop_bit_drop_bit add.commute)
qed

lemma bit_le_word:
  "bit (le_word bs :: 'a::len word) k \<longleftrightarrow>
     k < LENGTH('a) \<and> k div 8 < length bs \<and> bit (bs ! (k div 8)) (k mod 8)"
proof (induction bs arbitrary: k)
  case Nil
  then show ?case by simp
next
  case (Cons b bs)
  show ?case
  proof (cases "k < 8")
    case True
    then show ?thesis
      by (auto simp: bit_or_iff bit_push_bit_iff bit_ucast_iff)
  next
    case False
    have "\<not> bit b k" using False by (auto dest: bit_imp_le_length)
    moreover obtain j where j: "k = j + 8" using False by (metis add.commute le_Suc_ex not_less)
    moreover have "(j + 8) div 8 = Suc (j div 8)" by simp
    ultimately show ?thesis using Cons.IH [of j]
      by (auto simp: bit_or_iff bit_push_bit_iff bit_ucast_iff)
  qed
qed

lemma bit_le_bytes:
  "i < n \<Longrightarrow> bit (le_bytes n w ! i) k \<longleftrightarrow> k < 8 \<and> bit w (8 * i + k)"
  by (auto simp: nth_le_bytes bit_ucast_iff bit_drop_bit_eq)

lemma le_word_le_bytes:
  assumes "LENGTH('a::len) \<le> 8 * n"
  shows "le_word (le_bytes n (w :: 'a word)) = w"
proof (rule bit_word_eqI)
  fix k assume "k < LENGTH('a)"
  with assms have "k div 8 < n" by (simp add: less_mult_imp_div_less mult.commute)
  then show "bit (le_word (le_bytes n w) :: 'a word) k = bit w k"
    using \<open>k < LENGTH('a)\<close> by (simp add: bit_le_word bit_le_bytes)
qed

lemma le_bytes_le_word:
  assumes "8 * length bs \<le> LENGTH('a::len)"
  shows "le_bytes (length bs) (le_word bs :: 'a word) = bs"
proof (rule nth_equalityI)
  show "length (le_bytes (length bs) (le_word bs :: 'a word)) = length bs" by simp
next
  fix i assume "i < length (le_bytes (length bs) (le_word bs :: 'a word))"
  then have i: "i < length bs" by simp
  show "le_bytes (length bs) (le_word bs :: 'a word) ! i = bs ! i"
  proof (rule bit_word_eqI)
    fix k assume k: "k < LENGTH(8)"
    with i assms have "8 * i + k < LENGTH('a)" by simp
    with i k show "bit (le_bytes (length bs) (le_word bs :: 'a word) ! i) k = bit (bs ! i) k"
      by (simp add: bit_le_bytes bit_le_word)
  qed
qed

lemma be_word_be_bytes:
  "LENGTH('a::len) \<le> 8 * n \<Longrightarrow> be_word (be_bytes n (w :: 'a word)) = w"
  by (simp add: be_word_def be_bytes_def le_word_le_bytes)

lemma be_bytes_be_word:
  assumes "8 * length bs \<le> LENGTH('a::len)"
  shows "be_bytes (length bs) (be_word bs :: 'a word) = bs"
  using le_bytes_le_word [of "rev bs", where ?'a = 'a] assms
  by (simp add: be_word_def be_bytes_def)

lemma be_word_inject:
  assumes "length xs = length ys" and "8 * length ys \<le> LENGTH('a::len)"
  shows "(be_word xs :: 'a word) = be_word ys \<longleftrightarrow> xs = ys"
  using be_bytes_be_word [of xs, where ?'a = 'a] be_bytes_be_word [of ys, where ?'a = 'a] assms
  by metis

lemma be_word_1 [simp]: "be_word [b] = (b :: u8)"
  by (simp add: be_word_def)

lemma be_bytes_1 [simp]: "be_bytes (Suc 0) (b :: u8) = [b]"
  by (simp add: be_bytes_def)

section \<open>C strings and zeroed areas\<close>

definition zeros :: "nat \<Rightarrow> bytes" where
  "zeros n = replicate n 0"

definition c_bytes :: "string \<Rightarrow> bytes" where
  "c_bytes s = map of_char s"

lemma length_c_bytes [simp]: "length (c_bytes s) = length s"
  by (simp add: c_bytes_def)

lemma length_zeros [simp]: "length (zeros n) = n"
  by (simp add: zeros_def)

lemma zeros_0 [simp]: "zeros 0 = []"
  by (simp add: zeros_def)

lemma unat_u8_less: "unat (b :: u8) < 256"
  using unsigned_less [of b, where ?'a = nat] by simp

lemma take_zeros [simp]: "take k (zeros n) = zeros (min k n)"
  by (simp add: zeros_def)

lemma drop_zeros [simp]: "drop k (zeros n) = zeros (n - k)"
  by (simp add: zeros_def)

end
