(* ===== verification/Tx_Types.thy ===== *)
theory Tx_Types
  imports Prelude
begin

text \<open>
  The transaction data of \<open>src/transaction/types.h\<close> with the constants of
  \<open>src/constants.h\<close>: the parser's status codes, the script opcodes, and the structures
  for inputs, outputs and transactions. C arrays are lists whose length is the array's size,
  which the well-formedness predicates record; \<open>size_t\<close> counters are naturals.

  The number of inputs a transaction can hold, \<open>MAX_INPUT_COUNT\<close>, is set by the build
  (15 on the smallest device, 128 on the others); definitions that depend on it take it as
  an argument.
\<close>

section \<open>Constants\<close>

definition MAX_OUTPUT_COUNT :: nat where
  "MAX_OUTPUT_COUNT = 2"

definition SCRIPT_PUBLIC_KEY_BUFFER_LEN :: nat where
  "SCRIPT_PUBLIC_KEY_BUFFER_LEN = 40"

definition KASPA_MAX_BIP32_PATH_LEN :: nat where
  "KASPA_MAX_BIP32_PATH_LEN = 5"

definition SCHNORR_ADDRESS_LEN :: nat where
  "SCHNORR_ADDRESS_LEN = 67"

definition ECDSA_ADDRESS_LEN :: nat where
  "ECDSA_ADDRESS_LEN = 69"

definition OP_CHECKSIG :: u8 where "OP_CHECKSIG = 0xac"
definition OP_CHECKSIGECDSA :: u8 where "OP_CHECKSIGECDSA = 0xab"
definition OP_BLAKE2B :: u8 where "OP_BLAKE2B = 0xaa"
definition OP_EQUAL :: u8 where "OP_EQUAL = 0x87"

lemmas size_consts = MAX_OUTPUT_COUNT_def SCRIPT_PUBLIC_KEY_BUFFER_LEN_def
  KASPA_MAX_BIP32_PATH_LEN_def SCHNORR_ADDRESS_LEN_def ECDSA_ADDRESS_LEN_def

lemmas op_consts = OP_CHECKSIG_def OP_CHECKSIGECDSA_def OP_BLAKE2B_def OP_EQUAL_def

section \<open>Status codes\<close>

datatype parser_status_e =
    PARSING_OK
  | VERSION_PARSING_ERROR
  | OUTPUTS_LENGTH_PARSING_ERROR
  | INPUTS_LENGTH_PARSING_ERROR
  | HEADER_PARSING_ERROR
  | INPUT_PARSING_ERROR
  | INPUT_VALUE_PARSING_ERROR
  | INPUT_TX_ID_PARSING_ERROR
  | INPUT_ADDRESS_TYPE_PARSING_ERROR
  | INPUT_ADDRESS_INDEX_PARSING_ERROR
  | INPUT_INDEX_PARSING_ERROR
  | OUTPUT_PARSING_ERROR
  | OUTPUT_VALUE_PARSING_ERROR
  | OUTPUT_SCRIPT_PUBKEY_PARSING_ERROR

text \<open>The enumerators' integer values, which the handlers compare and send.\<close>

fun status_value :: "parser_status_e \<Rightarrow> int" where
  "status_value PARSING_OK = 1"
| "status_value VERSION_PARSING_ERROR = -1"
| "status_value OUTPUTS_LENGTH_PARSING_ERROR = -2"
| "status_value INPUTS_LENGTH_PARSING_ERROR = -3"
| "status_value HEADER_PARSING_ERROR = -4"
| "status_value INPUT_PARSING_ERROR = -20"
| "status_value INPUT_VALUE_PARSING_ERROR = -21"
| "status_value INPUT_TX_ID_PARSING_ERROR = -22"
| "status_value INPUT_ADDRESS_TYPE_PARSING_ERROR = -23"
| "status_value INPUT_ADDRESS_INDEX_PARSING_ERROR = -24"
| "status_value INPUT_INDEX_PARSING_ERROR = -25"
| "status_value OUTPUT_PARSING_ERROR = -30"
| "status_value OUTPUT_VALUE_PARSING_ERROR = -31"
| "status_value OUTPUT_SCRIPT_PUBKEY_PARSING_ERROR = -32"

lemma status_value_neg [simp]: "status_value s < 0 \<longleftrightarrow> s \<noteq> PARSING_OK"
  by (cases s) auto

section \<open>Structures\<close>

record transaction_input_t =
  in_address_type :: u8
  in_address_index :: u32
  in_sequence :: u64
  in_value :: u64
  in_tx_id :: bytes
  in_index :: u8

record transaction_output_t =
  out_value :: u64
  out_script_public_key :: bytes

record transaction_t =
  version :: u16
  account :: u32
  tx_input_len :: nat
  tx_output_len :: nat
  tx_outputs :: "transaction_output_t list"
  tx_inputs :: "transaction_input_t list"

definition zero_input :: transaction_input_t where
  "zero_input = \<lparr>in_address_type = 0, in_address_index = 0, in_sequence = 0, in_value = 0,
     in_tx_id = zeros 32, in_index = 0\<rparr>"

definition zero_output :: transaction_output_t where
  "zero_output = \<lparr>out_value = 0, out_script_public_key = zeros SCRIPT_PUBLIC_KEY_BUFFER_LEN\<rparr>"

definition zero_transaction :: "nat \<Rightarrow> transaction_t" where
  "zero_transaction max_inputs =
     \<lparr>version = 0, account = 0, tx_input_len = 0, tx_output_len = 0,
      tx_outputs = replicate MAX_OUTPUT_COUNT zero_output,
      tx_inputs = replicate max_inputs zero_input\<rparr>"

section \<open>Array sizes\<close>

definition wf_input :: "transaction_input_t \<Rightarrow> bool" where
  "wf_input i \<longleftrightarrow> length (in_tx_id i) = 32"

definition wf_output :: "transaction_output_t \<Rightarrow> bool" where
  "wf_output out \<longleftrightarrow> length (out_script_public_key out) = SCRIPT_PUBLIC_KEY_BUFFER_LEN"

definition wf_transaction :: "nat \<Rightarrow> transaction_t \<Rightarrow> bool" where
  "wf_transaction max_inputs tx \<longleftrightarrow>
     length (tx_outputs tx) = MAX_OUTPUT_COUNT \<and> length (tx_inputs tx) = max_inputs \<and>
     list_all wf_output (tx_outputs tx) \<and> list_all wf_input (tx_inputs tx)"

lemma wf_zero [simp]:
  "wf_input zero_input" "wf_output zero_output" "wf_transaction n (zero_transaction n)"
  by (simp_all add: wf_input_def wf_output_def wf_transaction_def zero_input_def zero_output_def
      zero_transaction_def size_consts list_all_iff)

lemma wf_transaction_update_output:
  "wf_transaction n tx \<Longrightarrow> wf_output out \<Longrightarrow>
   wf_transaction n (tx\<lparr>tx_outputs := (tx_outputs tx)[i := out]\<rparr>)"
  by (auto simp: wf_transaction_def list_all_iff dest: set_update_subset_insert [THEN subsetD])

lemma wf_transaction_update_input:
  "wf_transaction n tx \<Longrightarrow> wf_input i \<Longrightarrow>
   wf_transaction n (tx\<lparr>tx_inputs := (tx_inputs tx)[k := i]\<rparr>)"
  by (auto simp: wf_transaction_def list_all_iff dest: set_update_subset_insert [THEN subsetD])

lemma wf_transaction_nth:
  "wf_transaction n tx \<Longrightarrow> i < n \<Longrightarrow> wf_input (tx_inputs tx ! i)"
  "wf_transaction n tx \<Longrightarrow> j < 2 \<Longrightarrow> wf_output (tx_outputs tx ! j)"
  by (auto simp: wf_transaction_def list_all_iff size_consts)

text \<open>
  The scripts the application understands, in an output's script buffer: pay to a
  Schnorr key, to an ECDSA key, or to a script hash; the length is that of the script in
  its buffer.
\<close>

definition known_script :: "bytes \<Rightarrow> bool" where
  "known_script s \<longleftrightarrow>
     length s = 34 \<and> s ! 0 = 0x20 \<and> s ! 33 = OP_CHECKSIG \<or>
     length s = 35 \<and> s ! 0 = 0x21 \<and> s ! 34 = OP_CHECKSIGECDSA \<or>
     length s = 35 \<and> s ! 0 = OP_BLAKE2B \<and> s ! 1 = 0x20 \<and> s ! 34 = OP_EQUAL"

definition script_len :: "bytes \<Rightarrow> nat" where
  "script_len s = (if s ! 0 = OP_BLAKE2B then unat (s ! 1) + 3 else unat (s ! 0) + 2)"

lemma known_script_length: "known_script s \<Longrightarrow> 34 \<le> length s \<and> length s \<le> 35"
  by (auto simp: known_script_def)

lemma script_len_append:
  "known_script s \<Longrightarrow> script_len (s @ r) = length s"
  by (auto simp: known_script_def script_len_def nth_append op_consts)

end
