(* ===== verification/Sdk.thy ===== *)
theory Sdk
  imports Prelude
begin

text \<open>
  The byte-level services of the device SDK that the application calls but does not
  contain: the cursor over a received APDU (\<open>buffer.h\<close>), the integer writers
  (\<open>write.h\<close>) and the BIP32 path reader. They are parameters: a record of functions
  that every definition of the model takes as an argument. What the SDK documents of them
  is stated as the laws of the locales \<open>buffer_api\<close>, \<open>path_api\<close> and
  \<open>write_api\<close>; theorems that depend on the SDK have these locale predicates as
  hypotheses. The records \<open>std_buffer\<close> and \<open>std_write\<close> are concrete functions that
  satisfy the laws.
\<close>

section \<open>The cursor\<close>

datatype endianness = BE | LE

record buffer_t =
  ptr :: bytes
  bsize :: nat
  offset :: nat

definition valid_buffer :: "buffer_t \<Rightarrow> bool" where
  "valid_buffer b \<longleftrightarrow> offset b \<le> bsize b \<and> bsize b \<le> length (ptr b)"

definition rest :: "buffer_t \<Rightarrow> bytes" where
  "rest b = take (bsize b - offset b) (drop (offset b) (ptr b))"

definition advance :: "nat \<Rightarrow> buffer_t \<Rightarrow> buffer_t" where
  "advance n b = b\<lparr>offset := offset b + n\<rparr>"

definition mk_buffer :: "bytes \<Rightarrow> buffer_t" where
  "mk_buffer bs = \<lparr>ptr = bs, bsize = length bs, offset = 0\<rparr>"

text \<open>
  The reading functions return whether they succeeded, the new content of the variable
  the caller passed (whose old content they are given) and the moved cursor. The path
  reader returns the words it stored at the start of the caller's array.
\<close>

record buffer_ops =
  buffer_can_read :: "buffer_t \<Rightarrow> nat \<Rightarrow> bool"
  buffer_seek_cur :: "buffer_t \<Rightarrow> nat \<Rightarrow> bool \<times> buffer_t"
  buffer_read_u8 :: "buffer_t \<Rightarrow> u8 \<Rightarrow> bool \<times> u8 \<times> buffer_t"
  buffer_read_u16 :: "buffer_t \<Rightarrow> u16 \<Rightarrow> endianness \<Rightarrow> bool \<times> u16 \<times> buffer_t"
  buffer_read_u32 :: "buffer_t \<Rightarrow> u32 \<Rightarrow> endianness \<Rightarrow> bool \<times> u32 \<times> buffer_t"
  buffer_read_u64 :: "buffer_t \<Rightarrow> u64 \<Rightarrow> endianness \<Rightarrow> bool \<times> u64 \<times> buffer_t"
  buffer_read_bip32_path :: "buffer_t \<Rightarrow> nat \<Rightarrow> bool \<times> u32 list \<times> buffer_t"

record write_ops =
  write_u16_be :: "bytes \<Rightarrow> nat \<Rightarrow> u16 \<Rightarrow> bytes option"
  write_u32_be :: "bytes \<Rightarrow> nat \<Rightarrow> u32 \<Rightarrow> bytes option"
  write_u64_be :: "bytes \<Rightarrow> nat \<Rightarrow> u64 \<Rightarrow> bytes option"
  write_u16_le :: "bytes \<Rightarrow> nat \<Rightarrow> u16 \<Rightarrow> bytes option"
  write_u32_le :: "bytes \<Rightarrow> nat \<Rightarrow> u32 \<Rightarrow> bytes option"
  write_u64_le :: "bytes \<Rightarrow> nat \<Rightarrow> u64 \<Rightarrow> bytes option"

lemma length_rest: "valid_buffer b \<Longrightarrow> length (rest b) = bsize b - offset b"
  by (auto simp: valid_buffer_def rest_def min_def)

lemma valid_advance [simp]:
  "valid_buffer b \<Longrightarrow> n \<le> length (rest b) \<Longrightarrow> valid_buffer (advance n b)"
  by (auto simp: valid_buffer_def rest_def advance_def)

lemma rest_advance [simp]: "rest (advance n b) = drop n (rest b)"
  by (simp add: rest_def advance_def drop_take add.commute)

lemma ptr_advance [simp]: "ptr (advance n b) = ptr b"
  by (simp add: advance_def)

lemma bsize_advance [simp]: "bsize (advance n b) = bsize b"
  by (simp add: advance_def)

lemma offset_advance [simp]: "offset (advance n b) = offset b + n"
  by (simp add: advance_def)

lemma advance_advance [simp]: "advance m (advance n b) = advance (n + m) b"
  by (simp add: advance_def add.assoc)

lemma valid_mk_buffer [simp]: "valid_buffer (mk_buffer bs)"
  by (simp add: valid_buffer_def mk_buffer_def)

lemma rest_mk_buffer [simp]: "rest (mk_buffer bs) = bs"
  by (simp add: rest_def mk_buffer_def)

lemma arr_get_ptr:
  assumes "valid_buffer b" and "i < length (rest b)"
  shows "arr_get (ptr b) (offset b + i) = Some (rest b ! i)"
  using assms by (auto simp: arr_get_def rest_def valid_buffer_def)

lemma arr_get_ptr0: "valid_buffer b \<Longrightarrow> rest b \<noteq> [] \<Longrightarrow> arr_get (ptr b) (offset b) = Some (rest b ! 0)"
  using arr_get_ptr [of b 0] by simp

lemma arr_get_ptr_add:
  assumes "valid_buffer b" and "i < length (rest b)"
  shows "arr_get (ptr b) (i + offset b) = Some (rest b ! i)"
  using arr_get_ptr [OF assms] by (simp add: add.commute)

lemma arr_get_ptr_Suc:
  "valid_buffer b \<Longrightarrow> 1 < length (rest b) \<Longrightarrow> arr_get (ptr b) (Suc (offset b)) = Some (rest b ! 1)"
  using arr_get_ptr [of b 1] by simp

lemmas ptr_reads = arr_get_ptr0 arr_get_ptr arr_get_ptr_add arr_get_ptr_Suc

lemma bsize_eq_offset: "valid_buffer b \<Longrightarrow> bsize b = offset b \<longleftrightarrow> rest b = []"
  by (auto simp: valid_buffer_def rest_def)

lemma mem_read_ptr:
  assumes "valid_buffer b" and "n \<le> length (rest b)"
  shows "mem_read (ptr b) (offset b) n = Some (take n (rest b))"
proof -
  have "n \<le> bsize b - offset b" using assms by (simp add: length_rest)
  with assms show ?thesis by (auto simp: mem_read_def rest_def valid_buffer_def)
qed

section \<open>The documented laws\<close>

locale buffer_api =
  fixes B :: buffer_ops
  assumes can_read: "valid_buffer b \<Longrightarrow> buffer_can_read B b n \<longleftrightarrow> n \<le> length (rest b)"
    and seek_cur: "valid_buffer b \<Longrightarrow> n \<le> length (rest b) \<Longrightarrow>
      buffer_seek_cur B b n = (True, advance n b)"
    and seek_cur_fail: "valid_buffer b \<Longrightarrow> length (rest b) < n \<Longrightarrow> \<not> fst (buffer_seek_cur B b n)"
    and read_u8: "valid_buffer b \<Longrightarrow> 1 \<le> length (rest b) \<Longrightarrow>
      buffer_read_u8 B b v8 = (True, rest b ! 0, advance 1 b)"
    and read_u8_fail: "valid_buffer b \<Longrightarrow> length (rest b) < 1 \<Longrightarrow> \<not> fst (buffer_read_u8 B b v8)"
    and read_u16: "valid_buffer b \<Longrightarrow> 2 \<le> length (rest b) \<Longrightarrow>
      buffer_read_u16 B b v16 BE = (True, be_word (take 2 (rest b)), advance 2 b)"
    and read_u16_fail: "valid_buffer b \<Longrightarrow> length (rest b) < 2 \<Longrightarrow>
      \<not> fst (buffer_read_u16 B b v16 BE)"
    and read_u32: "valid_buffer b \<Longrightarrow> 4 \<le> length (rest b) \<Longrightarrow>
      buffer_read_u32 B b v32 BE = (True, be_word (take 4 (rest b)), advance 4 b)"
    and read_u32_fail: "valid_buffer b \<Longrightarrow> length (rest b) < 4 \<Longrightarrow>
      \<not> fst (buffer_read_u32 B b v32 BE)"
    and read_u64: "valid_buffer b \<Longrightarrow> 8 \<le> length (rest b) \<Longrightarrow>
      buffer_read_u64 B b v64 BE = (True, be_word (take 8 (rest b)), advance 8 b)"
    and read_u64_fail: "valid_buffer b \<Longrightarrow> length (rest b) < 8 \<Longrightarrow>
      \<not> fst (buffer_read_u64 B b v64 BE)"
begin

text \<open>What a failing read returns beside its verdict is left open.\<close>

lemma read_u8_short:
  assumes "valid_buffer b" and "length (rest b) < 1"
  obtains v b' where "buffer_read_u8 B b v8 = (False, v, b')"
  using read_u8_fail [OF assms] by (metis fst_conv surj_pair)

lemma read_u16_short:
  assumes "valid_buffer b" and "length (rest b) < 2"
  obtains v b' where "buffer_read_u16 B b v16 BE = (False, v, b')"
  using read_u16_fail [OF assms] by (metis fst_conv surj_pair)

lemma read_u32_short:
  assumes "valid_buffer b" and "length (rest b) < 4"
  obtains v b' where "buffer_read_u32 B b v32 BE = (False, v, b')"
  using read_u32_fail [OF assms] by (metis fst_conv surj_pair)

lemma read_u64_short:
  assumes "valid_buffer b" and "length (rest b) < 8"
  obtains v b' where "buffer_read_u64 B b v64 BE = (False, v, b')"
  using read_u64_fail [OF assms] by (metis fst_conv surj_pair)

end

text \<open>
  The path reader (\<open>buffer_read_bip32_path\<close>): it accepts between 1 and
  \<open>MAX_BIP32_PATH = 10\<close> big-endian words and never stores more words than asked for.
\<close>

fun be_words :: "nat \<Rightarrow> bytes \<Rightarrow> u32 list" where
  "be_words 0 bs = []"
| "be_words (Suc n) bs = be_word (take 4 bs) # be_words n (drop 4 bs)"

lemma length_be_words [simp]: "length (be_words n bs) = n"
  by (induction n bs rule: be_words.induct) auto

locale path_api = buffer_api +
  assumes read_path: "valid_buffer b \<Longrightarrow> 1 \<le> n \<Longrightarrow> n \<le> 10 \<Longrightarrow> 4 * n \<le> length (rest b) \<Longrightarrow>
      buffer_read_bip32_path B b n = (True, be_words n (rest b), advance (4 * n) b)"
    and read_path_short: "valid_buffer b \<Longrightarrow> length (rest b) < 4 * n \<Longrightarrow>
      \<not> fst (buffer_read_bip32_path B b n)"
    and read_path_count: "n = 0 \<or> 10 < n \<Longrightarrow> \<not> fst (buffer_read_bip32_path B b n)"
    and read_path_stored: "length (fst (snd (buffer_read_bip32_path B b n))) \<le> n"

locale write_api =
  fixes W :: write_ops
  assumes u16_be: "write_u16_be W m off v16 = mem_write m off (be_bytes 2 v16)"
    and u32_be: "write_u32_be W m off v32 = mem_write m off (be_bytes 4 v32)"
    and u64_be: "write_u64_be W m off v64 = mem_write m off (be_bytes 8 v64)"
    and u16_le: "write_u16_le W m off v16 = mem_write m off (le_bytes 2 v16)"
    and u32_le: "write_u32_le W m off v32 = mem_write m off (le_bytes 4 v32)"
    and u64_le: "write_u64_le W m off v64 = mem_write m off (le_bytes 8 v64)"

section \<open>A concrete instance\<close>

definition std_read :: "nat \<Rightarrow> buffer_t \<Rightarrow> endianness \<Rightarrow> bool \<times> 'a::len word \<times> buffer_t" where
  "std_read n b e =
     (if n \<le> length (rest b)
      then (True, (case e of BE \<Rightarrow> be_word (take n (rest b)) | LE \<Rightarrow> le_word (take n (rest b))),
            advance n b)
      else (False, 0, b))"

definition std_buffer :: buffer_ops where
  "std_buffer =
     \<lparr>buffer_can_read = (\<lambda>b n. n \<le> length (rest b)),
      buffer_seek_cur = (\<lambda>b n. if n \<le> length (rest b) then (True, advance n b) else (False, b)),
      buffer_read_u8 = (\<lambda>b v. std_read 1 b BE),
      buffer_read_u16 = (\<lambda>b v e. std_read 2 b e),
      buffer_read_u32 = (\<lambda>b v e. std_read 4 b e),
      buffer_read_u64 = (\<lambda>b v e. std_read 8 b e),
      buffer_read_bip32_path = (\<lambda>b n.
        if n = 0 \<or> 10 < n \<or> length (rest b) < 4 * n then (False, [], b)
        else (True, be_words n (rest b), advance (4 * n) b))\<rparr>"

definition std_write :: write_ops where
  "std_write =
     \<lparr>write_u16_be = (\<lambda>m off v. mem_write m off (be_bytes 2 v)),
      write_u32_be = (\<lambda>m off v. mem_write m off (be_bytes 4 v)),
      write_u64_be = (\<lambda>m off v. mem_write m off (be_bytes 8 v)),
      write_u16_le = (\<lambda>m off v. mem_write m off (le_bytes 2 v)),
      write_u32_le = (\<lambda>m off v. mem_write m off (le_bytes 4 v)),
      write_u64_le = (\<lambda>m off v. mem_write m off (le_bytes 8 v))\<rparr>"

lemma take_Suc_0_nth: "1 \<le> length xs \<Longrightarrow> take (Suc 0) xs = [xs ! 0]"
  by (cases xs) auto

interpretation std_buf: path_api std_buffer
  by unfold_locales (auto simp: std_buffer_def std_read_def take_Suc_0_nth)

interpretation std_wr: write_api std_write
  by unfold_locales (simp_all add: std_write_def)

lemma std_buffer_api: "buffer_api std_buffer"
  by (rule std_buf.buffer_api_axioms)

lemma std_path_api: "path_api std_buffer"
  by (rule std_buf.path_api_axioms)

lemma std_write_api: "write_api std_write"
  by (rule std_wr.write_api_axioms)

end
