(* ===== verification/Tx_Codec.thy ===== *)
theory Tx_Codec
  imports Tx_Types Sdk
begin

text \<open>
  The wire format of a transaction: the parsers of \<open>src/transaction/deserialize.c\<close> and
  the writers of \<open>src/transaction/serialize.c\<close>, for the header, an input and an output.

  Each parser returns its status, the moved cursor and the structure it filled (also when
  it failed half way), inside an option that is \<open>None\<close> when a byte outside an array
  would be read or written. The final test \<open>buf->size - buf->offset == 0\<close> on
  \<open>size_t\<close> values is an equality test.
\<close>

section \<open>Parsers\<close>

definition transaction_output_deserialize ::
  "buffer_ops \<Rightarrow> buffer_t \<Rightarrow> transaction_output_t \<Rightarrow>
   (parser_status_e \<times> buffer_t \<times> transaction_output_t) option"
where
  "transaction_output_deserialize B b txout =
    (let (ok, v, b) = buffer_read_u64 B b (out_value txout) BE;
         txout = txout\<lparr>out_value := v\<rparr>
     in if \<not> ok then Some (OUTPUT_VALUE_PARSING_ERROR, b, txout)
     else if \<not> buffer_can_read B b 1 then Some (OUTPUT_SCRIPT_PUBKEY_PARSING_ERROR, b, txout)
     else do {
       slen \<leftarrow> arr_get (ptr b) (offset b);
       if slen = OP_BLAKE2B then
         (if \<not> buffer_can_read B b 2 then Some (OUTPUT_SCRIPT_PUBKEY_PARSING_ERROR, b, txout)
          else do {
            slen \<leftarrow> arr_get (ptr b) (offset b + 1);
            if slen \<noteq> 0x20 then Some (OUTPUT_SCRIPT_PUBKEY_PARSING_ERROR, b, txout)
            else if \<not> buffer_can_read B b (unat slen + 3)
            then Some (OUTPUT_SCRIPT_PUBKEY_PARSING_ERROR, b, txout)
            else do {
              sig_op_code \<leftarrow> arr_get (ptr b) (offset b + unat slen + 2);
              if sig_op_code \<noteq> OP_EQUAL
              then Some (OUTPUT_SCRIPT_PUBKEY_PARSING_ERROR, b, txout)
              else do {
                d \<leftarrow> mem_read (ptr b) (offset b) (unat slen + 3);
                s \<leftarrow> mem_write (out_script_public_key txout) 0 d;
                let txout = txout\<lparr>out_script_public_key := s\<rparr>;
                let (ok, b) = buffer_seek_cur B b (unat slen + 3);
                if \<not> ok then Some (OUTPUT_SCRIPT_PUBKEY_PARSING_ERROR, b, txout)
                else Some (if bsize b = offset b then PARSING_OK else OUTPUT_PARSING_ERROR,
                           b, txout)
              }
            }
          })
       else if slen = 0x20 \<or> slen = 0x21 then
         (if \<not> buffer_can_read B b (unat slen + 2)
          then Some (OUTPUT_SCRIPT_PUBKEY_PARSING_ERROR, b, txout)
          else do {
            sig_op_code \<leftarrow> arr_get (ptr b) (offset b + unat slen + 1);
            if slen = 0x20 \<and> sig_op_code \<noteq> OP_CHECKSIG \<or>
               slen = 0x21 \<and> sig_op_code \<noteq> OP_CHECKSIGECDSA
            then Some (OUTPUT_SCRIPT_PUBKEY_PARSING_ERROR, b, txout)
            else do {
              d \<leftarrow> mem_read (ptr b) (offset b) (unat slen + 2);
              s \<leftarrow> mem_write (out_script_public_key txout) 0 d;
              let txout = txout\<lparr>out_script_public_key := s\<rparr>;
              let (ok, b) = buffer_seek_cur B b (unat slen + 2);
              if \<not> ok then Some (OUTPUT_SCRIPT_PUBKEY_PARSING_ERROR, b, txout)
              else Some (if bsize b = offset b then PARSING_OK else OUTPUT_PARSING_ERROR,
                         b, txout)
            }
          })
       else Some (OUTPUT_SCRIPT_PUBKEY_PARSING_ERROR, b, txout)
     })"

definition transaction_input_deserialize ::
  "buffer_ops \<Rightarrow> buffer_t \<Rightarrow> transaction_input_t \<Rightarrow>
   (parser_status_e \<times> buffer_t \<times> transaction_input_t) option"
where
  "transaction_input_deserialize B b txin =
    (let (ok, v, b) = buffer_read_u64 B b (in_value txin) BE;
         txin = txin\<lparr>in_value := v\<rparr>
     in if \<not> ok then Some (INPUT_VALUE_PARSING_ERROR, b, txin)
     else if \<not> buffer_can_read B b 32 then Some (INPUT_TX_ID_PARSING_ERROR, b, txin)
     else do {
       d \<leftarrow> mem_read (ptr b) (offset b) 32;
       m \<leftarrow> mem_write (in_tx_id txin) 0 d;
       let txin = txin\<lparr>in_tx_id := m\<rparr>;
       let (ok, b) = buffer_seek_cur B b 32;
       if \<not> ok then Some (INPUT_TX_ID_PARSING_ERROR, b, txin)
       else
         let (ok, v, b) = buffer_read_u8 B b (in_address_type txin);
             txin = txin\<lparr>in_address_type := v\<rparr>
         in if \<not> ok then Some (INPUT_ADDRESS_TYPE_PARSING_ERROR, b, txin)
         else
           let (ok, v, b) = buffer_read_u32 B b (in_address_index txin) BE;
               txin = txin\<lparr>in_address_index := v\<rparr>
           in if \<not> ok then Some (INPUT_ADDRESS_INDEX_PARSING_ERROR, b, txin)
           else
             let (ok, v, b) = buffer_read_u8 B b (in_index txin);
                 txin = txin\<lparr>in_index := v\<rparr>
             in if \<not> ok then Some (INPUT_INDEX_PARSING_ERROR, b, txin)
             else Some (if bsize b = offset b then PARSING_OK else INPUT_PARSING_ERROR,
                        b, txin)
     })"

definition transaction_deserialize ::
  "buffer_ops \<Rightarrow> nat \<Rightarrow> buffer_t \<Rightarrow> transaction_t \<Rightarrow> u32 list \<Rightarrow>
   (parser_status_e \<times> buffer_t \<times> transaction_t \<times> u32 list) option"
where
  "transaction_deserialize B max_inputs b tx path =
    (if KASPA_MAX_BIP32_PATH_LEN < 5 then Some (HEADER_PARSING_ERROR, b, tx, path)
     else
       let (ok, v, b) = buffer_read_u16 B b (version tx) BE;
           tx = tx\<lparr>version := v\<rparr>
       in if \<not> ok then Some (VERSION_PARSING_ERROR, b, tx, path)
     else
       let (ok, n_output, b) = buffer_read_u8 B b 0
       in if \<not> ok then Some (OUTPUTS_LENGTH_PARSING_ERROR, b, tx, path)
     else
       let tx = tx\<lparr>tx_output_len := unat n_output\<rparr>
       in if tx_output_len tx < 1 \<or> tx_output_len tx > 2
       then Some (OUTPUTS_LENGTH_PARSING_ERROR, b, tx, path)
     else
       let (ok, n_input, b) = buffer_read_u8 B b 0
       in if \<not> ok then Some (INPUTS_LENGTH_PARSING_ERROR, b, tx, path)
     else
       let tx = tx\<lparr>tx_input_len := unat n_input\<rparr>
       in if tx_input_len tx < 1 \<or> tx_input_len tx > max_inputs
       then Some (INPUTS_LENGTH_PARSING_ERROR, b, tx, path)
     else
       let (ok, change_address_type, b) = buffer_read_u8 B b 0
       in if \<not> ok then Some (HEADER_PARSING_ERROR, b, tx, path)
     else if change_address_type \<noteq> 0 \<and> change_address_type \<noteq> 1
       then Some (HEADER_PARSING_ERROR, b, tx, path)
     else
       let (ok, change_address_index, b) = buffer_read_u32 B b 0 BE
       in if \<not> ok then Some (HEADER_PARSING_ERROR, b, tx, path)
     else
       let (ok, v, b) = buffer_read_u32 B b (account tx) BE;
           tx = tx\<lparr>account := v\<rparr>
       in if \<not> ok then Some (HEADER_PARSING_ERROR, b, tx, path)
     else if account tx < 0x80000000 then Some (HEADER_PARSING_ERROR, b, tx, path)
     else do {
       path \<leftarrow> arr_put path 0 0x8000002C;
       path \<leftarrow> arr_put path 1 0x8001b207;
       path \<leftarrow> arr_put path 2 (account tx);
       path \<leftarrow> arr_put path 3 (ucast change_address_type);
       path \<leftarrow> arr_put path 4 change_address_index;
       Some (if bsize b = offset b then PARSING_OK else HEADER_PARSING_ERROR, b, tx, path)
     })"

section \<open>Writers\<close>

text \<open>The result is the number of bytes written or -1, with the output area.\<close>

definition transaction_serialize ::
  "write_ops \<Rightarrow> transaction_t \<Rightarrow> u32 list \<Rightarrow> bytes \<Rightarrow> nat \<Rightarrow> (int \<times> bytes) option"
where
  "transaction_serialize W tx path out out_len =
    (if out_len < 9 then Some (-1, out)
     else do {
       out \<leftarrow> write_u16_be W out 0 (version tx);
       let off = 2;
       out \<leftarrow> arr_put out off (word_of_nat (tx_output_len tx));
       let off = off + 1;
       out \<leftarrow> arr_put out off (word_of_nat (tx_input_len tx));
       let off = off + 1;
       p3 \<leftarrow> arr_get path 3;
       out \<leftarrow> arr_put out off (ucast p3);
       let off = off + 1;
       p4 \<leftarrow> arr_get path 4;
       out \<leftarrow> write_u32_be W out off p4;
       let off = off + 4;
       p2 \<leftarrow> arr_get path 2;
       out \<leftarrow> write_u32_be W out off p2;
       let off = off + 4;
       Some (int off, out)
     })"

definition transaction_input_serialize ::
  "write_ops \<Rightarrow> transaction_input_t \<Rightarrow> bytes \<Rightarrow> nat \<Rightarrow> (int \<times> bytes) option"
where
  "transaction_input_serialize W txin out out_len =
    (if out_len < 46 then Some (-1, out)
     else do {
       out \<leftarrow> write_u64_be W out 0 (in_value txin);
       let off = 8;
       d \<leftarrow> mem_read (in_tx_id txin) 0 32;
       out \<leftarrow> mem_write out off d;
       let off = off + 32;
       out \<leftarrow> arr_put out off (in_address_type txin);
       let off = off + 1;
       out \<leftarrow> write_u32_be W out off (in_address_index txin);
       let off = off + 4;
       out \<leftarrow> arr_put out off (in_index txin);
       let off = off + 1;
       Some (int off, out)
     })"

definition transaction_output_serialize ::
  "write_ops \<Rightarrow> transaction_output_t \<Rightarrow> bytes \<Rightarrow> nat \<Rightarrow> (int \<times> bytes) option"
where
  "transaction_output_serialize W txout out out_len =
    (if out_len < 41 then Some (-1, out)
     else do {
       out \<leftarrow> write_u64_be W out 0 (out_value txout);
       let off = 8;
       s0 \<leftarrow> arr_get (out_script_public_key txout) 0;
       if s0 = OP_BLAKE2B then do {
         s1 \<leftarrow> arr_get (out_script_public_key txout) 1;
         let slen = unat s1;
         d \<leftarrow> mem_read (out_script_public_key txout) 0 (slen + 3);
         out \<leftarrow> mem_write out off d;
         Some (int (off + (slen + 3)), out)
       } else do {
         let slen = unat s0;
         d \<leftarrow> mem_read (out_script_public_key txout) 0 (slen + 2);
         out \<leftarrow> mem_write out off d;
         Some (int (off + (slen + 2)), out)
       }
     })"

section \<open>What a byte string means to the parsers\<close>

text \<open>
  The verdict on a byte string, stated on the bytes alone: which field is missing or
  wrong. \<open>header_path\<close> is the derivation path a header selects for the change output.
\<close>

definition output_status :: "bytes \<Rightarrow> parser_status_e" where
  "output_status bs =
     (if length bs < 8 then OUTPUT_VALUE_PARSING_ERROR
      else let s = drop 8 bs; n = script_len s
           in if \<not> known_script (take n s) then OUTPUT_SCRIPT_PUBKEY_PARSING_ERROR
              else if n < length s then OUTPUT_PARSING_ERROR else PARSING_OK)"

definition input_status :: "bytes \<Rightarrow> parser_status_e" where
  "input_status bs =
     (if length bs < 8 then INPUT_VALUE_PARSING_ERROR
      else if length bs < 40 then INPUT_TX_ID_PARSING_ERROR
      else if length bs < 41 then INPUT_ADDRESS_TYPE_PARSING_ERROR
      else if length bs < 45 then INPUT_ADDRESS_INDEX_PARSING_ERROR
      else if length bs < 46 then INPUT_INDEX_PARSING_ERROR
      else if length bs = 46 then PARSING_OK else INPUT_PARSING_ERROR)"

definition header_status :: "nat \<Rightarrow> bytes \<Rightarrow> parser_status_e" where
  "header_status max_inputs bs =
     (if length bs < 2 then VERSION_PARSING_ERROR
      else if length bs < 3 \<or> bs ! 2 \<notin> {1, 2} then OUTPUTS_LENGTH_PARSING_ERROR
      else if length bs < 4 \<or> bs ! 3 = 0 \<or> max_inputs < unat (bs ! 3)
      then INPUTS_LENGTH_PARSING_ERROR
      else if length bs = 13 \<and> bs ! 4 \<in> {0, 1} \<and> 0x80000000 \<le> (be_word (drop 9 bs) :: u32)
      then PARSING_OK else HEADER_PARSING_ERROR)"

definition header_path :: "u32 \<Rightarrow> u32 \<Rightarrow> u32 \<Rightarrow> u32 list" where
  "header_path acc ty idx = [0x8000002C, 0x8001b207, acc, ty, idx]"

section \<open>The parsers meet the reference, on every branch\<close>

context buffer_api
begin

lemma output_deserialize_known:
  assumes v: "valid_buffer b" and w: "wf_output txout" and len: "8 \<le> length (rest b)"
    and k: "known_script sc" and s: "drop 8 (rest b) = sc @ r"
  shows "transaction_output_deserialize B b txout =
    Some (if r = [] then PARSING_OK else OUTPUT_PARSING_ERROR, advance (8 + length sc) b,
      txout\<lparr>out_value := be_word (take 8 (rest b)),
        out_script_public_key := sc @ drop (length sc) (out_script_public_key txout)\<rparr>)"
proof -
  obtain b1 where b1: "advance 8 b = b1" by simp
  have vb: "valid_buffer b1" using v len by (simp flip: b1)
  have rb: "rest b1 = sc @ r" using s by (simp flip: b1)
  have adv: "advance (8 + n) b = advance n b1" for n by (simp flip: b1)
  have wl: "length (out_script_public_key txout) = 40" using w by (simp add: wf_output_def size_consts)
  have ne: "sc \<noteq> []" using known_script_length [OF k] by auto
  have bs: "bsize b1 = offset b1 + length sc + length r"
    using length_rest [OF vb] vb by (auto simp: rb valid_buffer_def)
  show ?thesis using k unfolding known_script_def adv
    by (elim disjE) (simp_all add: transaction_output_deserialize_def Let_def read_u64 [OF v len]
        b1 vb rb ne bs can_read ptr_reads mem_read_ptr op_consts nth_append mem_write_Some wl
        seek_cur)
qed

lemma output_deserialize_unknown:
  assumes v: "valid_buffer b" and len: "8 \<le> length (rest b)"
    and k: "\<not> known_script (take (script_len (drop 8 (rest b))) (drop 8 (rest b)))"
  shows "transaction_output_deserialize B b txout =
    Some (OUTPUT_SCRIPT_PUBKEY_PARSING_ERROR, advance 8 b,
      txout\<lparr>out_value := be_word (take 8 (rest b))\<rparr>)"
proof -
  obtain b1 where b1: "advance 8 b = b1" by simp
  have vb: "valid_buffer b1" using v len by (simp flip: b1)
  have rb: "drop 8 (rest b) = rest b1" by (simp flip: b1)
  have k': "\<not> known_script (take (script_len (rest b1)) (rest b1))" using k by (simp add: rb)
  note facts = transaction_output_deserialize_def Let_def read_u64 [OF v len] b1 vb can_read
    ptr_reads mem_read_ptr
  consider "rest b1 = []" | "rest b1 \<noteq> []" "rest b1 ! 0 = OP_BLAKE2B"
    | "rest b1 \<noteq> []" "rest b1 ! 0 = 0x20" | "rest b1 \<noteq> []" "rest b1 ! 0 = 0x21"
    | "rest b1 \<noteq> []" "rest b1 ! 0 \<noteq> OP_BLAKE2B" "rest b1 ! 0 \<noteq> 0x20" "rest b1 ! 0 \<noteq> 0x21"
    by blast
  then show ?thesis
  proof cases
    case 1
    then show ?thesis by (simp add: facts)
  next
    case 2
    then show ?thesis using k'
     by (auto simp add: facts known_script_def script_len_def op_consts)
  next
    case 3
    then show ?thesis using k'
     by (auto simp add: facts known_script_def script_len_def op_consts)
  next
    case 4
    then show ?thesis using k'
     by (auto simp add: facts known_script_def script_len_def op_consts)
  next
    case 5
    then show ?thesis by (simp add: facts )
  qed
qed

lemma output_deserialize_status:
  assumes v: "valid_buffer b" and w: "wf_output txout"
  shows "\<exists>b' out. transaction_output_deserialize B b txout = Some (output_status (rest b), b', out)
     \<and> wf_output out"
proof (cases "8 \<le> length (rest b)")
  case False
  then obtain v b' where "buffer_read_u64 B b (out_value txout) BE = (False, v, b')"
    using read_u64_short [OF v, of "out_value txout"] by auto
  then show ?thesis using w False
    by (simp add: transaction_output_deserialize_def output_status_def wf_output_def)
next
  case len: True
  let ?s = "drop 8 (rest b)"
  let ?sc = "take (script_len ?s) ?s"
  show ?thesis
  proof (cases "known_script ?sc")
    case True
    note split = append_take_drop_id [of "script_len ?s" ?s, symmetric]
    show ?thesis
      using output_deserialize_known [OF v w len True split] len w True known_script_length [OF True]
      by (auto simp add: output_status_def Let_def wf_output_def size_consts)
  next
    case False
    then show ?thesis
      using output_deserialize_unknown [OF v len False] len w
      by (simp add: output_status_def Let_def wf_output_def)
  qed
qed

lemma output_deserialize_ok:
  assumes v: "valid_buffer b" and w: "wf_output txout"
  shows "transaction_output_deserialize B b txout = Some (PARSING_OK, b', out) \<longleftrightarrow>
    (\<exists>val sc. rest b = be_bytes 8 val @ sc \<and> known_script sc \<and>
       b' = advance (length (rest b)) b \<and>
       out = txout\<lparr>out_value := val,
         out_script_public_key := sc @ drop (length sc) (out_script_public_key txout)\<rparr>)"
    (is "?L \<longleftrightarrow> ?R")
proof
  assume ?R
  then obtain val sc where r: "rest b = be_bytes 8 val @ sc" and k: "known_script sc"
    and eqs: "b' = advance (length (rest b)) b" "out = txout\<lparr>out_value := val,
         out_script_public_key := sc @ drop (length sc) (out_script_public_key txout)\<rparr>" by blast
  show ?L using output_deserialize_known [OF v w, of sc "[]"] r k eqs
    by (simp add: be_word_be_bytes)
next
  assume L: ?L
  have st: "output_status (rest b) = PARSING_OK"
    using output_deserialize_status [OF v w] L by auto
  define s where "s = drop 8 (rest b)"
  have len: "8 \<le> length (rest b)" and k: "known_script (take (script_len s) s)"
    and n: "length s \<le> script_len s"
    using st by (auto simp: output_status_def Let_def s_def split: if_splits)
  then have ks: "known_script s" by simp
  have *: "rest b = be_bytes 8 (be_word (take 8 (rest b)) :: u64) @ s"
    using be_bytes_be_word [of "take 8 (rest b)", where ?'a = 64] len by (simp add: s_def)
  show ?R using output_deserialize_known [OF v w len ks, of "[]"] L len ks *
    by (intro exI [of _ "be_word (take 8 (rest b))"] exI [of _ s]) (simp add: s_def)
qed


lemma input_deserialize_full:
  assumes v: "valid_buffer b" and w: "wf_input txin" and len: "46 \<le> length (rest b)"
  shows "transaction_input_deserialize B b txin =
    Some (if length (rest b) = 46 then PARSING_OK else INPUT_PARSING_ERROR, advance 46 b,
      txin\<lparr>in_value := be_word (take 8 (rest b)), in_tx_id := take 32 (drop 8 (rest b)),
        in_address_type := rest b ! 40, in_address_index := be_word (take 4 (drop 41 (rest b))),
        in_index := rest b ! 45\<rparr>)"
proof -
  have rd: "mem_read (ptr b) (offset b + 8) 32 = Some (take 32 (drop 8 (rest b)))"
    using mem_read_ptr [of "advance 8 b" 32] v len by simp
  have bs: "bsize b = offset b + length (rest b)"
    using length_rest [OF v] v by (simp add: valid_buffer_def)
  have "32 \<le> length (rest b) - 8" using len by linarith
  then show ?thesis using v w len
    by (simp add: transaction_input_deserialize_def Let_def read_u64 can_read rd mem_write_Some
        wf_input_def seek_cur read_u8 read_u32 bs)
qed

lemma input_deserialize_short:
  assumes v: "valid_buffer b" and w: "wf_input txin" and len: "length (rest b) < 46"
  shows "\<exists>b' i. transaction_input_deserialize B b txin = Some (input_status (rest b), b', i) \<and> wf_input i"
proof -
  let ?n = "length (rest b)"
  have rd: "mem_read (ptr b) (offset b + 8) 32 = Some (take 32 (drop 8 (rest b)))" if "40 \<le> ?n"
    using mem_read_ptr [of "advance 8 b" 32] v that by simp
  note facts = transaction_input_deserialize_def Let_def read_u64 can_read rd mem_write_Some
    wf_input_def seek_cur read_u8 read_u32 input_status_def
  consider "?n < 8" | "8 \<le> ?n" "?n < 40" | "?n = 40" | "41 \<le> ?n" "?n < 45" | "?n = 45"
    using len by linarith
  then show ?thesis
  proof cases
    case 1
    then obtain x b' where "buffer_read_u64 B b (in_value txin) BE = (False, x, b')"
      using read_u64_short [OF v] by blast
    then show ?thesis using 1 w by (simp add: facts)
  next
    case 2
    then show ?thesis using v w by (simp add: facts)
  next
    case 3
    obtain x b' where "buffer_read_u8 B (advance 40 b) (in_address_type txin) = (False, x, b')"
      using read_u8_short [of "advance 40 b" "in_address_type txin"] v 3 by auto
    then show ?thesis using v w 3 by (simp add: facts)
  next
    case 4
    then have "length (rest (advance 41 b)) < 4" by simp
    then obtain x b' where
      "buffer_read_u32 B (advance 41 b) (in_address_index txin) BE = (False, x, b')"
      using read_u32_short [of "advance 41 b" "in_address_index txin"] v 4 by auto
    then show ?thesis using v w 4 by (simp add: facts)
  next
    case 5
    obtain x b' where "buffer_read_u8 B (advance 45 b) (in_index txin) = (False, x, b')"
      using read_u8_short [of "advance 45 b" "in_index txin"] v 5 by auto
    then show ?thesis using v w 5 by (simp add: facts)
  qed
qed

lemma input_deserialize_status:
  assumes "valid_buffer b" and "wf_input txin"
  shows "\<exists>b' i. transaction_input_deserialize B b txin = Some (input_status (rest b), b', i) \<and> wf_input i"
proof (cases "46 \<le> length (rest b)")
  case True
  then show ?thesis using input_deserialize_full [OF assms True]
    by (simp add: input_status_def wf_input_def)
next
  case False
  then show ?thesis using input_deserialize_short [OF assms] by simp
qed

lemma header_deserialize_full:
  assumes v: "valid_buffer b" and len: "13 \<le> length (rest b)"
    and path: "length path = 5"
    and n_out: "rest b ! 2 \<in> {1, 2}" and n_in: "rest b ! 3 \<noteq> 0" "unat (rest b ! 3) \<le> max_inputs"
    and ty: "rest b ! 4 \<in> {0, 1}" and acc: "0x80000000 \<le> (be_word (take 4 (drop 9 (rest b))) :: u32)"
  shows "transaction_deserialize B max_inputs b tx path =
    Some (if length (rest b) = 13 then PARSING_OK else HEADER_PARSING_ERROR, advance 13 b,
      tx\<lparr>version := be_word (take 2 (rest b)), tx_output_len := unat (rest b ! 2),
        tx_input_len := unat (rest b ! 3), account := be_word (take 4 (drop 9 (rest b)))\<rparr>,
      header_path (be_word (take 4 (drop 9 (rest b)))) (ucast (rest b ! 4))
        (be_word (take 4 (drop 5 (rest b)))))"
proof -
  have bs: "bsize b = offset b + length (rest b)"
    using length_rest [OF v] v by (simp add: valid_buffer_def)
  have un: "1 \<le> unat (rest b ! 2)" "unat (rest b ! 2) \<le> 2" using n_out by auto
  have ui: "1 \<le> unat (rest b ! 3)" using n_in(1) by (simp add: Suc_le_eq unat_gt_0)
  obtain a0 a1 a2 a3 a4 where p: "path = [a0, a1, a2, a3, a4]"
    using path by (auto simp: numeral_eq_Suc length_Suc_conv)
  have acc': "\<not> (be_word (take 4 (drop 9 (rest b))) :: u32) < 0x80000000"
    using acc by (simp add: not_less)
  consider "rest b ! 4 = 0" | "rest b ! 4 = 1" using ty by auto
  then show ?thesis using v len p acc' un ui n_in(2)
    by cases (simp_all add: transaction_deserialize_def Let_def size_consts read_u16 read_u8
        read_u32 bs arr_put_def header_path_def split del: if_split)
qed

lemma header_deserialize_short:
  assumes v: "valid_buffer b" and path: "length path = 5" and w: "wf_transaction max_inputs tx"
    and len: "length (rest b) < 13"
  shows "\<exists>b' tx' p. transaction_deserialize B max_inputs b tx path =
      Some (header_status max_inputs (rest b), b', tx', p) \<and> wf_transaction max_inputs tx' \<and> length p = 5"
proof -
  let ?n = "length (rest b)"
  have n_out: "(rest b ! 2 = 0 \<or> 2 < unat (rest b ! 2)) = (rest b ! 2 \<noteq> 1 \<and> rest b ! 2 \<noteq> 2)"
    by (simp add: word_unat_eq_iff) linarith
  note facts = transaction_deserialize_def Let_def size_consts read_u16 read_u8 read_u32
    arr_put_def header_status_def wf_transaction_def unat_eq_zero n_out
  consider "?n < 2" | "?n = 2" | "?n = 3" | "?n = 4" | "5 \<le> ?n" "?n < 9" | "9 \<le> ?n"
    using len by linarith
  then show ?thesis
  proof cases
    case 1
    then obtain x b' where "buffer_read_u16 B b (version tx) BE = (False, x, b')"
      using read_u16_short [OF v] by blast
    then show ?thesis using 1 path w by (simp add: facts)
  next
    case 2
    obtain x b' where "buffer_read_u8 B (advance 2 b) 0 = (False, x, b')"
      using read_u8_short [of "advance 2 b" 0] v 2 by auto
    then show ?thesis using 2 path w v by (simp add: facts)
  next
    case 3
    obtain x b' where "buffer_read_u8 B (advance 3 b) 0 = (False, x, b')"
      using read_u8_short [of "advance 3 b" 0] v 3 by auto
    then show ?thesis using 3 path w v by (simp add: facts)
  next
    case 4
    obtain x b' where "buffer_read_u8 B (advance 4 b) 0 = (False, x, b')"
      using read_u8_short [of "advance 4 b" 0] v 4 by auto
    then show ?thesis using 4 path w v by (simp add: facts)
  next
    case 5
    then have "length (rest (advance 5 b)) < 4" by simp
    then obtain x b' where "buffer_read_u32 B (advance 5 b) 0 BE = (False, x, b')"
      using read_u32_short [of "advance 5 b" 0] v 5 by auto
    then show ?thesis using 5 path w v by (simp add: facts)
  next
    case 6
    then have "length (rest (advance 9 b)) < 4" using len by simp
    then obtain x b' where "buffer_read_u32 B (advance 9 b) (account tx) BE = (False, x, b')"
      using read_u32_short [of "advance 9 b" "account tx"] v 6 by auto
    then show ?thesis using 6 path w v len by (simp add: facts)
  qed
qed

lemma header_deserialize_status:
  assumes v: "valid_buffer b" and path: "length path = 5" and w: "wf_transaction max_inputs tx"
  shows "\<exists>b' tx' p. transaction_deserialize B max_inputs b tx path =
      Some (header_status max_inputs (rest b), b', tx', p) \<and> wf_transaction max_inputs tx' \<and> length p = 5"
proof (cases "13 \<le> length (rest b)")
  case False
  then show ?thesis using header_deserialize_short [OF v path w] by simp
next
  case len: True
  have n_out: "(rest b ! 2 = 0 \<or> 2 < unat (rest b ! 2)) = (rest b ! 2 \<noteq> 1 \<and> rest b ! 2 \<noteq> 2)"
    by (simp add: word_unat_eq_iff) linarith
  note facts = transaction_deserialize_def Let_def size_consts read_u16 read_u8 read_u32
    header_status_def wf_transaction_def unat_eq_zero n_out not_less not_le
  have w': "length (tx_outputs tx) = 2" "length (tx_inputs tx) = max_inputs"
    "list_all wf_output (tx_outputs tx)" "list_all wf_input (tx_inputs tx)"
    using w by (auto simp: wf_transaction_def size_consts)
  have tl: "length (rest b) = 13 \<Longrightarrow> take 4 (drop 9 (rest b)) = drop 9 (rest b)" by simp
  consider "rest b ! 2 \<notin> {1, 2}"
    | "rest b ! 2 \<in> {1, 2}" "rest b ! 3 = 0 \<or> max_inputs < unat (rest b ! 3)"
    | "rest b ! 2 \<in> {1, 2}" "rest b ! 3 \<noteq> 0" "unat (rest b ! 3) \<le> max_inputs" "rest b ! 4 \<notin> {0, 1}"
    | "rest b ! 2 \<in> {1, 2}" "rest b ! 3 \<noteq> 0" "unat (rest b ! 3) \<le> max_inputs" "rest b ! 4 \<in> {0, 1}"
      "(be_word (take 4 (drop 9 (rest b))) :: u32) < 0x80000000"
    | "rest b ! 2 \<in> {1, 2}" "rest b ! 3 \<noteq> 0" "unat (rest b ! 3) \<le> max_inputs" "rest b ! 4 \<in> {0, 1}"
      "(0x80000000 :: u32) \<le> be_word (take 4 (drop 9 (rest b)))"
    by (meson linorder_not_less)
  then show ?thesis
  proof cases
    case 1
    then show ?thesis using v len path by (auto simp: facts w')
  next
    case 2
    then show ?thesis using v len path by (auto simp: facts w')
  next
    case 3
    then show ?thesis using v len path by (auto simp: facts w')
  next
    case 4
    then show ?thesis using v len path tl by (auto simp: facts w')
  next
    case 5
    note full = header_deserialize_full [OF v len path 5(1,2,3,4,5), of tx]
    show ?thesis using 5 len tl
      by (auto simp: full header_status_def wf_transaction_def size_consts w' header_path_def)
  qed
qed

end

section \<open>What the writers write\<close>

context write_api
begin

lemma header_serialize:
  assumes "length path = 5" and "13 \<le> length out" and "9 \<le> n"
  shows "transaction_serialize W tx path out n = Some (13,
    be_bytes 2 (version tx) @ [word_of_nat (tx_output_len tx), word_of_nat (tx_input_len tx),
      ucast (path ! 3)] @ be_bytes 4 (path ! 4) @ be_bytes 4 (path ! 2) @ drop 13 out)"
  using assms
  by (simp add: transaction_serialize_def Let_def u16_be u32_be arr_put_mem_write mem_write_def
      arr_get_def) arith

lemma input_serialize:
  assumes "wf_input i" and "46 \<le> length out" and "46 \<le> n"
  shows "transaction_input_serialize W i out n = Some (46,
    be_bytes 8 (in_value i) @ in_tx_id i @ [in_address_type i] @ be_bytes 4 (in_address_index i) @
      [in_index i] @ drop 46 out)"
  using assms
  by (simp add: transaction_input_serialize_def Let_def u64_be u32_be arr_put_mem_write mem_write_def
      mem_read_def wf_input_def)

lemma output_serialize:
  assumes s: "out_script_public_key txout = sc @ r" and k: "known_script sc"
    and len: "8 + length sc \<le> length out" and n: "41 \<le> n"
  shows "transaction_output_serialize W txout out n = Some (int (8 + length sc),
    be_bytes 8 (out_value txout) @ sc @ drop (8 + length sc) out)"
  using k s len n unfolding known_script_def 
  by (elim disjE) (simp_all add: transaction_output_serialize_def Let_def u64_be mem_write_def
      mem_read_def arr_get_def nth_append op_consts)

text \<open>When the writers leave their area, given its size as the length argument.\<close>

lemma header_serialize_bounds:
  assumes "length path = 5" and "length out = n"
  shows "transaction_serialize W tx path out n = None \<longleftrightarrow> 9 \<le> n \<and> n < 13"
proof (cases "13 \<le> n")
  case True
  then show ?thesis using header_serialize [of path out n tx] assms by simp
next
  case False
  then show ?thesis using assms
    by (auto simp: transaction_serialize_def Let_def u16_be u32_be arr_put_mem_write
        mem_write_def arr_get_def)
qed

lemma output_serialize_bounds:
  assumes s: "out_script_public_key txout = sc @ r" and k: "known_script sc"
    and n: "length out = n"
  shows "transaction_output_serialize W txout out n = None \<longleftrightarrow> 41 \<le> n \<and> n < 8 + length sc"
proof (cases "8 + length sc \<le> n \<or> n < 41")
  case True
  then show ?thesis
    using output_serialize [OF s k, of out n] known_script_length [OF k] n
    by (auto simp: transaction_output_serialize_def)
next
  case False
  then show ?thesis using k s n unfolding known_script_def
    by (elim disjE) (simp_all add: transaction_output_serialize_def Let_def u64_be mem_write_def
        mem_read_def arr_get_def nth_append op_consts)
qed

end

end
