(* ===== verification/Wire.thy ===== *)
theory Wire
  imports Tx_Codec
begin

text \<open>
  The wire format as a contract. A \<open>codec\<close> pairs an encoder and a decoder that invert
  each other exactly: what is decoded was the encoding of the value, byte for byte. The
  parsers and writers of the application form one for each of the three messages, for any
  SDK that satisfies the documented laws.
\<close>

section \<open>Exact codecs\<close>

locale codec =
  fixes enc :: "'a \<Rightarrow> bytes"
    and dec :: "bytes \<Rightarrow> 'a option"
    and ok :: "'a \<Rightarrow> bool"
  assumes dec_enc: "ok x \<Longrightarrow> dec (enc x) = Some x"
    and enc_dec: "dec bs = Some x \<Longrightarrow> ok x \<and> enc x = bs"
begin

lemma dec_iff: "dec bs = Some x \<longleftrightarrow> ok x \<and> enc x = bs"
  using dec_enc enc_dec by blast

text \<open>No malleability: a value has one encoding, and two values never share one.\<close>

lemma dec_inj: "dec as = Some x \<Longrightarrow> dec bs = Some x \<Longrightarrow> as = bs"
  using enc_dec by blast

lemma enc_inj: "ok x \<Longrightarrow> ok y \<Longrightarrow> enc x = enc y \<Longrightarrow> x = y"
  using dec_enc by (metis option.inject)

end

section \<open>The application's encoders and decoders\<close>

text \<open>
  Encoding writes into a fresh area and keeps the bytes counted by the writer; decoding
  parses a whole buffer into a zeroed structure, as the handlers do. A header is its
  version, the two counts and the derivation path of the change output.
\<close>

type_synonym header = "u16 \<times> nat \<times> nat \<times> u32 list"

definition written :: "(int \<times> bytes) option \<Rightarrow> bytes" where
  "written r = (case r of Some (n, out) \<Rightarrow> take (nat n) out | None \<Rightarrow> [])"

definition output_encode :: "write_ops \<Rightarrow> transaction_output_t \<Rightarrow> bytes" where
  "output_encode W out = written (transaction_output_serialize W out (zeros 43) 43)"

definition output_decode :: "buffer_ops \<Rightarrow> bytes \<Rightarrow> transaction_output_t option" where
  "output_decode B bs =
     (case transaction_output_deserialize B (mk_buffer bs) zero_output of
        Some (PARSING_OK, _, out) \<Rightarrow> Some out | _ \<Rightarrow> None)"

definition output_ok :: "transaction_output_t \<Rightarrow> bool" where
  "output_ok out \<longleftrightarrow>
     (let s = out_script_public_key out; n = script_len s
      in length s = 40 \<and> known_script (take n s) \<and> drop n s = zeros (40 - n))"

definition input_encode :: "write_ops \<Rightarrow> transaction_input_t \<Rightarrow> bytes" where
  "input_encode W i = written (transaction_input_serialize W i (zeros 46) 46)"

definition input_decode :: "buffer_ops \<Rightarrow> bytes \<Rightarrow> transaction_input_t option" where
  "input_decode B bs =
     (case transaction_input_deserialize B (mk_buffer bs) zero_input of
        Some (PARSING_OK, _, i) \<Rightarrow> Some i | _ \<Rightarrow> None)"

definition input_ok :: "transaction_input_t \<Rightarrow> bool" where
  "input_ok i \<longleftrightarrow> wf_input i \<and> in_sequence i = 0"

definition header_encode :: "write_ops \<Rightarrow> header \<Rightarrow> bytes" where
  "header_encode W hdr =
     (case hdr of (v, n_out, n_in, path) \<Rightarrow>
        written (transaction_serialize W
          ((zero_transaction 0)\<lparr>version := v, tx_output_len := n_out, tx_input_len := n_in\<rparr>)
          path (zeros 13) 13))"

definition header_decode :: "buffer_ops \<Rightarrow> nat \<Rightarrow> bytes \<Rightarrow> header option" where
  "header_decode B max_inputs bs =
     (case transaction_deserialize B max_inputs (mk_buffer bs) (zero_transaction max_inputs)
             (replicate 5 0) of
        Some (PARSING_OK, _, tx, path) \<Rightarrow> Some (version tx, tx_output_len tx, tx_input_len tx, path)
      | _ \<Rightarrow> None)"

definition header_ok :: "nat \<Rightarrow> header \<Rightarrow> bool" where
  "header_ok max_inputs hdr =
     (case hdr of (v, n_out, n_in, path) \<Rightarrow>
        n_out \<in> {1, 2} \<and> 1 \<le> n_in \<and> n_in \<le> max_inputs \<and> n_in < 256 \<and>
        path = header_path (path ! 2) (path ! 3) (path ! 4) \<and>
        0x80000000 \<le> path ! 2 \<and> path ! 3 \<in> {0, 1})"

locale wire = buffer_api B + write_api W
  for B :: buffer_ops and W :: write_ops
begin

lemma script_len_known: "known_script (take n s) \<Longrightarrow> n = script_len s \<Longrightarrow> length (take n s) = n"
  by (auto simp: known_script_def script_len_def op_consts split: if_splits)

lemma output_dec_enc:
  assumes "output_ok x"
  shows "output_decode B (output_encode W x) = Some x"
proof -
  let ?s = "out_script_public_key x"
  define sc where "sc = take (script_len ?s) ?s"
  have k: "known_script sc" and s: "?s = sc @ zeros (40 - length sc)"
    using assms script_len_known [of "script_len ?s" ?s] append_take_drop_id [of "script_len ?s" ?s]
    by (auto simp: output_ok_def Let_def sc_def)
  have le: "length sc \<le> 35" using known_script_length [OF k] by simp
  have "output_encode W x = be_bytes 8 (out_value x) @ sc"
    using output_serialize [OF s k, of "zeros 43" 43] le
    by (simp add: output_encode_def written_def nat_add_distrib)
  moreover have "transaction_output_deserialize B (mk_buffer (be_bytes 8 (out_value x) @ sc))
      zero_output = Some (PARSING_OK, advance (8 + length sc) (mk_buffer (be_bytes 8 (out_value x) @ sc)), x)"
    using k s le
    by (subst output_deserialize_ok)
       (auto simp: zero_output_def wf_output_def size_consts intro!: exI [of _ "out_value x"] exI [of _ sc])
  ultimately show ?thesis by (simp add: output_decode_def)
qed

lemma output_enc_dec:
  assumes "output_decode B bs = Some x"
  shows "output_ok x \<and> output_encode W x = bs"
proof -
  obtain b' where "transaction_output_deserialize B (mk_buffer bs) zero_output = Some (PARSING_OK, b', x)"
    using assms by (auto simp: output_decode_def split: option.splits parser_status_e.splits)
  then obtain val sc where bs: "bs = be_bytes 8 val @ sc" and k: "known_script sc"
    and x: "x = zero_output\<lparr>out_value := val, out_script_public_key := sc @ zeros (40 - length sc)\<rparr>"
    by (subst (asm) output_deserialize_ok) (auto simp: zero_output_def wf_output_def size_consts)
  have le: "length sc \<le> 35" using known_script_length [OF k] by simp
  have "output_encode W x = bs"
    using output_serialize [of x sc "zeros (40 - length sc)" "zeros 43" 43] k le
    by (simp add: output_encode_def written_def nat_add_distrib x bs)
  moreover have "output_ok x"
    using k le script_len_append [OF k, of "zeros (40 - length sc)"] by (simp add: output_ok_def x)
  ultimately show ?thesis by simp
qed

lemma input_dec_enc:
  assumes "input_ok x"
  shows "input_decode B (input_encode W x) = Some x"
proof -
  have w: "wf_input x" and len: "length (in_tx_id x) = 32" and "in_sequence x = 0"
    using assms by (auto simp: input_ok_def wf_input_def)
  let ?bs = "be_bytes 8 (in_value x) @ in_tx_id x @ [in_address_type x] @
    be_bytes 4 (in_address_index x) @ [in_index x]"
  have "input_encode W x = ?bs"
    using input_serialize [OF w, of "zeros 46" 46] len by (simp add: input_encode_def written_def)
  moreover have "transaction_input_deserialize B (mk_buffer ?bs) zero_input =
      Some (PARSING_OK, advance 46 (mk_buffer ?bs), x)"
    using len \<open>in_sequence x = 0\<close>
    by (subst input_deserialize_full) (simp_all add: nth_append be_word_be_bytes zero_input_def wf_input_def)
  ultimately show ?thesis by (simp add: input_decode_def)
qed

lemma input_enc_dec:
  assumes "input_decode B bs = Some x"
  shows "input_ok x \<and> input_encode W x = bs"
proof -
  obtain b' where d: "transaction_input_deserialize B (mk_buffer bs) zero_input = Some (PARSING_OK, b', x)"
    using assms by (auto simp: input_decode_def split: option.splits parser_status_e.splits)
  have len: "length bs = 46"
    using input_deserialize_status [of "mk_buffer bs" zero_input] d
    by (auto simp: input_status_def split: if_splits)
  have x: "x = zero_input\<lparr>in_value := be_word (take 8 bs), in_tx_id := take 32 (drop 8 bs),
      in_address_type := bs ! 40, in_address_index := be_word (take 4 (drop 41 bs)),
      in_index := bs ! 45\<rparr>"
    using input_deserialize_full [of "mk_buffer bs" zero_input] d len by simp
  have w: "wf_input x" using len by (simp add: x wf_input_def)
  have "drop 40 bs = bs ! 40 # drop 41 bs" "drop 45 bs = [bs ! 45]"
    using len Cons_nth_drop_Suc [of 40 bs] Cons_nth_drop_Suc [of 45 bs] by simp_all
  then have "bs = take 8 bs @ take 32 (drop 8 bs) @ [bs ! 40] @ take 4 (drop 41 bs) @ [bs ! 45]"
    using append_take_drop_id [of 8 bs] append_take_drop_id [of 32 "drop 8 bs"]
      append_take_drop_id [of 4 "drop 41 bs"] by simp
  then have "input_encode W x = bs"
    using input_serialize [OF w, of "zeros 46" 46] be_bytes_be_word [of "take 8 bs", where ?'a = 64]
      be_bytes_be_word [of "take 4 (drop 41 bs)", where ?'a = 32] len
    by (simp add: input_encode_def written_def x)
  with w show ?thesis by (simp add: input_ok_def x zero_input_def)
qed

lemma header_dec_enc:
  assumes "header_ok max_inputs x"
  shows "header_decode B max_inputs (header_encode W x) = Some x"
proof -
  obtain v n_out n_in path where x: "x = (v, n_out, n_in, path)" by (metis prod_cases4)
  have n: "n_out = 1 \<or> n_out = 2" "1 \<le> n_in" "n_in \<le> max_inputs" "n_in < 256"
    and p: "path = header_path (path ! 2) (path ! 3) (path ! 4)"
    and acc: "0x80000000 \<le> path ! 2" and ty: "path ! 3 = 0 \<or> path ! 3 = 1"
    using assms by (auto simp: header_ok_def x)
  have len: "length path = 5" by (subst p) (simp add: header_path_def)
  let ?bs = "be_bytes 2 v @ [word_of_nat n_out, word_of_nat n_in, ucast (path ! 3)] @
    be_bytes 4 (path ! 4) @ be_bytes 4 (path ! 2)"
  have un: "unat (word_of_nat n_out :: u8) = n_out" "unat (word_of_nat n_in :: u8) = n_in"
    using n by (auto simp: unat_of_nat)
  have enc: "header_encode W x = ?bs"
    using header_serialize [OF len, of "zeros 13" 13] by (simp add: header_encode_def written_def x)
  have "(word_of_nat n_out :: u8) \<in> {1, 2}" using n(1) by auto
  moreover have "(word_of_nat n_in :: u8) \<noteq> 0" using n un by (auto simp: unat_eq_zero)
  moreover have "(ucast (path ! 3) :: u8) \<in> {0, 1}" "ucast (ucast (path ! 3) :: u8) = path ! 3"
    using ty by auto
  ultimately have "transaction_deserialize B max_inputs (mk_buffer ?bs) (zero_transaction max_inputs)
      (replicate 5 0) = Some (PARSING_OK, advance 13 (mk_buffer ?bs),
        (zero_transaction max_inputs)\<lparr>version := v, tx_output_len := n_out, tx_input_len := n_in,
          account := path ! 2\<rparr>, path)"
    using n un acc p
    by (subst header_deserialize_full) (simp_all add: nth_append be_word_be_bytes)
  then show ?thesis using enc by (simp add: header_decode_def x)
qed

lemma header_enc_dec:
  assumes "header_decode B max_inputs bs = Some x"
  shows "header_ok max_inputs x \<and> header_encode W x = bs"
proof -
  obtain b' tx path where
    d: "transaction_deserialize B max_inputs (mk_buffer bs) (zero_transaction max_inputs)
      (replicate 5 0) = Some (PARSING_OK, b', tx, path)"
    and x: "x = (version tx, tx_output_len tx, tx_input_len tx, path)"
    using assms by (auto simp: header_decode_def split: option.splits parser_status_e.splits)
  have "header_status max_inputs bs = PARSING_OK"
    using header_deserialize_status [of "mk_buffer bs" "replicate 5 0" max_inputs "zero_transaction max_inputs"] d
    by auto
  then have len: "length bs = 13" and n_out: "bs ! 2 \<in> {1, 2}" and n_in: "bs ! 3 \<noteq> 0"
    "unat (bs ! 3) \<le> max_inputs" and ty: "bs ! 4 \<in> {0, 1}"
    and acc: "0x80000000 \<le> (be_word (drop 9 bs) :: u32)"
    by (auto simp: header_status_def split: if_splits)
  have r: "tx = (zero_transaction max_inputs)\<lparr>version := be_word (take 2 bs),
      tx_output_len := unat (bs ! 2), tx_input_len := unat (bs ! 3), account := be_word (drop 9 bs)\<rparr>"
    "path = header_path (be_word (drop 9 bs)) (ucast (bs ! 4)) (be_word (take 4 (drop 5 bs)))"
    using header_deserialize_full [of "mk_buffer bs" "replicate 5 0" max_inputs "zero_transaction max_inputs"]
      d len n_out n_in ty acc by simp_all
  have ok: "header_ok max_inputs x"
    using n_out n_in ty acc unat_u8_less [of "bs ! 3"]
    by (auto simp: header_ok_def x r header_path_def Suc_le_eq unat_gt_0)
  have "drop 2 bs = bs ! 2 # bs ! 3 # bs ! 4 # drop 5 bs"
    using len Cons_nth_drop_Suc [of 2 bs] Cons_nth_drop_Suc [of 3 bs] Cons_nth_drop_Suc [of 4 bs] by simp
  then have "bs = take 2 bs @ [bs ! 2, bs ! 3, bs ! 4] @ take 4 (drop 5 bs) @ drop 9 bs"
    using append_take_drop_id [of 2 bs] append_take_drop_id [of 4 "drop 5 bs"] by simp
  moreover have "(ucast (ucast (bs ! 4) :: u32) :: u8) = bs ! 4" using ty by auto
  ultimately have "header_encode W x = bs"
    using header_serialize [of path "zeros 13" 13] len
      be_bytes_be_word [of "take 2 bs", where ?'a = 16]
      be_bytes_be_word [of "take 4 (drop 5 bs)", where ?'a = 32]
      be_bytes_be_word [of "drop 9 bs", where ?'a = 32]
    by (simp add: header_encode_def written_def x r header_path_def)
  with ok show ?thesis by simp
qed

end

sublocale wire \<subseteq> out_codec: codec "output_encode W" "output_decode B" output_ok
  by unfold_locales (rule output_dec_enc, assumption, rule output_enc_dec, assumption)

sublocale wire \<subseteq> in_codec: codec "input_encode W" "input_decode B" input_ok
  by unfold_locales (rule input_dec_enc, assumption, rule input_enc_dec, assumption)

sublocale wire \<subseteq> hdr_codec: codec "header_encode W" "header_decode B n" "header_ok n"
  by unfold_locales (rule header_dec_enc, assumption, rule header_enc_dec, assumption)

context wire
begin

lemma output_dec_iff: "output_decode B bs = Some x \<longleftrightarrow> output_ok x \<and> output_encode W x = bs"
  by (rule out_codec.dec_iff)

lemma input_dec_iff: "input_decode B bs = Some x \<longleftrightarrow> input_ok x \<and> input_encode W x = bs"
  by (rule in_codec.dec_iff)

lemma header_dec_iff:
  "header_decode B n bs = Some x \<longleftrightarrow> header_ok n x \<and> header_encode W x = bs"
  by (rule hdr_codec.dec_iff)

end

interpretation std_wire: wire std_buffer std_write
  by unfold_locales

lemma wireI: "buffer_api B \<Longrightarrow> write_api W \<Longrightarrow> wire B W"
  by (simp add: wire_def)

section \<open>Properties\<close>

text \<open>C34. Parsing an output never touches memory outside its arrays and its verdict on the
  received bytes is the reference verdict: the missing value, an unknown or cut script,
  trailing bytes, or success, each with its own status.\<close>

theorem output_parser_verdict:
  assumes "buffer_api B" and "valid_buffer b" and "wf_output txout"
  shows "\<exists>b' out. transaction_output_deserialize B b txout = Some (output_status (rest b), b', out)
    \<and> wf_output out"
  by (rule buffer_api.output_deserialize_status [OF assms])

theorem output_parser_verdict_witness:
  "\<exists>b' out. transaction_output_deserialize std_buffer (mk_buffer [0, 0, 0, 0, 0, 0, 0, 1, 0x20])
     zero_output = Some (OUTPUT_SCRIPT_PUBKEY_PARSING_ERROR, b', out) \<and> wf_output out"
  using output_parser_verdict [OF std_buffer_api valid_mk_buffer, of zero_output
      "[0, 0, 0, 0, 0, 0, 0, 1, 0x20]"]
  by (simp add: output_status_def known_script_def script_len_def op_consts)

text \<open>C35. Parsing an input never touches memory outside its arrays and its verdict names the
  first field the bytes are too short for, or the trailing bytes.\<close>

theorem input_parser_verdict:
  assumes "buffer_api B" and "valid_buffer b" and "wf_input txin"
  shows "\<exists>b' i. transaction_input_deserialize B b txin = Some (input_status (rest b), b', i)
    \<and> wf_input i"
  by (rule buffer_api.input_deserialize_status [OF assms])

theorem input_parser_verdict_witness:
  "\<exists>b' i. transaction_input_deserialize std_buffer (mk_buffer (replicate 40 7)) zero_input =
     Some (INPUT_ADDRESS_TYPE_PARSING_ERROR, b', i) \<and> wf_input i"
  using input_parser_verdict [OF std_buffer_api valid_mk_buffer, of zero_input "replicate 40 7"]
  by (simp add: input_status_def)



text \<open>C37. The output format is an exact codec: a byte string decodes to an output if and
  only if it is what the writer produces for it, and exactly the outputs with a known script
  (Schnorr, ECDSA or script hash) are decoded.\<close>

theorem output_round_trip:
  assumes "buffer_api B" and "write_api W"
  shows "output_decode B bs = Some x \<longleftrightarrow> output_ok x \<and> output_encode W x = bs"
  using assms by (rule wire.output_dec_iff [OF wireI])

theorem output_round_trip_witness:
  "let x = \<lparr>out_value = 5, out_script_public_key = 0x20 # replicate 32 9 @ [0xac] @ zeros 6\<rparr>
   in output_decode std_buffer (output_encode std_write x) = Some x"
  by (simp add: Let_def output_round_trip [OF std_buffer_api std_write_api] output_ok_def
      script_len_def known_script_def op_consts nth_append zeros_def)

text \<open>C38. The input format is an exact codec over all inputs with sequence number 0.\<close>

theorem input_round_trip:
  assumes "buffer_api B" and "write_api W"
  shows "input_decode B bs = Some x \<longleftrightarrow> input_ok x \<and> input_encode W x = bs"
  using assms by (rule wire.input_dec_iff [OF wireI])

theorem input_round_trip_witness:
  "let x = zero_input\<lparr>in_value := 99000, in_index := 3\<rparr>
   in input_decode std_buffer (input_encode std_write x) = Some x"
  by (simp add: Let_def input_round_trip [OF std_buffer_api std_write_api] input_ok_def
      wf_input_def zero_input_def)

text \<open>C39. The header format is an exact codec: the version, the counts and the derivation
  path of the change output are what the bytes say, and the path always starts with
  44'/111111' and a hardened account.\<close>

theorem header_round_trip:
  assumes "buffer_api B" and "write_api W"
  shows "header_decode B max_inputs bs = Some x \<longleftrightarrow> header_ok max_inputs x \<and> header_encode W x = bs"
  using assms by (rule wire.header_dec_iff [OF wireI])

theorem header_round_trip_witness:
  "let x = (1, 2, 3, [0x8000002C, 0x8001b207, 0x80000000, 1, 7])
   in header_decode std_buffer 15 (header_encode std_write x) = Some x"
  by (simp add: Let_def header_round_trip [OF std_buffer_api std_write_api] header_ok_def
      header_path_def)

text \<open>The header writer's size check is too weak: given an area of \<open>n\<close> bytes it
  writes outside of it exactly when \<open>n\<close> is between 9 and 12 (the header has 13 bytes,
  the check asks for 9).\<close>

theorem header_writer_bounds:
  assumes "write_api W" and "length path = 5" and "length out = n"
  shows "transaction_serialize W tx path out n = None \<longleftrightarrow> 9 \<le> n \<and> n < 13"
  using assms by (rule write_api.header_serialize_bounds)

theorem header_writer_bounds_witness:
  "transaction_serialize std_write (zero_transaction 1) (replicate 5 0) (zeros 12) 12 = None"
  using header_writer_bounds [OF std_write_api, of "replicate 5 0" "zeros 12" 12] by simp

text \<open>The output writer's size check is too weak: for an output with a script known to
  the application, it writes outside an area of \<open>n\<close> bytes exactly when \<open>n\<close> is at
  least 41 but smaller than the encoding (42 or 43 bytes).\<close>

theorem output_writer_bounds:
  assumes "write_api W" and "out_script_public_key x = sc @ r" and "known_script sc"
    and "length out = n"
  shows "transaction_output_serialize W x out n = None \<longleftrightarrow> 41 \<le> n \<and> n < 8 + length sc"
  using assms by (rule write_api.output_serialize_bounds)

theorem output_writer_bounds_witness:
  "transaction_output_serialize std_write
     \<lparr>out_value = 5, out_script_public_key = (0x20 # replicate 32 9 @ [0xac]) @ zeros 6\<rparr> (zeros 41) 41 = None"
  using output_writer_bounds [OF std_write_api, of
      "\<lparr>out_value = 5, out_script_public_key = (0x20 # replicate 32 9 @ [0xac]) @ zeros 6\<rparr>"
      "0x20 # replicate 32 9 @ [0xac]" "zeros 6" "zeros 41" 41]
  by (simp add: known_script_def op_consts nth_append)

text \<open>C40. The writers' size checks are too weak: given an area of \<open>n\<close> bytes, the header writer
  writes outside of it exactly when \<open>n\<close> is between 9 and 12, and the output writer, for an
  output with a known script, exactly when \<open>n\<close> is at least 41 but smaller than the encoding
  of 42 or 43 bytes.\<close>

theorem writer_bounds:
  assumes "write_api W" and "length path = 5" and "length out = n"
    and "out_script_public_key x = sc @ r" and "known_script sc"
  shows "(transaction_serialize W tx path out n = None \<longleftrightarrow> 9 \<le> n \<and> n < 13) \<and>
    (transaction_output_serialize W x out n = None \<longleftrightarrow> 41 \<le> n \<and> n < 8 + length sc)"
  using header_writer_bounds [OF assms(1-3)] output_writer_bounds [OF assms(1,4,5,3)] by blast

theorem writer_bounds_witness:
  "transaction_serialize std_write (zero_transaction 1) (replicate 5 0) (zeros 12) 12 = None \<and>
   transaction_output_serialize std_write
     \<lparr>out_value = 5, out_script_public_key = (0x20 # replicate 32 9 @ [0xac]) @ zeros 6\<rparr> (zeros 41) 41 = None"
  using writer_bounds [OF std_write_api, of "replicate 5 0" "zeros 12" 12
      "\<lparr>out_value = 5, out_script_public_key = (0x20 # replicate 32 9 @ [0xac]) @ zeros 6\<rparr>"
      "0x20 # replicate 32 9 @ [0xac]" "zeros 6" "zero_transaction 1"]
    writer_bounds [OF std_write_api, of "replicate 5 0" "zeros 41" 41
      "\<lparr>out_value = 5, out_script_public_key = (0x20 # replicate 32 9 @ [0xac]) @ zeros 6\<rparr>"
      "0x20 # replicate 32 9 @ [0xac]" "zeros 6" "zero_transaction 1"]
  by (simp add: known_script_def op_consts nth_append)

end
