(* ===== verification/Cashaddr.thy ===== *)
theory Cashaddr
  imports Prelude
begin

text \<open>
  The address encoding of \<open>src/import/cashaddr.c\<close>: the checksum polynomial, the regrouping
  of bits, and the encoder. Local arrays (\<open>tmp\<close>, \<open>payload\<close>) start as zeros here; the
  code writes each byte it reads.
\<close>

text \<open>A bound by a power of two, on the bits.\<close>

lemma word_less_bits:
  assumes "n < LENGTH('a::len)"
  shows "(w :: 'a word) < 2 ^ n \<longleftrightarrow> (\<forall>k\<ge>n. \<not> bit w k)"
proof -
  have "w < 2 ^ n \<longleftrightarrow> take_bit n w = w"
    using assms less_mask_eq [of w n] and_mask_less' [of n w] by (auto simp: take_bit_eq_mask)
  also have "\<dots> \<longleftrightarrow> (\<forall>k\<ge>n. \<not> bit w k)"
    by (auto simp: bit_eq_iff bit_take_bit_iff not_le [symmetric]) (metis bit_imp_le_length not_le)
  finally show ?thesis .
qed

section \<open>The checksum\<close>

definition cashaddr_polymod_step :: "u64 \<Rightarrow> u64" where
  "cashaddr_polymod_step pre =
     (let b = (ucast (drop_bit 35 pre) :: u8)
      in push_bit 5 (pre AND 0x07ffffffff) XOR
         (- ucast (drop_bit 0 b AND 1) AND 0x98f2bc8e61) XOR
         (- ucast (drop_bit 1 b AND 1) AND 0x79b76d99e2) XOR
         (- ucast (drop_bit 2 b AND 1) AND 0xf33e5fb3c4) XOR
         (- ucast (drop_bit 3 b AND 1) AND 0xae2eabe2a8) XOR
         (- ucast (drop_bit 4 b AND 1) AND 0x1e4f43e470))"

text \<open>The loop over the prefix, a string that must end with a zero byte.\<close>

fun PolyMod_prefix :: "bytes \<Rightarrow> u64 \<Rightarrow> u64 option" where
  "PolyMod_prefix [] c = None"
| "PolyMod_prefix (p # ps) c =
     (if p \<noteq> 0 then PolyMod_prefix ps (cashaddr_polymod_step c XOR ucast (p AND 0x1f)) else Some c)"

definition PolyMod :: "bytes \<Rightarrow> bytes \<Rightarrow> nat \<Rightarrow> u64 option" where
  "PolyMod prefx payload payload_length = do {
     c \<leftarrow> PolyMod_prefix prefx 1;
     let c = cashaddr_polymod_step c;
     d \<leftarrow> mem_read payload 0 payload_length;
     let c = foldl (\<lambda>c p. cashaddr_polymod_step c XOR ucast p) c d;
     let c = (cashaddr_polymod_step ^^ 8) c;
     Some (c XOR 1)
   }"

definition create_checksum :: "bytes \<Rightarrow> nat \<Rightarrow> bytes \<Rightarrow> bytes option" where
  "create_checksum payload payload_length checksum = do {
     let prefx = c_bytes ''kaspa'' @ [0];
     m \<leftarrow> PolyMod prefx payload payload_length;
     mem_write checksum 0 (map (\<lambda>i. ucast (drop_bit (5 * (7 - i)) m AND 0x1f)) [0..<8])
   }"

section \<open>Regrouping bits\<close>

text \<open>
  The widths are C integers of type \<open>int\<close>, the accumulator is a \<open>uint32_t\<close>: a shift of it is
  defined for amounts from 0 to 31 only. (The sums of widths stay small: a shift precedes them.)
\<close>

definition shl32 :: "u32 \<Rightarrow> int \<Rightarrow> u32 option" where
  "shl32 x n = (if 0 \<le> n \<and> n < 32 then Some (push_bit (nat n) x) else None)"

definition shr32 :: "u32 \<Rightarrow> int \<Rightarrow> u32 option" where
  "shr32 x n = (if 0 \<le> n \<and> n < 32 then Some (drop_bit (nat n) x) else None)"

text \<open>
  The inner loop ends because \<open>outbits\<close> is positive in every call; it is partial, so that
  a call with \<open>outbits = 0\<close>, which would not return, has no result.
\<close>

partial_function (option) convert_bits_out ::
  "bytes \<Rightarrow> nat \<Rightarrow> int \<Rightarrow> u32 \<Rightarrow> u32 \<Rightarrow> int \<Rightarrow> (bytes \<times> nat \<times> int) option"
where
  "convert_bits_out out outlen outbits maxv val bits =
     (if bits \<ge> outbits then do {
        let bits = bits - outbits;
        v \<leftarrow> shr32 val bits;
        out \<leftarrow> arr_put out outlen (ucast (v AND maxv));
        convert_bits_out out (outlen + 1) outbits maxv val bits
      } else Some (out, outlen, bits))"

declare convert_bits_out.simps [code]

fun convert_bits_in ::
  "bytes \<Rightarrow> nat \<Rightarrow> int \<Rightarrow> u32 \<Rightarrow> bytes \<Rightarrow> int \<Rightarrow> u32 \<Rightarrow> int \<Rightarrow> (bytes \<times> nat \<times> u32 \<times> int) option"
where
  "convert_bits_in out outlen outbits maxv [] inbits val bits = Some (out, outlen, val, bits)"
| "convert_bits_in out outlen outbits maxv (x # xs) inbits val bits = do {
     v \<leftarrow> shl32 val inbits;
     let val = v OR ucast x;
     let bits = bits + inbits;
     (out, outlen, bits) \<leftarrow> convert_bits_out out outlen outbits maxv val bits;
     convert_bits_in out outlen outbits maxv xs inbits val bits
   }"

definition convert_bits ::
  "bytes \<Rightarrow> nat \<Rightarrow> int \<Rightarrow> bytes \<Rightarrow> nat \<Rightarrow> int \<Rightarrow> bool \<Rightarrow> (int \<times> bytes \<times> nat) option"
where
  "convert_bits out outlen outbits inp inlen inbits pad = do {
     one \<leftarrow> shl32 1 outbits;
     let maxv = one - 1;
     d \<leftarrow> mem_read inp 0 inlen;
     (out, outlen, val, bits) \<leftarrow> convert_bits_in out outlen outbits maxv d inbits 0 0;
     if pad then
       (if bits \<noteq> 0 then do {
          v \<leftarrow> shl32 val (outbits - bits);
          out \<leftarrow> arr_put out outlen (ucast (v AND maxv));
          Some (1, out, outlen + 1)
        } else Some (1, out, outlen))
     else do {
       v \<leftarrow> shl32 val (outbits - bits);
       if v AND maxv \<noteq> 0 \<or> bits \<ge> inbits then Some (0, out, outlen) else Some (1, out, outlen)
     }
   }"

section \<open>The encoder\<close>

definition charset :: bytes where
  "charset = c_bytes ''qpzry9x8gf2tvdw0s3jn54khce6mua7l'' @ [0]"

definition CASHADDR_P2PKH :: nat where "CASHADDR_P2PKH = 0"
definition CASHADDR_P2PKH_ECDSA :: nat where "CASHADDR_P2PKH_ECDSA = 1"
definition CASHADDR_P2SH :: nat where "CASHADDR_P2SH = 8"

lemmas cashaddr_consts = CASHADDR_P2PKH_def CASHADDR_P2PKH_ECDSA_def CASHADDR_P2SH_def

text \<open>
  The body of the two output loops, for the symbol \<open>v\<close> of an array whose first symbol is
  \<open>first\<close> (the code tests the first symbol in every round). The state is the output area,
  the write position and the length so far; \<open>False\<close> stands for \<open>return 0\<close>.
\<close>

definition emit_symbol ::
  "nat \<Rightarrow> nat \<Rightarrow> u8 \<Rightarrow> u8 \<Rightarrow> bytes \<times> nat \<times> nat \<Rightarrow> (bool \<times> bytes \<times> nat \<times> nat) option"
where
  "emit_symbol addr_start max_addr_len first v s = (case s of (addr, pos, addr_length) \<Rightarrow>
     if drop_bit 5 first \<noteq> 0 then do {
       addr \<leftarrow> arr_put addr addr_start 0;
       Some (False, addr, pos, addr_length)
     } else
       let addr_length = addr_length + 1
       in if max_addr_len < addr_length then do {
            addr \<leftarrow> arr_put addr addr_start 0;
            Some (False, addr, pos, addr_length)
          } else do {
            ch \<leftarrow> arr_get charset (unat v);
            addr \<leftarrow> arr_put addr pos ch;
            Some (True, addr, pos + 1, addr_length)
          })"

text \<open>\<open>addr_start\<close> is where in the array \<open>addr\<close> the pointer of the caller points.\<close>

definition cashaddr_encode ::
  "bytes \<Rightarrow> nat \<Rightarrow> bytes \<Rightarrow> nat \<Rightarrow> nat \<Rightarrow> nat \<Rightarrow> (int \<times> bytes) option"
where
  "cashaddr_encode hash hash_length addr addr_start max_addr_len ver = do {
     let checksum = zeros 8;
     let tmp = zeros 40;
     let payload = zeros 70;
     addr \<leftarrow> arr_put addr addr_start 0;
     if ver \<notin> {CASHADDR_P2PKH, CASHADDR_P2PKH_ECDSA, CASHADDR_P2SH} then Some (0, addr)
     else do {
       let version_byte = (if ver = CASHADDR_P2PKH then 0
                           else if ver = CASHADDR_P2PKH_ECDSA then 1 else 8);
       tmp \<leftarrow> arr_put tmp 0 version_byte;
       d \<leftarrow> mem_read hash 0 hash_length;
       tmp \<leftarrow> mem_write tmp 1 d;
       (_, payload, payload_length) \<leftarrow> convert_bits payload 0 5 tmp (hash_length + 1) 8 True;
       checksum \<leftarrow> create_checksum payload payload_length checksum;
       pl \<leftarrow> mem_read payload 0 payload_length;
       (ok, addr, pos, addr_length) \<leftarrow>
         for_each (emit_symbol addr_start max_addr_len (payload ! 0)) pl (addr, addr_start, 0);
       if \<not> ok then Some (0, addr) else do {
         (ok, addr, pos, addr_length) \<leftarrow>
           for_each (emit_symbol addr_start max_addr_len (checksum ! 0)) checksum
             (addr, pos, addr_length);
         if \<not> ok then Some (0, addr) else do {
           addr \<leftarrow> arr_put addr pos 0;
           Some (int addr_length, addr)
         }
       }
     }
   }"

end
