(* ===== verification/Cashaddr_Bits.thy ===== *)
theory Cashaddr_Bits
  imports Cashaddr
begin

text \<open>
  What \<open>convert_bits\<close> computes: the groups it writes spell the same bit string, most
  significant bit first, as the groups it reads, with zero bits at the end when it pads. From
  this follow the round trip through 5-bit symbols and the length of an address.
\<close>

section \<open>Bit strings\<close>

definition bits_of :: "nat \<Rightarrow> 'a::len word \<Rightarrow> bool list" where
  "bits_of n w = map (bit w) (rev [0..<n])"

definition spell :: "nat \<Rightarrow> bytes \<Rightarrow> bool list" where
  "spell n xs = concat (map (bits_of n) xs)"

lemma length_bits_of [simp]: "length (bits_of n w) = n"
  by (simp add: bits_of_def)

lemma nth_bits_of: "i < n \<Longrightarrow> bits_of n w ! i = bit w (n - Suc i)"
  by (simp add: bits_of_def rev_nth)

lemma bits_of_0 [simp]: "bits_of 0 w = []"
  by (simp add: bits_of_def)

lemma length_spell [simp]: "length (spell n xs) = n * length xs"
  by (induction xs) (auto simp: spell_def)

lemma spell_simps [simp]:
  "spell n [] = []" "spell n (x # xs) = bits_of n x @ spell n xs"
  "spell n (xs @ ys) = spell n xs @ spell n ys"
  by (simp_all add: spell_def)

lemma bits_of_push:
  assumes "m + n \<le> 32" and "x < 2 ^ n \<or> n = 8" and "n \<le> 8"
  shows "bits_of (m + n) (push_bit n (v :: u32) OR ucast (x :: u8)) = bits_of m v @ bits_of n x"
proof (rule nth_equalityI)
  fix i assume "i < length (bits_of (m + n) (push_bit n v OR ucast x))"
  then have i: "i < m + n" by simp
  have x: "\<not> bit x k" if "n \<le> k" for k
    using that assms word_less_bits [of n x] by (cases "n = 8") (auto dest: bit_imp_le_length)
  show "bits_of (m + n) (push_bit n v OR ucast x) ! i = (bits_of m v @ bits_of n x) ! i"
  proof (cases "i < m")
    case True
    define j where "j = m - Suc i"
    have "m + n - Suc i = j + n" and "j + n < 32" using True assms(1) by (simp_all add: j_def)
    then show ?thesis using i True x [of "j + n"]
      by (simp add: nth_bits_of nth_append bit_or_iff bit_push_bit_iff bit_ucast_iff flip: j_def)
  next
    case False
    define j where "j = n - Suc (i - m)"
    have j: "m + n - Suc i = j" and jn: "j < n" using False i by (auto simp: j_def)
    then have "j < 8" "j < 32" using assms(3) by simp_all
    then show ?thesis using i False jn
      by (simp add: nth_bits_of nth_append bit_or_iff bit_push_bit_iff bit_ucast_iff j flip: j_def)
  qed
qed simp

lemma bits_of_split:
  assumes "k \<le> n" and "k \<le> 8" and "n \<le> 32"
  shows "bits_of k (ucast (drop_bit (n - k) (v :: u32) AND mask k) :: u8) @ bits_of (n - k) v = bits_of n v"
proof (rule nth_equalityI)
  fix i assume "i < length (bits_of k (ucast (drop_bit (n - k) v AND mask k) :: u8) @ bits_of (n - k) v)"
  then have i: "i < n" using assms by simp
  then have e: "i < k \<Longrightarrow> n - k + (k - Suc i) = n - Suc i" "\<not> i < k \<Longrightarrow> n - k - Suc (i - k) = n - Suc i"
    using assms by auto
  show "(bits_of k (ucast (drop_bit (n - k) v AND mask k) :: u8) @ bits_of (n - k) v) ! i = bits_of n v ! i"
    using i assms e
    by (auto simp: nth_bits_of nth_append bit_ucast_iff bit_and_iff bit_drop_bit_eq bit_mask_iff)
qed (use assms in simp)

lemma bits_of_pad:
  assumes "m < k" and "k \<le> 8"
  shows "bits_of k (ucast (push_bit (k - m) (v :: u32) AND mask k) :: u8) = bits_of m v @ replicate (k - m) False"
  using assms
  by (intro nth_equalityI)
    (auto simp: nth_bits_of nth_append bit_ucast_iff bit_and_iff bit_push_bit_iff bit_mask_iff)

lemma mask_symbol: "k \<le> 8 \<Longrightarrow> (ucast (v AND mask k :: u32) :: u8) < 2 ^ k \<or> k = 8"
  using word_less_bits [of k "ucast (v AND mask k :: u32) :: u8"]
  by (auto simp: bit_ucast_iff bit_and_iff bit_mask_iff)

lemma bits_of_inject:
  assumes "bits_of n x = bits_of n (y :: u8)" and "n \<le> 8"
    and "x < 2 ^ n \<or> n = 8" and "y < 2 ^ n \<or> n = 8"
  shows "x = y"
proof (rule bit_word_eqI)
  fix k assume "k < LENGTH(8)"
  show "bit x k = bit y k"
  proof (cases "k < n")
    case True
    then show ?thesis using arg_cong [OF assms(1), of "\<lambda>l. l ! (n - Suc k)"] by (simp add: nth_bits_of)
  next
    case False
    then show ?thesis using assms(2-4) \<open>k < LENGTH(8)\<close> word_less_bits [of n x] word_less_bits [of n y]
      by auto
  qed
qed

definition fits :: "nat \<Rightarrow> bytes \<Rightarrow> bool" where
  "fits n xs \<longleftrightarrow> (\<forall>x\<in>set xs. x < 2 ^ n \<or> n = 8)"

lemma fits_simps [simp]:
  "fits n []" "fits n (x # xs) \<longleftrightarrow> (x < 2 ^ n \<or> n = 8) \<and> fits n xs"
  "fits n (xs @ ys) \<longleftrightarrow> fits n xs \<and> fits n ys"
  by (auto simp: fits_def)

lemma fits_8 [simp]: "fits 8 xs"
  by (simp add: fits_def)

lemma spell_inject:
  "spell n xs = spell n ys \<Longrightarrow> length xs = length ys \<Longrightarrow> fits n xs \<Longrightarrow> fits n ys \<Longrightarrow> n \<le> 8 \<Longrightarrow> xs = ys"
proof (induction xs arbitrary: ys)
  case (Cons x xs)
  then show ?case by (cases ys) (auto dest: bits_of_inject)
qed simp

section \<open>The loops\<close>

lemma shift_simps [simp]:
  "n < 32 \<Longrightarrow> shl32 x (int n) = Some (push_bit n x)" "n < 32 \<Longrightarrow> shr32 x (int n) = Some (drop_bit n x)"
  by (simp_all add: shl32_def shr32_def)

lemma convert_out:
  assumes "0 < k" and "k \<le> 8" and "n \<le> 32" and "n div k \<le> length r"
  shows "\<exists>ys m. convert_bits_out (pre @ r) (length pre) (int k) (mask k) val (int n) =
      Some (pre @ ys @ drop (length ys) r, length pre + length ys, int m) \<and>
    m < k \<and> fits k ys \<and> length ys = n div k \<and> spell k ys @ bits_of m val = bits_of n val"
  using assms(3,4)
proof (induction n arbitrary: pre r rule: less_induct)
  case (less n)
  show ?case
  proof (cases "n < k")
    case True
    then show ?thesis by (subst convert_bits_out.simps) (auto intro!: exI [of _ "[]"])
  next
    case False
    define y where "y = (ucast (drop_bit (n - k) val AND mask k) :: u8)"
    have dv: "n div k = Suc ((n - k) div k)" using False assms(1) by (simp add: le_div_geq)
    then obtain r0 rs where r: "r = r0 # rs" using less.prems by (cases r) auto
    have put: "arr_put (pre @ r) (length pre) y = Some ((pre @ [y]) @ rs)"
      using arr_put_prefix [of pre "length pre" r y] by (simp add: r)
    have lt: "n - k < n" and le: "n - k \<le> 32" "n - k < 32" and cap: "(n - k) div k \<le> length rs"
      using False assms(1) less.prems dv by (simp_all add: r)
    have sub: "int n - int k = int (n - k)" using False by simp
    obtain ys m where IH: "convert_bits_out ((pre @ [y]) @ rs) (length (pre @ [y])) (int k) (mask k) val (int (n - k)) =
        Some ((pre @ [y]) @ ys @ drop (length ys) rs, length (pre @ [y]) + length ys, int m)"
      "m < k" "fits k ys" "length ys = (n - k) div k" "spell k ys @ bits_of m val = bits_of (n - k) val"
      using less.IH [OF lt le(1) cap, of "pre @ [y]"] by (elim exE conjE) (rule that)
    have "convert_bits_out (pre @ r) (length pre) (int k) (mask k) val (int n) =
        Some (pre @ (y # ys) @ drop (length (y # ys)) r, length pre + length (y # ys), int m)"
      using False put IH(1) le(2) by (subst convert_bits_out.simps) (simp add: Let_def sub r del: of_nat_diff flip: y_def)
    moreover have "spell k (y # ys) @ bits_of m val = bits_of n val"
      using IH(5) bits_of_split [of k n val] False assms(2) less.prems(1) by (simp add: y_def)
    moreover have "fits k (y # ys)"
      using IH(3) mask_symbol [OF assms(2)] by (simp add: y_def)
    ultimately show ?thesis using IH dv by (metis length_Cons)
  qed
qed

lemma convert_in:
  assumes "0 < k" and "k \<le> 8" and "n \<le> 8" and "m < k" and "fits n xs"
    and "(m + n * length xs) div k \<le> length r"
  shows "\<exists>ys val' m'. convert_bits_in (pre @ r) (length pre) (int k) (mask k) xs (int n) val (int m) =
      Some (pre @ ys @ drop (length ys) r, length pre + length ys, val', int m') \<and>
    m' < k \<and> fits k ys \<and> spell k ys @ bits_of m' val' = bits_of m val @ spell n xs"
  using assms(4-6)
proof (induction xs arbitrary: pre r val m)
  case Nil
  then show ?case by (auto intro!: exI [of _ "[]"])
next
  case (Cons x xs)
  define v where "v = push_bit n val OR ucast x"
  have le: "(m + n) div k \<le> (m + n * length (x # xs)) div k" by (rule div_le_mono) simp
  obtain ys m1 where o: "convert_bits_out (pre @ r) (length pre) (int k) (mask k) v (int (m + n)) =
      Some (pre @ ys @ drop (length ys) r, length pre + length ys, int m1)"
    "m1 < k" "fits k ys" "length ys = (m + n) div k" "spell k ys @ bits_of m1 v = bits_of (m + n) v"
    using convert_out [of k "m + n" r pre v] assms(1-3) Cons.prems le by auto
  have v: "bits_of (m + n) v = bits_of m val @ bits_of n x"
    using bits_of_push [of m n x val] Cons.prems assms(1-3) by (simp add: v_def)
  have len: "k * length ys + m1 = m + n"
    using arg_cong [OF o(5), of length] by simp
  have "k * length ys + (m1 + n * length xs) = m + n * length (x # xs)" using len by simp
  then have "(m + n * length (x # xs)) div k = length ys + (m1 + n * length xs) div k"
    using assms(1) by (metis div_mult_self4 add.commute less_not_refl)
  then have cap: "(m1 + n * length xs) div k \<le> length (drop (length ys) r)"
    using Cons.prems(3) by simp
  have f: "fits n xs" using Cons.prems(2) by simp
  obtain zs v' m' where IH: "convert_bits_in ((pre @ ys) @ drop (length ys) r) (length (pre @ ys)) (int k)
        (mask k) xs (int n) v (int m1) = Some ((pre @ ys) @ zs @ drop (length zs) (drop (length ys) r),
          length (pre @ ys) + length zs, v', int m')"
    "m' < k" "fits k zs" "spell k zs @ bits_of m' v' = bits_of m1 v @ spell n xs"
    using Cons.IH [OF o(2) f cap, of "pre @ ys" v] by (elim exE conjE) (rule that)
  have n: "n < 32" using assms(3) by simp
  show ?case
    using o IH v n by (intro exI [of _ "ys @ zs"] exI [of _ v'] exI [of _ m'])
      (simp add: Let_def add.commute flip: v_def)
qed

section \<open>The whole conversion\<close>

text \<open>\<open>regroups k ys n xs\<close>: the k-bit groups \<open>ys\<close> spell the n-bit groups \<open>xs\<close>,
  completed by fewer than k zero bits.\<close>

definition regroups :: "nat \<Rightarrow> bytes \<Rightarrow> nat \<Rightarrow> bytes \<Rightarrow> bool" where
  "regroups k ys n xs \<longleftrightarrow> fits k ys \<and> (\<exists>p<k. spell k ys = spell n xs @ replicate p False)"

lemma mask_push: "push_bit k 1 - 1 = (mask k :: u32)"
  by (simp add: mask_eq_exp_minus_1 push_bit_eq_mult)

text \<open>The whole conversion on widths for which its shifts are defined.\<close>

lemma convert_bits_eq:
  "k < 32 \<Longrightarrow> convert_bits out outlen (int k) inp inlen inbits pad = do {
     d \<leftarrow> mem_read inp 0 inlen;
     (out, outlen, val, bits) \<leftarrow> convert_bits_in out outlen (int k) (mask k) d inbits 0 0;
     if pad then
       (if bits \<noteq> 0 then do {
          v \<leftarrow> shl32 val (int k - bits);
          out \<leftarrow> arr_put out outlen (ucast (v AND mask k));
          Some (1, out, outlen + 1)
        } else Some (1, out, outlen))
     else do {
       v \<leftarrow> shl32 val (int k - bits);
       if v AND mask k \<noteq> 0 \<or> bits \<ge> inbits then Some (0, out, outlen) else Some (1, out, outlen)
     }
   }"
  unfolding convert_bits_def Let_def
  by (simp only: shift_simps bind.simps mask_push)

lemma shl32_rest: "m < k \<Longrightarrow> k < 32 \<Longrightarrow> shl32 v (int k - int m) = Some (push_bit (k - m) v)"
  using shift_simps(1) [of "k - m" v] by simp

lemma regroups_length:
  assumes "regroups k ys n xs"
  shows "length ys = (n * length xs + (k - 1)) div k"
proof -
  obtain p where p: "p < k" "spell k ys = spell n xs @ replicate p False"
    using assms by (auto simp: regroups_def)
  have "k * length ys = n * length xs + p" using arg_cong [OF p(2), of length] by simp
  then have "n * length xs + (k - 1) = (k - 1 - p) + k * length ys" using p(1) by simp
  then show ?thesis using p(1) by (simp only: div_mult_self2) simp
qed

lemma convert_bits_pad:
  assumes "0 < k" and "k \<le> 8" and "n \<le> 8" and "fits n xs" and "length xs \<le> length inp"
    and "xs = take (length xs) inp" and "(n * length xs + (k - 1)) div k \<le> length out"
  shows "\<exists>ys. convert_bits out 0 (int k) inp (length xs) (int n) True =
    Some (1, ys @ drop (length ys) out, length ys) \<and> regroups k ys n xs"
proof -
  have le: "(0 + n * length xs) div k \<le> (n * length xs + (k - 1)) div k" by (rule div_le_mono) simp
  have k: "k < 32" using assms(2) by simp
  obtain ys v m where c: "convert_bits_in ([] @ out) (length []) (int k) (mask k) xs (int n) 0 0 =
      Some ([] @ ys @ drop (length ys) out, length [] + length ys, v, int m)"
    "m < k" "fits k ys" "spell k ys @ bits_of m v = bits_of 0 (0 :: u32) @ spell n xs"
    using convert_in [OF assms(1-3) assms(1) assms(4) le_trans [OF le assms(7)], of "[]" 0]
    by (auto simp: of_nat_0)
  have rd: "mem_read inp 0 (length xs) = Some xs"
    using assms(5,6) by (simp add: mem_read_def)
  show ?thesis
  proof (cases "m = 0")
    case True
    then show ?thesis unfolding convert_bits_eq [OF k]
      using c rd assms(1) by (intro exI [of _ ys]) (auto simp: regroups_def)
  next
    case False
    define z where "z = (ucast (push_bit (k - m) v AND mask k) :: u8)"
    have sp: "spell k (ys @ [z]) = spell n xs @ replicate (k - m) False"
      using c(2,4) assms(2) by (simp add: bits_of_pad z_def flip: append_assoc)
    have r: "regroups k (ys @ [z]) n xs"
      unfolding regroups_def using sp c(3) mask_symbol [OF assms(2)] False c(2)
      by (auto simp: z_def intro!: exI [of _ "k - m"])
    have "length ys < length out"
      using regroups_length [OF r] assms(7) by simp
    then have put: "arr_put (ys @ drop (length ys) out) (length ys) z =
        Some ((ys @ [z]) @ drop (length (ys @ [z])) out)"
      using arr_put_prefix [of ys "length ys" "drop (length ys) out" z] by simp
    show ?thesis unfolding convert_bits_eq [OF k]
      using c(1,2) rd put r False k by (intro exI [of _ "ys @ [z]"]) (simp add: shl32_rest flip: z_def)
  qed
qed

text \<open>Without padding, the conversion back accepts exactly such symbols.\<close>

lemma convert_bits_back:
  assumes "regroups 5 ys 8 xs" and "length xs \<le> length out"
  shows "convert_bits out 0 8 ys (length ys) 5 False =
    Some (1, xs @ drop (length xs) out, length xs)"
proof -
  obtain p where p: "p < 5" "spell 5 ys = spell 8 xs @ replicate p False" and f: "fits 5 ys"
    using assms(1) by (auto simp: regroups_def)
  have len: "5 * length ys = 8 * length xs + p" using arg_cong [OF p(2), of length] by simp
  have cap: "(0 + 5 * length ys) div 8 \<le> length out" using len p(1) assms(2) by simp
  obtain zs v m where c: "convert_bits_in ([] @ out) (length []) 8 (mask 8) ys 5 0 0 =
      Some ([] @ zs @ drop (length zs) out, length [] + length zs, v, int m)"
    "m < 8" "spell 8 zs @ bits_of m v = bits_of 0 (0 :: u32) @ spell 5 ys"
    using convert_in [OF _ _ _ _ f cap, of "[]" 0] by auto
  have "8 * length zs + m = 8 * length xs + p"
    using arg_cong [OF c(3), of length] p(2) by simp
  then have l: "length zs = length xs" "m = p" using c(2) p(1) by arith+
  have "spell 8 zs @ bits_of m v = spell 8 xs @ replicate p False" using c(3) p(2) by simp
  then have e: "spell 8 zs = spell 8 xs" "bits_of m v = replicate p False"
    using l by simp_all
  have zs: "zs = xs" using spell_inject [OF e(1) l(1)] by simp
  have v: "\<not> bit v k" if "k < m" for k
    using arg_cong [OF e(2), of "\<lambda>b. b ! (m - Suc k)"] that l by (simp add: nth_bits_of)
  have "push_bit (8 - m) v AND mask 8 = 0"
    using v c(2) by (auto intro!: bit_word_eqI simp: bit_and_iff bit_push_bit_iff bit_mask_iff)
  then show ?thesis
    using c(1,2) p(1) l zs convert_bits_eq [of 8] shl32_rest [of m 8 v] by (simp add: mem_read_Some)
qed

section \<open>Properties\<close>

text \<open>C30. The regrouping round trip: converting any bytes to 5-bit symbols with padding and
  the symbols back without it, both with the code's \<open>convert_bits\<close>, reports success twice
  and returns the bytes, given room for the results.\<close>

theorem convert_bits_round_trip:
  assumes "(8 * length xs + 4) div 5 \<le> length out" and "length xs \<le> length out'"
  shows "\<exists>ys. convert_bits out 0 5 xs (length xs) 8 True =
      Some (1, ys @ drop (length ys) out, length ys) \<and>
    length ys = (8 * length xs + 4) div 5 \<and> (\<forall>y\<in>set ys. y < 32) \<and>
    convert_bits out' 0 8 ys (length ys) 5 False = Some (1, xs @ drop (length xs) out', length xs)"
proof -
  obtain ys where "convert_bits out 0 5 xs (length xs) 8 True =
      Some (1, ys @ drop (length ys) out, length ys)" and r: "regroups 5 ys 8 xs"
    using convert_bits_pad [of 5 8 xs xs out] assms(1) by auto
  moreover have "\<forall>y\<in>set ys. y < 32" using r by (simp add: regroups_def fits_def)
  ultimately show ?thesis
    using regroups_length [OF r] convert_bits_back [OF r assms(2)]
    by (intro exI [of _ ys] conjI) simp_all
qed

theorem convert_bits_round_trip_witness:
  "\<exists>ys. convert_bits (zeros 70) 0 5 [0, 255, 1] 3 8 True = Some (1, ys @ drop (length ys) (zeros 70), length ys)
    \<and> length ys = 5 \<and> (\<forall>y\<in>set ys. y < 32) \<and>
    convert_bits (zeros 3) 0 8 ys (length ys) 5 False = Some (1, [0, 255, 1], 3)"
  using convert_bits_round_trip [of "[0, 255, 1]" "zeros 70" "zeros 3"] by (simp add: numeral_3_eq_3)

section \<open>Termination\<close>

text \<open>Groups of at least one bit are written until too few bits are left, if there is room.\<close>

definition room :: "nat \<Rightarrow> nat \<Rightarrow> bytes \<Rightarrow> bool" where
  "room n outlen out \<longleftrightarrow> n = 0 \<or> outlen + n \<le> length out"

lemma convert_bits_out_result:
  assumes "0 < k" and "n < k + 32"
  shows "case convert_bits_out out outlen (int k) maxv val (int n) of
      None \<Rightarrow> \<not> room (n div k) outlen out
    | Some (out', outlen', n') \<Rightarrow> room (n div k) outlen out \<and> length out' = length out \<and>
        outlen' = outlen + n div k \<and> n' = int (n mod k)"
  using assms(2)
proof (induction n arbitrary: out outlen rule: less_induct)
  case (less n)
  show ?case
  proof (cases "k \<le> n")
    case False
    then show ?thesis by (subst convert_bits_out.simps) (simp add: room_def)
  next
    case True
    let ?b = "ucast (drop_bit (n - k) val AND maxv) :: u8"
    have d: "n div k = Suc ((n - k) div k)" "n mod k = (n - k) mod k"
      using True assms(1) by (simp_all add: le_div_geq le_mod_geq)
    have sub: "int n - int k = int (n - k)" and lt: "n - k < 32" "n - k < n" "n - k < k + 32"
      using True assms(1) less.prems by simp_all
    show ?thesis
    proof (cases "outlen < length out")
      case False
      with True d(1) show ?thesis
        by (subst convert_bits_out.simps) (simp add: room_def arr_put_def bind_eq_None_conv)
    next
      case ol: True
      from less.IH [OF lt(2,3), where out = "out[outlen := ?b]" and outlen = "outlen + 1"] True ol lt(1) show ?thesis
        by (subst convert_bits_out.simps)
          (auto simp: d sub room_def arr_put_def simp del: of_nat_diff split: option.splits)
    qed
  qed
qed

lemma convert_bits_out_zero: "0 \<le> n \<Longrightarrow> convert_bits_out out outlen 0 maxv val n = None"
proof (induction "length out - outlen" arbitrary: out outlen)
  case 0
  then show ?case by (subst convert_bits_out.simps) (simp add: arr_put_def bind_eq_None_conv)
next
  case (Suc m)
  have "convert_bits_out (out[outlen := b]) (outlen + 1) 0 maxv val n = None" for b
    using Suc.hyps Suc.prems by simp
  with Suc.hyps(2) Suc.prems show ?case by (subst convert_bits_out.simps) (simp add: arr_put_def bind_eq_None_conv)
qed

lemma convert_bits_in_result:
  assumes "0 < k" and "m < k" and "inbits < 32"
  shows "case convert_bits_in out outlen (int k) maxv xs (int inbits) val (int m) of
      None \<Rightarrow> \<not> room ((m + inbits * length xs) div k) outlen out
    | Some (out', outlen', val', n') \<Rightarrow> room ((m + inbits * length xs) div k) outlen out \<and> length out' = length out \<and>
        outlen' = outlen + (m + inbits * length xs) div k \<and> n' = int ((m + inbits * length xs) mod k)"
  using assms(2)
proof (induction xs arbitrary: out outlen val m)
  case Nil
  then show ?case by (simp add: room_def)
next
  case (Cons x xs)
  let ?v = "push_bit inbits val OR ucast x" and ?n = "m + inbits" and ?r = "inbits * length xs"
  have n: "?n < k + 32" using Cons.prems assms(3) by simp
  have "?n + ?r = (?n mod k + ?r) + ?n div k * k" by simp
  then have split: "(?n + ?r) div k = ?n div k + (?n mod k + ?r) div k" "(?n + ?r) mod k = (?n mod k + ?r) mod k"
    using assms(1) by (simp_all only: div_mult_self1 mod_mult_self1)
  have total: "m + inbits * length (x # xs) = ?n + ?r" by simp
  have sum: "int m + int inbits = int ?n" by simp
  note out = convert_bits_out_result [OF assms(1) n, where out = out and outlen = outlen and maxv = maxv and val = ?v]
  show ?case
  proof (cases "convert_bits_out out outlen (int k) maxv ?v (int ?n)")
    case None
    with out show ?thesis
      unfolding total split(1) by (auto simp: room_def Let_def assms(3) sum simp del: of_nat_add)
  next
    case (Some r)
    obtain out' l n' where r: "r = (out', l, n')" by (cases r)
    with Some out
    have o: "room (?n div k) outlen out" "length out' = length out" "l = outlen + ?n div k" "n' = int (?n mod k)" by auto
    have "?n mod k < k" using assms(1) by simp
    from Cons.IH [OF this, where out = out' and outlen = l and val = ?v] Some r o show ?thesis
      unfolding total split
      by (auto simp: room_def Let_def assms(3) sum simp del: of_nat_add split: option.splits)
  qed
qed

text \<open>Widths for which every shift is defined, and with which the inner loop ends.\<close>

definition proper_widths :: "int \<Rightarrow> int \<Rightarrow> nat \<Rightarrow> bool" where
  "proper_widths outbits inbits inlen \<longleftrightarrow> 0 \<le> outbits \<and> outbits < 32 \<and>
     (inlen = 0 \<or> outbits \<noteq> 0 \<and> 0 \<le> inbits \<and> inbits < 32)"

lemma improper_none:
  assumes "\<not> proper_widths k inbits inlen" and "inlen \<le> length inp"
  shows "convert_bits out outlen k inp inlen inbits pad = None"
proof -
  have rd: "mem_read inp 0 inlen = Some (take inlen inp)" using assms(2) by (simp add: mem_read_def)
  consider "shl32 1 k = None" | x xs where "take inlen inp = x # xs" "k = 0 \<or> \<not> (0 \<le> inbits \<and> inbits < 32)"
    using assms by (cases inp; cases inlen) (auto simp: proper_widths_def shl32_def)
  then show ?thesis
  proof cases
    case 1
    then show ?thesis by (simp add: convert_bits_def)
  next
    case 2
    have "convert_bits_in out outlen k maxv (x # xs) inbits 0 0 = None" for maxv
      using 2(2) convert_bits_out_zero by (auto simp: shl32_def Let_def)
    then show ?thesis using rd 2(1)
      by (simp add: convert_bits_def Let_def bind_eq_None_conv del: convert_bits_in.simps)
  qed
qed

text \<open>C31. Termination of \<open>convert_bits\<close>, for all widths of C's type \<open>int\<close>: it returns exactly when the
  widths are such that its shifts of 32-bit values are defined (at most 31 bits, none negative)
  and, unless there is nothing to convert, the groups it writes have at least one bit, and the
  destination has room for them, the last group padded if asked for; it then has written that
  many symbols.\<close>

theorem convert_bits_terminates:
  fixes k inbits :: int and inlen outlen :: nat
  assumes "inlen \<le> length inp"
    and n: "n = nat (inbits * int inlen div k) + (if pad \<and> inbits * int inlen mod k \<noteq> 0 then 1 else 0)"
  shows "case convert_bits out outlen k inp inlen inbits pad of
      None \<Rightarrow> \<not> proper_widths k inbits inlen \<or> n \<noteq> 0 \<and> length out < outlen + n
    | Some (ok, out', outlen') \<Rightarrow> proper_widths k inbits inlen \<and> (n = 0 \<or> outlen + n \<le> length out) \<and>
        length out' = length out \<and> outlen' = outlen + n"
proof (cases "proper_widths k inbits inlen")
  case False
  then show ?thesis using improper_none [OF _ assms(1)] by simp
next
  case w: True
  have rd: "mem_read inp 0 inlen = Some (take inlen inp)" using assms(1) by (simp add: mem_read_def)
  obtain k' where k': "k = int k'" "k' < 32" using w by (auto simp: proper_widths_def elim: nonneg_int_cases)
  show ?thesis
  proof (cases "inlen = 0")
    case True
    then have "mem_read inp 0 0 = Some []" using rd by simp
    with True show ?thesis
      using w k' convert_bits_eq [OF k'(2), of out outlen inp inlen inbits pad]
      by (auto simp: n shl32_def)
  next
    case False
    then obtain b where b: "inbits = int b" "b < 32" and k: "0 < k'"
      using w k' by (auto simp: proper_widths_def elim: nonneg_int_cases)
    have n': "n = b * inlen div k' + (if pad \<and> b * inlen mod k' \<noteq> 0 then 1 else 0)"
      by (simp add: n b(1) k'(1) flip: of_nat_mult of_nat_mod zdiv_int)
    have len: "length (take inlen inp) = inlen" using assms(1) by simp
    note r = convert_bits_in_result [OF k k b(2), where out = out and outlen = outlen and maxv = "mask k'" and
      xs = "take inlen inp" and val = 0, unfolded len, unfolded of_nat_0]
    show ?thesis
    proof (cases "convert_bits_in out outlen (int k') (mask k') (take inlen inp) (int b) 0 0")
      case None
      with r k' show ?thesis by (auto simp: convert_bits_eq rd n' b(1) room_def)
    next
      case (Some c)
      obtain o' l v m where c: "c = (o', l, v, m)" by (cases c)
      define m' where "m' = b * inlen mod k'"
      have m: "m = int m'" "m' < k'" using Some r k c by (auto simp: m'_def)
      show ?thesis
        using Some r k' c m(2) shl32_rest [OF m(2) k'(2)] w [unfolded k'(1) b(1)]
        by (auto simp: convert_bits_eq rd n' b(1) m(1) room_def arr_put_def m'_def [symmetric] split: if_splits)
    qed
  qed
qed

theorem convert_bits_terminates_witness:
  "convert_bits (zeros 70) 0 0 [1] 1 8 True = None \<and> convert_bits (zeros 70) 0 32 [1] 1 8 True = None \<and>
   (\<exists>ok out. convert_bits (zeros 5) 0 5 [0, 255, 1] 3 8 True = Some (ok, out, 5) \<and> length out = 5)"
  using convert_bits_terminates [of 1 "[1]" 1 8 0 True "zeros 70" 0]
    convert_bits_terminates [of 1 "[1]" _ 8 32 True "zeros 70" 0, OF _ refl]
    convert_bits_terminates [of 3 "[0, 255, 1]" 5 8 5 True "zeros 5" 0]
  by (auto simp: proper_widths_def split: option.splits)

end
