(* ===== verification/Cashaddr_Checksum.thy ===== *)
theory Cashaddr_Checksum
  imports Cashaddr
begin

text \<open>
  The checksum of \<open>src/import/cashaddr.c\<close> as a linear code: what its step function
  satisfies is the locale \<open>linear_step\<close>; in it, every encoded address verifies and an
  error burst of up to eight symbols is detected.
\<close>

section \<open>Linear checksums\<close>

definition poly :: "(u64 \<Rightarrow> u64) \<Rightarrow> u64 \<Rightarrow> bytes \<Rightarrow> u64" where
  "poly step c ds = foldl (\<lambda>c d. step c XOR ucast d) c ds"

definition symbols :: "bytes \<Rightarrow> bool" where
  "symbols ds \<longleftrightarrow> (\<forall>d\<in>set ds. d < 32)"

definition checksum_of :: "u64 \<Rightarrow> bytes" where
  "checksum_of m = map (\<lambda>i. ucast (drop_bit (5 * (7 - i)) m AND 0x1f)) [0..<8]"

lemma poly_simps [simp]:
  "poly step c [] = c" "poly step c (d # ds) = poly step (step c XOR ucast d) ds"
  by (simp_all add: poly_def)

lemma poly_append [simp]: "poly step c (xs @ ys) = poly step (poly step c xs) ys"
  by (simp add: poly_def)

lemma poly_zeros: "poly step c (zeros n) = (step ^^ n) c"
  by (induction n arbitrary: c) (simp_all add: zeros_def funpow_swap1)

lemma symbols_simps [simp]:
  "symbols []" "symbols (d # ds) \<longleftrightarrow> d < 32 \<and> symbols ds"
  "symbols (xs @ ys) \<longleftrightarrow> symbols xs \<and> symbols ys"
  by (auto simp: symbols_def)

lemma symbol_bits: "(d :: u8) < 32 \<longleftrightarrow> (\<forall>k\<ge>5. \<not> bit d k)"
  using word_less_bits [of 5 d] by simp

lemma symbol_xor: "(a :: u8) < 32 \<Longrightarrow> b < 32 \<Longrightarrow> a XOR b < 32"
  by (simp add: symbol_bits bit_xor_iff)

lemma word_xor_eq_0: "(a :: u8) XOR b = 0 \<longleftrightarrow> a = b"
  by (metis xor.assoc xor.left_neutral xor_self_eq)

locale linear_step =
  fixes step :: "u64 \<Rightarrow> u64"
  assumes step_xor: "step (a XOR b) = step a XOR step b"
    and step_small: "a < 2 ^ 35 \<Longrightarrow> step a = push_bit 5 a"
    and step_bound: "step a < 2 ^ 40"
    and step_kernel: "a < 2 ^ 40 \<Longrightarrow> step a = 0 \<Longrightarrow> a = 0"
begin

lemma step_0: "step 0 = 0"
  by (simp add: step_small)

lemma poly_xor:
  "length xs = length ys \<Longrightarrow>
   poly step (a XOR b) (map2 (XOR) xs ys) = poly step a xs XOR poly step b ys"
proof (induction xs ys arbitrary: a b rule: list_induct2)
  case (Cons x xs y ys)
  have "ucast (x XOR y) = (ucast x XOR ucast y :: u64)"
    by (rule bit_word_eqI) (simp add: bit_ucast_iff bit_xor_iff)
  then have e: "step (a XOR b) XOR ucast (x XOR y) = (step a XOR ucast x) XOR (step b XOR ucast y)"
    by (simp only: step_xor xor.assoc xor.left_commute)
  show ?case unfolding list.map zip_Cons_Cons prod.case poly_simps e by (rule Cons.IH)
qed simp

text \<open>Up to eight symbols fit the register: they are read back as they were put in.\<close>

lemma poly_bits:
  assumes "symbols ds" and "length ds \<le> 8"
  shows "bit (poly step 0 ds) k \<longleftrightarrow>
    k < 5 * length ds \<and> bit (ds ! (length ds - 1 - k div 5)) (k mod 5)"
  using assms
proof (induction ds arbitrary: k rule: rev_induct)
  case (snoc d ds)
  have IH: "bit (poly step 0 ds) k \<longleftrightarrow>
      k < 5 * length ds \<and> bit (ds ! (length ds - 1 - k div 5)) (k mod 5)" for k
    using snoc by simp
  have "poly step 0 ds < 2 ^ 35"
    using snoc.prems(2) by (subst word_less_bits) (auto simp: IH)
  then have e: "poly step 0 (ds @ [d]) = push_bit 5 (poly step 0 ds) XOR ucast d"
    by (simp add: step_small)
  have d: "\<not> bit d k" if "5 \<le> k" for k using snoc.prems(1) that by (simp add: symbol_bits)
  show ?case
  proof (cases "k < 5")
    case True
    then show ?thesis unfolding e by (simp add: bit_xor_iff bit_push_bit_iff bit_ucast_iff nth_append)
  next
    case False
    then obtain j where j: "k = j + 5" by (metis add.commute le_Suc_ex not_less)
    have i: "length ds - Suc (j div 5) < length ds" if "j < 5 * length ds"
      using that by (cases ds) auto
    have "j < 5 * length ds \<Longrightarrow> j + 5 < 64" using snoc.prems(2) by simp
    moreover have "(j + 5) div 5 = Suc (j div 5)" by simp
    ultimately show ?thesis unfolding e j using i snoc.prems(2)
      by (auto simp: bit_xor_iff bit_push_bit_iff bit_ucast_iff nth_append IH d Suc_diff_Suc)
  qed
qed simp

lemma poly_checksum_of:
  assumes "m < 2 ^ 40"
  shows "symbols (checksum_of m)" and "poly step 0 (checksum_of m) = m"
proof -
  have nth: "checksum_of m ! i = ucast (drop_bit (5 * (7 - i)) m AND 0x1f)" if "i < 8" for i
    using that by (simp add: checksum_of_def)
  have f: "(0x1f :: u64) = mask 5" by (simp add: mask_eq_exp_minus_1)
  show s: "symbols (checksum_of m)"
    by (auto simp: symbols_def checksum_of_def symbol_bits bit_ucast_iff bit_and_iff f bit_mask_iff)
  have "bit m k \<Longrightarrow> k < 40 \<and> 7 - (7 - k div 5) = k div 5" for k
    using assms word_less_bits [of 40 m] by (cases "k < 40") auto
  moreover have "5 * (k div 5) + k mod 5 = k" for k :: nat by simp
  moreover have "length (checksum_of m) = 8" by (simp add: checksum_of_def)
  ultimately show "poly step 0 (checksum_of m) = m"
    using s by (intro bit_word_eqI)
      (auto simp: poly_bits nth bit_ucast_iff bit_and_iff f bit_mask_iff bit_drop_bit_eq)
qed

text \<open>The checksum completes the symbols to a code word.\<close>

lemma checksum_bound: "poly step c (zeros 8) XOR 1 < 2 ^ 40"
proof -
  have "poly step c (zeros 8) < 2 ^ 40"
    using step_bound by (simp add: poly_zeros numeral_eq_Suc)
  then have "\<not> bit (poly step c (zeros 8)) k" if "40 \<le> k" for k
    using that by (subst (asm) word_less_bits) auto
  then show ?thesis by (subst word_less_bits) (auto simp: bit_xor_iff bit_1_iff)
qed

lemma checksum_completes:
  assumes "m = poly step c (zeros 8) XOR 1"
  shows "poly step c (checksum_of m) = 1"
proof -
  have m: "m < 2 ^ 40" unfolding assms by (rule checksum_bound)
  have z: "map2 (XOR) (zeros 8) (checksum_of m) = checksum_of m"
    by (rule nth_equalityI) (simp_all add: checksum_of_def zeros_def)
  have "poly step (c XOR 0) (map2 (XOR) (zeros 8) (checksum_of m)) =
      poly step c (zeros 8) XOR poly step 0 (checksum_of m)"
    by (rule poly_xor) (simp add: checksum_of_def)
  then show ?thesis unfolding z poly_checksum_of(2) [OF m] by (simp add: assms)
qed

lemma poly_kernel: "a < 2 ^ 40 \<Longrightarrow> (step ^^ n) a = 0 \<Longrightarrow> a = 0"
proof (induction n arbitrary: a)
  case (Suc n)
  then have "step a = 0" using step_bound by (simp add: funpow_swap1 [symmetric])
  with Suc.prems(1) show ?case by (rule step_kernel)
qed simp

lemma burst_changes:
  assumes "symbols u" and "symbols v" and "length u = length v" and "length u \<le> 8" and "u \<noteq> v"
  shows "poly step c (u @ s) \<noteq> poly step c (v @ s)"
proof
  assume eq: "poly step c (u @ s) = poly step c (v @ s)"
  define e where "e = map2 (XOR) u v"
  have len: "length e = length u" using assms by (simp add: e_def)
  have sym: "symbols e" using assms(1,2)
    by (auto simp: e_def symbols_def set_zip symbol_xor)
  have "poly step (c XOR c) (map2 (XOR) (u @ s) (v @ s)) = poly step c (u @ s) XOR poly step c (v @ s)"
    by (rule poly_xor) (simp add: assms)
  moreover have "map2 (XOR) (u @ s) (v @ s) = e @ zeros (length s)"
    using assms(3) by (auto intro!: nth_equalityI simp: e_def nth_append zeros_def)
  ultimately have "(step ^^ length s) (poly step 0 e) = 0" using eq by (simp add: poly_zeros)
  moreover have "poly step 0 e < 2 ^ 40"
    using assms(4) by (subst word_less_bits) (auto simp: poly_bits [OF sym] len)
  ultimately have z: "poly step 0 e = 0" by (rule poly_kernel [rotated])
  obtain i where i: "i < length u" "u ! i \<noteq> v ! i"
    using assms(3,5) by (metis nth_equalityI)
  then have "e ! i \<noteq> 0" using assms(3) by (simp add: e_def word_xor_eq_0)
  then obtain k where k: "bit (e ! i) k" by (metis bit_eqI bit_0_eq bot_apply bot_bool_def)
  have "e ! i < 32" using sym i len by (simp add: symbols_def)
  then have "k < 5" using k by (simp only: symbol_bits) (meson not_le)
  have "bit (poly step 0 e) (5 * (length e - 1 - i) + k)"
    using k i len assms(4) \<open>k < 5\<close> by (auto simp: poly_bits [OF sym])
  then show False by (simp add: z)
qed

end


section \<open>The step function of the code\<close>

lemma mask_bit: "- ucast (drop_bit n (b :: u8) AND 1) AND (g :: u64) = (if bit b n then g else 0)"
proof -
  have "drop_bit n b AND 1 = of_bool (bit b n)"
    by (rule bit_word_eqI) (auto simp: bit_and_iff bit_1_iff bit_drop_bit_eq intro: gr0I)
  then show ?thesis by simp
qed

lemma bit_top: "n < 8 \<Longrightarrow> bit (ucast (drop_bit 35 (a :: u64)) :: u8) n \<longleftrightarrow> bit a (35 + n)"
  by (simp add: bit_ucast_iff bit_drop_bit_eq)

lemma polymod_step_eq:
  "cashaddr_polymod_step a =
     push_bit 5 (take_bit 35 a) XOR (if bit a 35 then 0x98f2bc8e61 else 0) XOR
     (if bit a 36 then 0x79b76d99e2 else 0) XOR (if bit a 37 then 0xf33e5fb3c4 else 0) XOR
     (if bit a 38 then 0xae2eabe2a8 else 0) XOR (if bit a 39 then 0x1e4f43e470 else 0)"
proof -
  have m: "a AND 0x07ffffffff = take_bit 35 a"
    by (simp add: take_bit_eq_mask mask_eq_exp_minus_1)
  have t: "bit (ucast (drop_bit 35 a) :: u8) 0 = bit a 35" "bit (ucast (drop_bit 35 a) :: u8) 1 = bit a 36"
    "bit (ucast (drop_bit 35 a) :: u8) 2 = bit a 37" "bit (ucast (drop_bit 35 a) :: u8) 3 = bit a 38"
    "bit (ucast (drop_bit 35 a) :: u8) 4 = bit a 39"
    by (simp_all add: bit_top [of 0, simplified] bit_top [of 1, simplified] bit_top)
  show ?thesis unfolding cashaddr_polymod_step_def Let_def mask_bit m t by (rule refl)
qed

lemma if_bit_xor:
  "(if bit (a XOR b :: u64) n then g else (0 :: u64)) =
     (if bit a n then g else 0) XOR (if bit b n then g else 0)"
  by (simp add: bit_xor_iff)

lemma bit_if0: "bit (if c then g else (0 :: u64)) k \<longleftrightarrow> c \<and> bit g k"
  by simp

lemma polymod_step_xor:
  "cashaddr_polymod_step (a XOR b) = cashaddr_polymod_step a XOR cashaddr_polymod_step b"
proof -
  have "push_bit 5 (take_bit 35 (a XOR b)) = push_bit 5 (take_bit 35 a) XOR push_bit 5 (take_bit 35 b)"
    by (simp add: push_bit_xor take_bit_xor)
  then show ?thesis
    unfolding polymod_step_eq if_bit_xor by (simp only: xor.assoc xor.commute xor.left_commute)
qed

lemma polymod_step_small:
  assumes "a < 2 ^ 35"
  shows "cashaddr_polymod_step a = push_bit 5 a"
proof -
  have "\<forall>k\<ge>35. \<not> bit a k" using assms word_less_bits [of 35 a] by simp
  moreover have "take_bit 35 a = a" using assms less_mask_eq [of a 35] by (simp add: take_bit_eq_mask)
  ultimately show ?thesis by (simp add: polymod_step_eq)
qed

lemma polymod_step_bound: "cashaddr_polymod_step a < 2 ^ 40"
proof -
  have g: "g < 2 ^ 40 \<Longrightarrow> 40 \<le> k \<Longrightarrow> \<not> bit g k" for g :: u64 and k
    using word_less_bits [of 40 g] by simp
  have "\<not> bit (cashaddr_polymod_step a) k" if "40 \<le> k" for k
    using that g [of "0x98f2bc8e61" k] g [of "0x79b76d99e2" k] g [of "0xf33e5fb3c4" k]
      g [of "0xae2eabe2a8" k] g [of "0x1e4f43e470" k]
    by (simp only: polymod_step_eq bit_xor_iff bit_if0 bit_push_bit_iff bit_take_bit_iff) auto
  then show ?thesis by (subst word_less_bits) auto
qed

text \<open>The lowest five bits of a step are the five bits it shifts out.\<close>

lemma polymod_step_low:
  "bit (cashaddr_polymod_step a) 0 = bit a 35" "bit (cashaddr_polymod_step a) 1 = bit a 36"
  "bit (cashaddr_polymod_step a) 2 = bit a 37" "bit (cashaddr_polymod_step a) 3 = bit a 38"
  "bit (cashaddr_polymod_step a) 4 = bit a 39"
  unfolding polymod_step_eq bit_xor_iff bit_if0 bit_push_bit_iff by simp_all

lemma polymod_step_kernel:
  assumes "a < 2 ^ 40" and z: "cashaddr_polymod_step a = 0"
  shows "a = 0"
proof -
  have hi: "\<not> bit a 35" "\<not> bit a 36" "\<not> bit a 37" "\<not> bit a 38" "\<not> bit a 39"
    unfolding polymod_step_low [symmetric] by (simp_all add: z)
  then have p: "push_bit 5 (take_bit 35 a) = 0" using z by (simp add: polymod_step_eq)
  have "\<not> bit a k" for k
  proof -
    consider "k < 35" | "k = 35" | "k = 36" | "k = 37" | "k = 38" | "k = 39" | "40 \<le> k" by linarith
    then show ?thesis
    proof cases
      case 1
      have "\<not> bit (push_bit 5 (take_bit 35 a)) (k + 5)" by (simp add: p)
      then show ?thesis using 1 by (simp add: bit_push_bit_iff bit_take_bit_iff)
    next
      case 7
      then show ?thesis using assms(1) word_less_bits [of 40 a] by simp
    qed (use hi in simp_all)
  qed
  then show "a = 0" by (simp add: bit_eq_iff)
qed

interpretation cashaddr: linear_step cashaddr_polymod_step
  by unfold_locales
    (rule polymod_step_xor, erule polymod_step_small, rule polymod_step_bound,
     erule polymod_step_kernel)

section \<open>The checksum function\<close>

definition kaspa_state :: u64 where
  "kaspa_state = poly cashaddr_polymod_step 1 (map (\<lambda>p. p AND 0x1f) (c_bytes ''kaspa'') @ [0])"

text \<open>What a receiver checks: the polynomial over prefix, separator and all symbols is 1.\<close>

definition valid_codeword :: "bytes \<Rightarrow> bool" where
  "valid_codeword ds \<longleftrightarrow> poly cashaddr_polymod_step kaspa_state ds = 1"

lemma PolyMod_prefix_poly:
  "0 \<notin> set ps \<Longrightarrow> PolyMod_prefix (ps @ 0 # r) c =
     Some (poly cashaddr_polymod_step c (map (\<lambda>p. p AND 0x1f) ps))"
  by (induction ps arbitrary: c) auto

lemma PolyMod_kaspa:
  assumes "n \<le> length payload"
  shows "PolyMod (c_bytes ''kaspa'' @ [0]) payload n =
    Some (poly cashaddr_polymod_step kaspa_state (take n payload @ zeros 8) XOR 1)"
proof -
  have "0 \<notin> set (c_bytes ''kaspa'')" by (simp add: c_bytes_def)
  then have "PolyMod_prefix (c_bytes ''kaspa'' @ [0]) 1 =
      Some (poly cashaddr_polymod_step 1 (map (\<lambda>p. p AND 0x1f) (c_bytes ''kaspa'')))"
    by (rule PolyMod_prefix_poly)
  then show ?thesis using assms
    by (simp add: PolyMod_def mem_read_Some kaspa_state_def poly_zeros Let_def
        flip: poly_def del: funpow.simps)
qed

lemma create_checksum_eq:
  assumes "n \<le> length payload" and "8 \<le> length checksum"
  shows "\<exists>c. create_checksum payload n checksum = Some (c @ drop 8 checksum) \<and> length c = 8 \<and>
    symbols c \<and> valid_codeword (take n payload @ c)"
proof -
  define m where "m = poly cashaddr_polymod_step kaspa_state (take n payload @ zeros 8) XOR 1"
  define s where "s = poly cashaddr_polymod_step kaspa_state (take n payload)"
  have m: "m = poly cashaddr_polymod_step s (zeros 8) XOR 1" by (simp add: m_def s_def)
  have len: "length (checksum_of m) = 8" by (simp add: checksum_of_def)
  have "PolyMod (c_bytes ''kaspa'' @ [0]) payload n = Some m"
    using assms(1) by (simp only: PolyMod_kaspa m_def)
  then have "create_checksum payload n checksum = Some (checksum_of m @ drop 8 checksum)"
    using assms(2) len
    by (simp add: create_checksum_def mem_write_Some flip: checksum_of_def)
  moreover have "valid_codeword (take n payload @ checksum_of m)"
    using cashaddr.checksum_completes [OF m] by (simp add: valid_codeword_def s_def)
  moreover have "symbols (checksum_of m)"
    unfolding m by (rule cashaddr.poly_checksum_of(1) [OF cashaddr.checksum_bound])
  ultimately show ?thesis using len by blast
qed

section \<open>Properties\<close>

text \<open>C28. The checksum completes a payload to a code word: for every payload of 5-bit
  symbols (or of any bytes) and every length within its array, the eight symbols that
  \<open>create_checksum\<close> writes make prefix, separator, payload and checksum verify.\<close>

theorem checksum_verifies:
  assumes "n \<le> length payload" and "8 \<le> length checksum"
  shows "\<exists>c. create_checksum payload n checksum = Some (c @ drop 8 checksum) \<and> length c = 8 \<and>
    symbols c \<and> valid_codeword (take n payload @ c)"
  using assms by (rule create_checksum_eq)

theorem checksum_verifies_witness:
  "\<exists>c. create_checksum [0, 16, 31, 7] 4 (zeros 8) = Some (c @ drop 8 (zeros 8)) \<and> length c = 8 \<and>
    symbols c \<and> valid_codeword (take 4 [0, 16, 31, 7] @ c)"
  by (rule checksum_verifies) simp_all

text \<open>C29. Error detection: an address with up to eight consecutive symbols replaced, in
  the payload or in the checksum, does not verify any more.\<close>

theorem checksum_detects_burst:
  assumes "valid_codeword (p @ u @ s)" and "symbols u" and "symbols v"
    and "length u = length v" and "length u \<le> 8" and "u \<noteq> v"
  shows "\<not> valid_codeword (p @ v @ s)"
  using assms(1) cashaddr.burst_changes [OF assms(2-6), of "poly cashaddr_polymod_step kaspa_state p" s]
  unfolding valid_codeword_def poly_append by metis

theorem checksum_detects_burst_witness:
  "\<exists>c. valid_codeword ([0, 16, 31, 7] @ c) \<and> \<not> valid_codeword ([0] @ [17, 30] @ ([7] @ c))"
proof -
  obtain c where c: "valid_codeword ([0, 16, 31, 7] @ c)"
    using create_checksum_eq [of 4 "[0, 16, 31, 7]" "zeros 8"] by auto
  have "\<not> valid_codeword ([0] @ [17, 30] @ ([7] @ c))"
    by (rule checksum_detects_burst [of "[0]" "[16, 31]"]) (use c in simp_all)
  with c show ?thesis by blast
qed

end
