(* ===== verification/Address.thy ===== *)
theory Address
  imports Cashaddr_Bits Cashaddr_Checksum Tx_Types
begin

text \<open>
  Addresses: \<open>cashaddr_encode\<close> as a whole, the compression of public keys and
  \<open>address_from_pubkey\<close> of \<open>src/address.c\<close>, and the helpers of
  \<open>src/transaction/utils.c\<close>. The main result is that the address shown for an output
  determines its script.
\<close>

section \<open>The encoder as a whole\<close>

definition chr :: "u8 \<Rightarrow> u8" where
  "chr v = charset ! unat v"

lemma length_charset: "length charset = 33"
  by (simp add: charset_def)

lemma distinct_charset: "distinct charset"
  by (simp add: charset_def c_bytes_def)

lemma symbol_unat: "(v :: u8) < 32 \<longleftrightarrow> unat v < 32"
  by (simp add: word_less_nat_alt)

lemma chr_inject: "v < 32 \<Longrightarrow> w < 32 \<Longrightarrow> chr v = chr w \<longleftrightarrow> v = w"
  using nth_eq_iff_index_eq [OF distinct_charset, of "unat v" "unat w"]
  by (auto simp: chr_def length_charset symbol_unat word_unat_eq_iff)

lemma map_chr_inject:
  "symbols xs \<Longrightarrow> symbols ys \<Longrightarrow> map chr xs = map chr ys \<longleftrightarrow> xs = ys"
proof (induction xs arbitrary: ys)
  case Nil
  then show ?case by auto
next
  case (Cons x xs)
  then show ?case by (cases ys) (auto simp: chr_inject)
qed

lemma symbol_high: "(v :: u8) < 32 \<Longrightarrow> drop_bit 5 v = 0"
  by (rule bit_word_eqI) (simp add: symbol_bits bit_drop_bit_eq)

lemma emit_all:
  assumes "first < 32" and "symbols vs" and "pos + length vs \<le> length addr"
    and "n + length vs \<le> mx"
  shows "for_each (emit_symbol st mx first) vs (addr, pos, n) =
    Some (True, take pos addr @ map chr vs @ drop (pos + length vs) addr, pos + length vs, n + length vs)"
  using assms(2-4)
proof (induction vs arbitrary: addr pos n)
  case (Cons v vs)
  have e: "emit_symbol st mx first v (addr, pos, n) = Some (True, addr[pos := chr v], pos + 1, n + 1)"
    using Cons.prems symbol_high [OF assms(1)]
    by (simp add: emit_symbol_def arr_get_Some length_charset arr_put_Some chr_def symbol_unat)
  have "pos < length addr" using Cons.prems by simp
  then have "take (pos + 1) (addr[pos := chr v]) = take pos addr @ [chr v]"
    by (simp add: take_Suc_conv_app_nth)
  then show ?case using Cons.IH [of "pos + 1" "addr[pos := chr v]" "n + 1"] Cons.prems e by simp
qed simp

lemma emit_overflow:
  assumes "first < 32" and "symbols vs" and "pos + length vs \<le> length addr"
    and "mx < n + length vs" and "n \<le> mx" and "st < length addr"
  shows "\<exists>addr' pos' n'. for_each (emit_symbol st mx first) vs (addr, pos, n) =
    Some (False, addr', pos', n') \<and> length addr' = length addr \<and> addr' ! st = 0"
  using assms(2-6)
proof (induction vs arbitrary: addr pos n)
  case (Cons v vs)
  show ?case
  proof (cases "n = mx")
    case True
    then show ?thesis using Cons.prems symbol_high [OF assms(1)]
      by (simp add: emit_symbol_def arr_put_Some)
  next
    case False
    then have "emit_symbol st mx first v (addr, pos, n) = Some (True, addr[pos := chr v], pos + 1, n + 1)"
      using Cons.prems symbol_high [OF assms(1)]
      by (simp add: emit_symbol_def arr_get_Some length_charset arr_put_Some chr_def symbol_unat)
    then show ?thesis
      using Cons.IH [of "pos + 1" "addr[pos := chr v]" "n + 1"] Cons.prems False by simp
  qed
qed simp

definition version_byte :: "nat \<Rightarrow> u8" where
  "version_byte ver = (if ver = 0 then 0 else if ver = 1 then 1 else 8)"

definition encodes :: "nat \<Rightarrow> bytes \<Rightarrow> bytes \<Rightarrow> bool" where
  "encodes ver hash enc \<longleftrightarrow> (\<exists>ys c. enc = map chr (ys @ c) \<and> symbols ys \<and> symbols c \<and>
     length c = 8 \<and> regroups 5 ys 8 (version_byte ver # hash) \<and> valid_codeword (ys @ c))"

lemma symbols_fits: "fits 5 ys \<longleftrightarrow> symbols ys"
  by (simp add: fits_def symbols_def)

lemma payload_checksum:
  assumes "length hash = n" and "n \<le> 39"
  shows "\<exists>tmp ys c. arr_put (zeros 40) 0 (version_byte ver) \<bind> (\<lambda>t. mem_write t 1 hash) = Some tmp \<and>
    convert_bits (zeros 70) 0 5 tmp (n + 1) 8 True =
      Some (1, ys @ drop (length ys) (zeros 70), length ys) \<and>
    length ys = (8 * (n + 1) + 4) div 5 \<and>
    create_checksum (ys @ drop (length ys) (zeros 70)) (length ys) (zeros 8) = Some c \<and>
    mem_read (ys @ drop (length ys) (zeros 70)) 0 (length ys) = Some ys \<and>
    symbols ys \<and> symbols c \<and> length c = 8 \<and> regroups 5 ys 8 (version_byte ver # hash) \<and>
    valid_codeword (ys @ c)"
proof -
  let ?xs = "version_byte ver # hash"
  define tmp where "tmp = ?xs @ zeros (39 - n)"
  have "arr_put (zeros 40) 0 (version_byte ver) = Some (version_byte ver # zeros 39)"
    by (simp add: arr_put_def zeros_def numeral_eq_Suc)
  then have t: "arr_put (zeros 40) 0 (version_byte ver) \<bind> (\<lambda>t. mem_write t 1 hash) = Some tmp"
    using assms by (simp add: mem_write_Some tmp_def)
  have le: "(8 * length ?xs + (5 - 1)) div 5 \<le> length (zeros 70)" using assms by simp
  obtain ys where cv: "convert_bits (zeros 70) 0 5 tmp (length ?xs) 8 True =
      Some (1, ys @ drop (length ys) (zeros 70), length ys)" and rg: "regroups 5 ys 8 ?xs"
    using convert_bits_pad [OF _ _ _ _ _ _ le, of tmp] by (auto simp: tmp_def)
  have len: "length ys = (8 * (n + 1) + 4) div 5" using regroups_length [OF rg] assms(1) by simp
  then have y70: "length ys \<le> 70" using assms(2) by simp
  obtain c where "create_checksum (ys @ drop (length ys) (zeros 70)) (length ys) (zeros 8) = Some c"
    "length c = 8" "symbols c" "valid_codeword (ys @ c)"
    using create_checksum_eq [of "length ys" "ys @ drop (length ys) (zeros 70)" "zeros 8"] y70 by auto
  moreover have "symbols ys" using rg by (simp add: regroups_def symbols_fits)
  moreover have "mem_read (ys @ drop (length ys) (zeros 70)) 0 (length ys) = Some ys"
    using y70 by (simp add: mem_read_Some)
  ultimately show ?thesis using t cv rg len assms(1) by (intro exI [of _ tmp] exI [of _ ys] exI [of _ c]) simp
qed

lemma cashaddr_encode_eq:
  assumes "length hash = n" and "n \<le> 39" and "ver \<in> {0, 1, 8}" and "st < length addr"
  shows "\<exists>ys c. symbols ys \<and> symbols c \<and> length c = 8 \<and> length ys = (8 * (n + 1) + 4) div 5 \<and>
    regroups 5 ys 8 (version_byte ver # hash) \<and> valid_codeword (ys @ c) \<and>
    cashaddr_encode (hash @ r) n addr st mx ver =
      do { (ok, addr, pos, addr_length) \<leftarrow>
             for_each (emit_symbol st mx (ys ! 0)) ys (addr[st := 0], st, 0);
           if \<not> ok then Some (0, addr) else do {
             (ok, addr, pos, addr_length) \<leftarrow>
               for_each (emit_symbol st mx (c ! 0)) c (addr, pos, addr_length);
             if \<not> ok then Some (0, addr) else do {
               addr \<leftarrow> arr_put addr pos 0;
               Some (int addr_length, addr)
             }
           }
         }"
proof -
  obtain tmp ys c where t: "arr_put (zeros 40) 0 (version_byte ver) \<bind> (\<lambda>t. mem_write t 1 hash) = Some tmp"
    "convert_bits (zeros 70) 0 5 tmp (n + 1) 8 True =
      Some (1, ys @ drop (length ys) (zeros 70), length ys)"
    "length ys = (8 * (n + 1) + 4) div 5"
    "create_checksum (ys @ drop (length ys) (zeros 70)) (length ys) (zeros 8) = Some c"
    "mem_read (ys @ drop (length ys) (zeros 70)) 0 (length ys) = Some ys"
    and q: "symbols ys" "symbols c" "length c = 8" "regroups 5 ys 8 (version_byte ver # hash)"
      "valid_codeword (ys @ c)"
    using payload_checksum [OF assms(1,2), of ver] by blast
  obtain t0 where t0: "arr_put (zeros 40) 0 (version_byte ver) = Some t0" "mem_write t0 1 hash = Some tmp"
    using t(1) by (auto simp: bind_eq_Some_conv)
  have vb: "(if ver = CASHADDR_P2PKH then 0 else if ver = CASHADDR_P2PKH_ECDSA then 1 else 8) =
      version_byte ver" by (simp add: version_byte_def cashaddr_consts)
  have ok: "ver \<notin> {CASHADDR_P2PKH, CASHADDR_P2PKH_ECDSA, CASHADDR_P2SH} \<longleftrightarrow> False"
    using assms(3) by (auto simp: cashaddr_consts)
  have hd: "(ys @ drop (length ys) (zeros 70)) ! 0 = ys ! 0"
  proof -
    have "0 < length ys" using t(3) by arith
    then show ?thesis by (simp add: nth_append)
  qed
  have rd: "mem_read (hash @ r) 0 n = Some hash" using assms(1) by (simp add: mem_read_Some)
  have "cashaddr_encode (hash @ r) n addr st mx ver =
      do { (ok, addr, pos, addr_length) \<leftarrow>
             for_each (emit_symbol st mx (ys ! 0)) ys (addr[st := 0], st, 0);
           if \<not> ok then Some (0, addr) else do {
             (ok, addr, pos, addr_length) \<leftarrow>
               for_each (emit_symbol st mx (c ! 0)) c (addr, pos, addr_length);
             if \<not> ok then Some (0, addr) else do {
               addr \<leftarrow> arr_put addr pos 0;
               Some (int addr_length, addr)
             }
           }
         }"
    unfolding cashaddr_encode_def Let_def vb ok if_False arr_put_Some [OF assms(4)] bind.bind_lunit
      t0 rd t(2,4,5) prod.case hd by (rule refl)
  then show ?thesis using q t(3) by blast
qed

lemma cashaddr_encode_ok:
  assumes "length hash = n" and "n \<le> 39" and "ver \<in> {0, 1, 8}"
    and "L = (8 * (n + 1) + 4) div 5 + 8" and "st + L < length addr" and "L \<le> mx"
  shows "\<exists>enc. encodes ver hash enc \<and> length enc = L \<and>
    cashaddr_encode (hash @ r) n addr st mx ver =
      Some (int L, take st addr @ enc @ 0 # drop (st + L + 1) addr)"
proof -
  have st: "st < length addr" using assms(5) by simp
  obtain ys c where q: "symbols ys" "symbols c" "length c = 8" "length ys + 8 = L"
      "regroups 5 ys 8 (version_byte ver # hash)" "valid_codeword (ys @ c)"
    and e: "cashaddr_encode (hash @ r) n addr st mx ver =
      do { (ok, addr, pos, addr_length) \<leftarrow>
             for_each (emit_symbol st mx (ys ! 0)) ys (addr[st := 0], st, 0);
           if \<not> ok then Some (0, addr) else do {
             (ok, addr, pos, addr_length) \<leftarrow>
               for_each (emit_symbol st mx (c ! 0)) c (addr, pos, addr_length);
             if \<not> ok then Some (0, addr) else do {
               addr \<leftarrow> arr_put addr pos 0;
               Some (int addr_length, addr)
             }
           }
         }"
    using cashaddr_encode_eq [OF assms(1-3) st, of r mx] assms(4) by auto
  have ne: "0 < length ys" using q(4) assms(4) by arith
  have f: "ys ! 0 < 32" "c ! 0 < 32" using q(1-3) ne by (simp_all add: symbols_def)
  define A where "A = take st addr @ map chr ys @ drop (st + length ys) addr"
  have A: "length A = length addr" "take (st + length ys) A = take st addr @ map chr ys"
      "drop (st + length ys) A = drop (st + length ys) addr"
    using q(4) assms(5) st by (simp_all add: A_def)
  have 1: "for_each (emit_symbol st mx (ys ! 0)) ys (addr[st := 0], st, 0) =
      Some (True, A, st + length ys, length ys)"
    using emit_all [OF f(1) q(1), of st "addr[st := 0]" 0 mx st] q(4) assms(5,6) ne
    by (simp add: A_def)
  define A2 where "A2 = take st addr @ map chr (ys @ c) @ drop (st + L) addr"
  have "8 + (st + length ys) = st + L" using q(4) by simp
  moreover have "drop 8 (drop (st + length ys) A) = drop 8 (drop (st + length ys) addr)"
    by (simp only: A(3))
  ultimately have "drop (8 + (st + length ys)) A = drop (st + L) addr"
    by (simp only: drop_drop)
  then have 2: "for_each (emit_symbol st mx (c ! 0)) c (A, st + length ys, length ys) =
      Some (True, A2, st + L, L)"
    using emit_all [OF f(2) q(2), of "st + length ys" A "length ys" mx st] q(3,4) assms(5,6) A
    by (simp add: A2_def add.commute add.left_commute)
  have "drop (st + L) addr = addr ! (st + L) # drop (st + L + 1) addr"
    using assms(5) by (simp add: Cons_nth_drop_Suc)
  moreover have "length (take st addr @ map chr (ys @ c)) = st + L" using st q(3,4) by simp
  ultimately have 3: "arr_put A2 (st + L) 0 =
      Some (take st addr @ map chr (ys @ c) @ 0 # drop (st + L + 1) addr)"
    using arr_put_prefix [of "take st addr @ map chr (ys @ c)" "st + L" "drop (st + L) addr" 0]
    by (simp add: A2_def)
  have "encodes ver hash (map chr (ys @ c))" using q by (auto simp: encodes_def)
  then show ?thesis unfolding e using q(3,4)
    by (intro exI [of _ "map chr (ys @ c)"]) (simp add: 1 2 3)
qed

text \<open>With too little room declared, or an unknown version, the result is the empty string.\<close>

lemma cashaddr_encode_no_room:
  assumes "length hash = n" and "n \<le> 39" and "ver \<in> {0, 1, 8}"
    and "L = (8 * (n + 1) + 4) div 5 + 8" and "st + L \<le> length addr" and "mx < L"
  shows "\<exists>addr'. cashaddr_encode (hash @ r) n addr st mx ver = Some (0, addr') \<and>
    length addr' = length addr \<and> addr' ! st = 0"
proof -
  have st: "st < length addr" using assms(4,5) by simp
  obtain ys c where q: "symbols ys" "symbols c" "length c = 8" "length ys + 8 = L"
    and e: "cashaddr_encode (hash @ r) n addr st mx ver =
      do { (ok, addr, pos, addr_length) \<leftarrow>
             for_each (emit_symbol st mx (ys ! 0)) ys (addr[st := 0], st, 0);
           if \<not> ok then Some (0, addr) else do {
             (ok, addr, pos, addr_length) \<leftarrow>
               for_each (emit_symbol st mx (c ! 0)) c (addr, pos, addr_length);
             if \<not> ok then Some (0, addr) else do {
               addr \<leftarrow> arr_put addr pos 0;
               Some (int addr_length, addr)
             }
           }
         }"
    using cashaddr_encode_eq [OF assms(1-3) st, of r mx] assms(4) by auto
  have ne: "0 < length ys" using q(4) assms(4) by arith
  have f: "ys ! 0 < 32" "c ! 0 < 32" using q(1-3) ne by (simp_all add: symbols_def)
  show ?thesis
  proof (cases "mx < length ys")
    case True
    then show ?thesis unfolding e
      using emit_overflow [OF f(1) q(1), of st "addr[st := 0]" mx 0 st] q(4) assms(5) st by auto
  next
    case False
    define A where "A = take st addr @ map chr ys @ drop (st + length ys) addr"
    have "for_each (emit_symbol st mx (ys ! 0)) ys (addr[st := 0], st, 0) =
        Some (True, A, st + length ys, length ys)"
      using emit_all [OF f(1) q(1), of st "addr[st := 0]" 0 mx st] q(4) assms(5,6) ne False
      by (simp add: A_def)
    moreover have "length A = length addr" using q(4) assms(5) by (simp add: A_def)
    ultimately show ?thesis unfolding e
      using emit_overflow [OF f(2) q(2), of "st + length ys" A mx "length ys" st] False q(3,4) assms(5,6) st
      by auto
  qed
qed

lemma cashaddr_encode_version:
  assumes "ver \<notin> {0, 1, 8}" and "st < length addr"
  shows "cashaddr_encode hash n addr st mx ver = Some (0, addr[st := 0])"
  using assms by (simp add: cashaddr_encode_def cashaddr_consts arr_put_Some)

section \<open>Public keys and addresses (address.c)\<close>

datatype address_type_e = SCHNORR | ECDSA | P2SH

text \<open>The last branch of the code, \<open>return 0\<close> for another enumerator, has no case here.\<close>

definition compress_public_key :: "bytes \<Rightarrow> address_type_e \<Rightarrow> bytes \<Rightarrow> nat \<Rightarrow> (nat \<times> bytes) option" where
  "compress_public_key public_key address_type out out_len =
    (case address_type of
       ECDSA \<Rightarrow>
         if out_len < 33 then Some (0, out)
         else do {
           y \<leftarrow> arr_get public_key 63;
           out \<leftarrow> arr_put out 0 (if unat y mod 2 = 0 then 0x02 else 0x03);
           d \<leftarrow> mem_read public_key 0 32;
           out \<leftarrow> mem_write out 1 d;
           Some (33, out)
         }
     | _ \<Rightarrow>
         if out_len < 32 then Some (0, out)
         else do {
           d \<leftarrow> mem_read public_key 0 32;
           out \<leftarrow> mem_write out 0 d;
           Some (32, out)
         })"

definition address_from_pubkey :: "bytes \<Rightarrow> address_type_e \<Rightarrow> bytes \<Rightarrow> nat \<Rightarrow> (bool \<times> bytes) option" where
  "address_from_pubkey public_key address_type out out_len =
    (let address = zeros 80;
         (address_len, ver) =
           (case address_type of SCHNORR \<Rightarrow> (SCHNORR_ADDRESS_LEN, 0)
            | ECDSA \<Rightarrow> (ECDSA_ADDRESS_LEN, 1) | P2SH \<Rightarrow> (SCHNORR_ADDRESS_LEN, 8))
     in if out_len < address_len then Some (False, out)
     else do {
       let hrp = c_bytes ''kaspa'' @ [0];
       let compressed_public_key = zeros 33;
       (compressed_pub_size, compressed_public_key) \<leftarrow>
         compress_public_key public_key address_type compressed_public_key 33;
       if compressed_pub_size = 0 then Some (False, out)
       else do {
         address \<leftarrow> mem_write address 0 hrp;
         address \<leftarrow> arr_put address 5 0x3a;
         (_, address) \<leftarrow>
           cashaddr_encode compressed_public_key compressed_pub_size address 6 address_len ver;
         d \<leftarrow> mem_read address 0 address_len;
         out \<leftarrow> mem_write out 0 d;
         Some (True, out)
       }
     })"

section \<open>Helpers of transactions (utils.c)\<close>

definition transaction_utils_check_encoding :: "bytes \<Rightarrow> nat \<Rightarrow> bool option" where
  "transaction_utils_check_encoding memo memo_len = do {
     (ok, _) \<leftarrow> for_each (\<lambda>i _. do { m \<leftarrow> arr_get memo i; Some (\<not> m > 0x7F, ()) }) [0..<memo_len] ();
     Some ok
   }"

definition script_public_key_to_address ::
  "bytes \<Rightarrow> nat \<Rightarrow> bytes \<Rightarrow> nat \<Rightarrow> (bool \<times> bytes) option"
where
  "script_public_key_to_address out_address out_len in_script_public_key script_len' =
    (let public_key = zeros 64
     in if script_len' < 32 then Some (False, out_address)
     else do {
       first_byte \<leftarrow> arr_get in_script_public_key 0;
       if first_byte = 0xaa then
         (if script_len' < 35 then Some (False, out_address)
          else do {
            d \<leftarrow> mem_read in_script_public_key 2 32;
            public_key \<leftarrow> mem_write public_key 0 d;
            if out_len < SCHNORR_ADDRESS_LEN then Some (False, out_address)
            else address_from_pubkey public_key P2SH out_address SCHNORR_ADDRESS_LEN
          })
       else if first_byte = 0x21 then
         (if script_len' < 35 then Some (False, out_address)
          else do {
            parity \<leftarrow> arr_get in_script_public_key 1;
            d \<leftarrow> mem_read in_script_public_key 2 32;
            public_key \<leftarrow> mem_write public_key 0 d;
            public_key \<leftarrow> mem_write public_key 32 (replicate 32 parity);
            if out_len < ECDSA_ADDRESS_LEN then Some (False, out_address)
            else address_from_pubkey public_key ECDSA out_address ECDSA_ADDRESS_LEN
          })
       else
         (if script_len' < 34 then Some (False, out_address)
          else do {
            d \<leftarrow> mem_read in_script_public_key 1 32;
            public_key \<leftarrow> mem_write public_key 0 d;
            if out_len < SCHNORR_ADDRESS_LEN then Some (False, out_address)
            else address_from_pubkey public_key SCHNORR out_address SCHNORR_ADDRESS_LEN
          })
     })"

definition calc_fees ::
  "transaction_input_t list \<Rightarrow> nat \<Rightarrow> transaction_output_t list \<Rightarrow> nat \<Rightarrow> u64 option"
where
  "calc_fees inputs input_len outputs output_len = do {
     ins \<leftarrow> mem_read inputs 0 input_len;
     let fees = foldl (\<lambda>fees i. fees + in_value i) 0 ins;
     outs \<leftarrow> mem_read outputs 0 output_len;
     let fees = foldl (\<lambda>fees x. fees - out_value x) fees outs;
     Some fees
   }"

section \<open>What an address says\<close>

fun addr_version :: "address_type_e \<Rightarrow> nat" where
  "addr_version SCHNORR = 0" | "addr_version ECDSA = 1" | "addr_version P2SH = 8"

fun addr_key :: "address_type_e \<Rightarrow> bytes \<Rightarrow> bytes" where
  "addr_key ECDSA pk = (if unat (pk ! 63) mod 2 = 0 then 0x02 else 0x03) # take 32 pk"
| "addr_key _ pk = take 32 pk"

fun addr_len :: "address_type_e \<Rightarrow> nat" where
  "addr_len ECDSA = 69" | "addr_len _ = 67"

lemma compress_eq:
  assumes "length pk = 64"
  shows "compress_public_key pk ty (zeros 33) 33 =
    Some (length (addr_key ty pk), addr_key ty pk @ zeros (33 - length (addr_key ty pk)))"
proof -
  have z: "zeros 33 = 0 # zeros 32" by (simp add: zeros_def numeral_eq_Suc)
  show ?thesis using assms
    by (cases ty) (simp_all add: compress_public_key_def mem_read_Some mem_write_Some arr_get_Some
        arr_put_def z)
qed

lemma length_addr_key: "length pk = 64 \<Longrightarrow> length (addr_key ty pk) = (if ty = ECDSA then 33 else 32)"
  by (cases ty) auto

lemma address_from_pubkey_eq:
  assumes "length pk = 64" and "out_len \<le> length out"
  shows "\<exists>enc. encodes (addr_version ty) (addr_key ty pk) enc \<and> length enc = addr_len ty - 6 \<and>
    address_from_pubkey pk ty out out_len =
      Some (if out_len < addr_len ty then (False, out)
            else (True, c_bytes ''kaspa:'' @ enc @ drop (addr_len ty) out))"
proof -
  define A where "A = c_bytes ''kaspa:'' @ zeros 74"
  define n where "n = length (addr_key ty pk)"
  have n: "n \<le> 39" "addr_len ty - 6 = (8 * (n + 1) + 4) div 5 + 8" "n \<noteq> 0"
    using length_addr_key [OF assms(1), of ty] by (cases ty, simp_all add: n_def)+
  have A1: "mem_write (zeros 80) 0 (c_bytes ''kaspa'' @ [0]) = Some (c_bytes ''kaspa'' @ 0 # zeros 74)"
    by (simp add: mem_write_Some)
  have A2: "arr_put (c_bytes ''kaspa'' @ 0 # zeros 74) 5 0x3a = Some A"
    using arr_put_prefix [of "c_bytes ''kaspa''" 5 "0 # zeros 74" "0x3a"]
    by (simp add: A_def) (simp add: c_bytes_def)
  have A3: "length A = 80" by (simp add: A_def)
  obtain enc where t: "encodes (addr_version ty) (addr_key ty pk) enc" "length enc = addr_len ty - 6"
    and e: "cashaddr_encode (addr_key ty pk @ zeros (33 - n)) n A 6 (addr_len ty) (addr_version ty) =
      Some (int (addr_len ty - 6), take 6 A @ enc @ 0 # drop (6 + (addr_len ty - 6) + 1) A)"
    using cashaddr_encode_ok [of "addr_key ty pk" n "addr_version ty" "addr_len ty - 6" 6 A
        "addr_len ty" "zeros (33 - n)"] n A3 by (cases ty) (auto simp: n_def)
  have "take 6 A = c_bytes ''kaspa:''" by (simp add: A_def)
  then have e': "cashaddr_encode (addr_key ty pk @ zeros (33 - n)) n A 6 (addr_len ty) (addr_version ty) =
      Some (int (addr_len ty - 6), c_bytes ''kaspa:'' @ enc @ 0 # drop (addr_len ty + 1) A)"
    using e by (cases ty) simp_all
  have ap: "address_from_pubkey pk ty out out_len =
      (if out_len < addr_len ty then Some (False, out)
       else do {
         (sz, k) \<leftarrow> compress_public_key pk ty (zeros 33) 33;
         if sz = 0 then Some (False, out) else do {
           (_, address) \<leftarrow> cashaddr_encode k sz A 6 (addr_len ty) (addr_version ty);
           d \<leftarrow> mem_read address 0 (addr_len ty);
           out \<leftarrow> mem_write out 0 d;
           Some (True, out)
         }
       })"
    using A1 A2 by (cases ty) (simp_all add: address_from_pubkey_def Let_def size_consts cong: if_cong)
  have rd: "mem_read (c_bytes ''kaspa:'' @ enc @ 0 # drop (addr_len ty + 1) A) 0 (addr_len ty) =
      Some (c_bytes ''kaspa:'' @ enc)"
    using t(2) A3 by (cases ty) (simp_all add: mem_read_Some)
  have wr: "\<not> out_len < addr_len ty \<Longrightarrow> mem_write out 0 (c_bytes ''kaspa:'' @ enc) =
      Some (c_bytes ''kaspa:'' @ enc @ drop (addr_len ty) out)"
    using t(2) assms(2) by (cases ty) (simp_all add: mem_write_Some)
  have "address_from_pubkey pk ty out out_len =
      Some (if out_len < addr_len ty then (False, out)
            else (True, c_bytes ''kaspa:'' @ enc @ drop (addr_len ty) out))"
    unfolding ap compress_eq [OF assms(1), of ty] n_def [symmetric]
    using n(3) e' rd wr by simp
  with t show ?thesis by blast
qed

section \<open>From scripts to addresses\<close>

text \<open>The kind of address of a script, and the key or hash it encodes.\<close>

definition script_type :: "bytes \<Rightarrow> address_type_e" where
  "script_type s = (if s ! 0 = 0xaa then P2SH else if s ! 0 = 0x21 then ECDSA else SCHNORR)"

definition script_key :: "bytes \<Rightarrow> bytes" where
  "script_key s =
     (case script_type s of
        P2SH \<Rightarrow> take 32 (drop 2 s)
      | ECDSA \<Rightarrow> (if unat (s ! 1) mod 2 = 0 then 0x02 else 0x03) # take 32 (drop 2 s)
      | SCHNORR \<Rightarrow> take 32 (drop 1 s))"

definition is_address_of :: "bytes \<Rightarrow> bytes \<Rightarrow> bool" where
  "is_address_of s a \<longleftrightarrow> (\<exists>enc. encodes (addr_version (script_type s)) (script_key s) enc \<and>
     length a = addr_len (script_type s) \<and> a = c_bytes ''kaspa:'' @ enc)"

lemma script_address:
  assumes "35 \<le> sl" and "sl \<le> length s" and "out_len \<le> length out"
  shows "\<exists>a. is_address_of s a \<and> script_public_key_to_address out out_len s sl =
    Some (if out_len < addr_len (script_type s) then (False, out)
          else (True, a @ drop (addr_len (script_type s)) out))"
proof -
  define pk where "pk = (case script_type s of
      P2SH \<Rightarrow> take 32 (drop 2 s) @ zeros 32
    | ECDSA \<Rightarrow> take 32 (drop 2 s) @ replicate 32 (s ! 1)
    | SCHNORR \<Rightarrow> take 32 (drop 1 s) @ zeros 32)"
  have len: "length pk = 64" using assms by (simp add: pk_def split: address_type_e.split)
  have key: "addr_key (script_type s) pk = script_key s"
    using assms by (cases "script_type s") (simp_all add: pk_def script_key_def nth_append)
  have al: "addr_len (script_type s) = (if script_type s = ECDSA then 69 else 67)"
    by (cases "script_type s") simp_all
  have g: "arr_get s 0 = Some (s ! 0)" "arr_get s 1 = Some (s ! 1)"
    "mem_read s 1 32 = Some (take 32 (drop 1 s))" "mem_read s 2 32 = Some (take 32 (drop 2 s))"
    using assms by (auto simp: arr_get_def mem_read_def)
  have eq: "script_public_key_to_address out out_len s sl =
      (if out_len < addr_len (script_type s) then Some (False, out)
       else address_from_pubkey pk (script_type s) out (addr_len (script_type s)))"
    using assms unfolding script_public_key_to_address_def script_type_def pk_def Let_def
    by (simp add: g g [unfolded One_nat_def] mem_write_Some size_consts)
  show ?thesis
  proof (cases "out_len < addr_len (script_type s)")
    case True
    obtain enc where "encodes (addr_version (script_type s)) (script_key s) enc"
      "length enc = addr_len (script_type s) - 6"
      using address_from_pubkey_eq [OF len, of 0 "[]" "script_type s"] key by auto
    then have "is_address_of s (c_bytes ''kaspa:'' @ enc)" by (simp add: is_address_of_def al)
    with True eq show ?thesis by auto
  next
    case False
    obtain enc where e: "encodes (addr_version (script_type s)) (script_key s) enc"
      "length enc = addr_len (script_type s) - 6"
      "address_from_pubkey pk (script_type s) out (addr_len (script_type s)) =
        Some (True, c_bytes ''kaspa:'' @ enc @ drop (addr_len (script_type s)) out)"
      using address_from_pubkey_eq [OF len, of "addr_len (script_type s)" out "script_type s"]
        False assms(3) key by auto
    then have "is_address_of s (c_bytes ''kaspa:'' @ enc)" by (simp add: is_address_of_def al)
    with e(3) eq False show ?thesis by (intro exI [of _ "c_bytes ''kaspa:'' @ enc"]) simp
  qed
qed

lemma regroups_inject:
  assumes "regroups 5 ys 8 xs" and "regroups 5 ys 8 xs'"
  shows "xs = xs'"
proof -
  obtain p q where p: "p < 5" "spell 5 ys = spell 8 xs @ replicate p False"
    and q: "q < 5" "spell 5 ys = spell 8 xs' @ replicate q False"
    using assms by (auto simp: regroups_def)
  have eq: "spell 8 xs @ replicate p False = spell 8 xs' @ replicate q False" using p(2) q(2) by simp
  have "8 * length xs + p = 8 * length xs' + q" using arg_cong [OF eq, of length] by simp
  then have l: "length xs = length xs'" using p(1) q(1) by arith
  then have "spell 8 xs = spell 8 xs'" using eq by simp
  then show ?thesis using l by (rule spell_inject) simp_all
qed

lemma encodes_inject:
  assumes "encodes ver key enc" and "encodes ver' key' enc"
  shows "version_byte ver = version_byte ver' \<and> key = key'"
proof -
  obtain ys c where 1: "enc = map chr (ys @ c)" "symbols (ys @ c)" "length c = 8"
    "regroups 5 ys 8 (version_byte ver # key)" using assms(1) by (auto simp: encodes_def)
  obtain ys' c' where 2: "enc = map chr (ys' @ c')" "symbols (ys' @ c')" "length c' = 8"
    "regroups 5 ys' 8 (version_byte ver' # key')" using assms(2) by (auto simp: encodes_def)
  have "ys @ c = ys' @ c'" using map_chr_inject [OF 1(2) 2(2)] 1(1) 2(1) by simp
  then have "ys = ys'" using 1(3) 2(3) by simp
  then show ?thesis using regroups_inject [of ys "version_byte ver # key" "version_byte ver' # key'"] 1(4) 2(4)
    by simp
qed

text \<open>The first byte of an ECDSA key is 2 or 3; other first bytes are not keys.\<close>

definition proper_script :: "bytes \<Rightarrow> bool" where
  "proper_script s \<longleftrightarrow> known_script s \<and> (s ! 0 = 0x21 \<longrightarrow> s ! 1 = 0x02 \<or> s ! 1 = 0x03)"

lemma list_ends:
  "length t = Suc (Suc n) \<Longrightarrow> t = t ! 0 # take n (drop 1 t) @ [t ! Suc n]"
  by (rule nth_equalityI) (auto simp: nth_Cons nth_append less_Suc_eq split: nat.split)

lemma list_ends2:
  "length t = Suc (Suc (Suc n)) \<Longrightarrow> t = t ! 0 # t ! 1 # take n (drop 2 t) @ [t ! Suc (Suc n)]"
  by (rule nth_equalityI) (auto simp: nth_Cons nth_append less_Suc_eq numeral_2_eq_2 split: nat.split)

lemma script_of_key:
  assumes "proper_script t"
  shows "t = (case script_type t of
       P2SH \<Rightarrow> [0xaa, 0x20] @ script_key t @ [0x87]
     | ECDSA \<Rightarrow> 0x21 # script_key t @ [0xab]
     | SCHNORR \<Rightarrow> 0x20 # script_key t @ [0xac])"
proof -
  have k: "known_script t" and e: "t ! 0 = 0x21 \<Longrightarrow> t ! 1 = 2 \<or> t ! 1 = 3"
    using assms by (auto simp: proper_script_def)
  consider "length t = 34" "t ! 0 = 0x20" "t ! 33 = 0xac"
    | "length t = 35" "t ! 0 = 0x21" "t ! 34 = 0xab"
    | "length t = 35" "t ! 0 = 0xaa" "t ! 1 = 0x20" "t ! 34 = 0x87"
    using k by (auto simp: known_script_def op_consts)
  then show ?thesis
  proof cases
    case 1
    then show ?thesis using list_ends [of t 32] by (simp add: script_type_def script_key_def)
  next
    case 2
    then have "t = 0x21 # t ! 1 # take 32 (drop 2 t) @ [0xab]" using list_ends2 [of t 32] by simp
    then show ?thesis using 2 e [OF 2(2)] by (auto simp: script_type_def script_key_def)
  next
    case 3
    then show ?thesis using list_ends2 [of t 32] by (simp add: script_type_def script_key_def)
  qed
qed

lemma script_key_take:
  assumes "known_script (take n s)"
  shows "script_type (take n s) = script_type s" and "script_key (take n s) = script_key s"
proof -
  have n: "34 \<le> n" using known_script_length [OF assms] by simp
  then show t: "script_type (take n s) = script_type s" by (simp add: script_type_def)
  have "length (take n s) \<noteq> 34 \<or> s ! 0 = 0x20"
    using assms n by (auto simp: known_script_def op_consts)
  then have "script_type s \<noteq> SCHNORR \<Longrightarrow> 34 \<le> n \<and> (length s \<le> n \<or> 35 \<le> n)"
    using n known_script_length [OF assms] by (auto simp: script_type_def split: if_splits)
  then show "script_key (take n s) = script_key s"
    using n by (cases "script_type s") (auto simp: script_key_def t drop_take min_def)
qed

lemma address_inject:
  assumes "is_address_of s a" and "is_address_of s' a"
    and "proper_script (take n s)" and "proper_script (take n' s')"
  shows "take n s = take n' s'"
proof -
  have k: "known_script (take n s)" "known_script (take n' s')"
    using assms(3,4) by (simp_all add: proper_script_def)
  obtain enc where e: "encodes (addr_version (script_type s)) (script_key s) enc"
      "encodes (addr_version (script_type s')) (script_key s') enc"
    using assms(1,2) by (auto simp: is_address_of_def)
  have "version_byte (addr_version (script_type s)) = version_byte (addr_version (script_type s'))"
    and key: "script_key s = script_key s'" using encodes_inject [OF e] by simp_all
  then have "script_type s = script_type s'"
    by (cases "script_type s"; cases "script_type s'") (simp_all add: version_byte_def)
  with key show ?thesis
    using script_of_key [OF assms(3)] script_of_key [OF assms(4)]
    unfolding script_key_take [OF k(1)] script_key_take [OF k(2)]
    by (simp split: address_type_e.split)
qed

text \<open>The characters of an address are not zero, so its end can be seen in a zeroed area.\<close>

lemma charset_nonzero: "i < 32 \<Longrightarrow> charset ! i \<noteq> 0"
  using nth_eq_iff_index_eq [OF distinct_charset, of i 32]
  by (simp add: length_charset) (simp add: charset_def nth_append)

lemma address_nonzero:
  assumes "is_address_of s a"
  shows "0 \<notin> set a"
proof -
  obtain ys c where "a = c_bytes ''kaspa:'' @ map chr ys @ map chr c" "symbols ys" "symbols c"
    using assms by (auto simp: is_address_of_def encodes_def)
  moreover have "0 \<notin> set (c_bytes ''kaspa:'')" by (simp add: c_bytes_def)
  moreover have "chr v \<noteq> 0" if "v < 32" for v
    using charset_nonzero [of "unat v"] that by (simp add: chr_def symbol_unat)
  ultimately show ?thesis by (fastforce simp: symbols_def)
qed

lemma zero_padded_inject:
  assumes "a @ zeros i = b @ zeros j" and "0 \<notin> set a" and "0 \<notin> set b"
  shows "a = b"
proof -
  have "takeWhile (\<lambda>x. x \<noteq> 0) (c @ zeros n) = c" if "0 \<notin> set c" for c n
    using that by (induction c) (auto simp: zeros_def takeWhile_replicate)
  then show ?thesis using assms by metis
qed

section \<open>Totals\<close>

lemma foldl_add: "foldl (\<lambda>t x. t + f x) a xs = a + sum_list (map f xs)" for a :: "'a::comm_monoid_add"
  by (induction xs arbitrary: a) (simp_all add: add.assoc)

lemma foldl_diff: "foldl (\<lambda>t x. t - f x) a xs = a - sum_list (map f xs)" for a :: "'a::ab_group_add"
  by (induction xs arbitrary: a) (simp_all add: diff_diff_add)

lemma sum_list_word: "sum_list (map f xs) = word_of_nat (sum_list (map (\<lambda>x. unat (f x)) xs))"
  for f :: "'b \<Rightarrow> 'a::len word"
  by (induction xs) simp_all

lemma calc_fees_sum:
  assumes "n \<le> length ins" and "m \<le> length outs"
  shows "calc_fees ins n outs m = Some (word_of_int
    (int (sum_list (map (\<lambda>i. unat (in_value i)) (take n ins))) -
     int (sum_list (map (\<lambda>x. unat (out_value x)) (take m outs)))))"
  using assms by (simp add: calc_fees_def mem_read_Some foldl_add foldl_diff sum_list_word [of in_value]
      sum_list_word [of out_value])

section \<open>A kind and a key have one address\<close>

lemma valid_codeword_unique:
  assumes "valid_codeword (ys @ c)" and "valid_codeword (ys @ d)"
    and "symbols c" and "symbols d" and "length c = 8" and "length d = 8"
  shows "c = d"
  using assms cashaddr.burst_changes [of c d "poly cashaddr_polymod_step kaspa_state ys" "[]"]
  by (auto simp: valid_codeword_def poly_append)

lemma regroups_unique:
  assumes "regroups 5 ys 8 xs" and "regroups 5 zs 8 xs"
  shows "ys = zs"
proof -
  obtain p q where p: "p < 5" "spell 5 ys = spell 8 xs @ replicate p False" "fits 5 ys"
    and q: "q < 5" "spell 5 zs = spell 8 xs @ replicate q False" "fits 5 zs"
    using assms by (auto simp: regroups_def)
  have "length ys = length zs"
    using regroups_length [OF assms(1)] regroups_length [OF assms(2)] by simp
  moreover from this have "p = q"
    using arg_cong [OF p(2), of length] arg_cong [OF q(2), of length] by simp
  ultimately show ?thesis using p q spell_inject [of 5 ys zs] by simp
qed

lemma encodes_unique:
  assumes "encodes ver key a" and "encodes ver key b"
  shows "a = b"
proof -
  obtain ys c where 1: "a = map chr (ys @ c)" "symbols c" "length c = 8"
    "regroups 5 ys 8 (version_byte ver # key)" "valid_codeword (ys @ c)" using assms(1) by (auto simp: encodes_def)
  obtain zs d where 2: "b = map chr (zs @ d)" "symbols d" "length d = 8"
    "regroups 5 zs 8 (version_byte ver # key)" "valid_codeword (zs @ d)" using assms(2) by (auto simp: encodes_def)
  have "ys = zs" by (rule regroups_unique [OF 1(4) 2(4)])
  then show ?thesis using valid_codeword_unique [of ys c d] 1 2 by simp
qed

section \<open>Properties\<close>

text \<open>C26. Addresses of public keys: a kind and a key have exactly one encoding, the symbols that
  spell the version and the compressed key in 5-bit groups and end with the one checksum that
  verifies. On every key of 64 bytes the function is defined; with too little room it reports
  failure and writes nothing, otherwise it leaves the prefix \<open>kaspa:\<close> and that encoding of
  61 (Schnorr, script hash) or 63 (ECDSA) symbols.\<close>

theorem address_from_pubkey_encodes:
  assumes "length pk = 64" and "out_len \<le> length out"
  shows "\<exists>enc. (\<forall>a. encodes (addr_version ty) (addr_key ty pk) a \<longleftrightarrow> a = enc) \<and> length enc = addr_len ty - 6 \<and>
    address_from_pubkey pk ty out out_len =
      Some (if out_len < addr_len ty then (False, out)
            else (True, c_bytes ''kaspa:'' @ enc @ drop (addr_len ty) out))"
  using address_from_pubkey_eq [OF assms, of ty] encodes_unique by metis

theorem address_from_pubkey_encodes_witness:
  "\<exists>enc. (\<forall>a. encodes 0 (replicate 32 7) a \<longleftrightarrow> a = enc) \<and> length enc = 61 \<and>
    address_from_pubkey (replicate 64 7) SCHNORR (zeros 70) 70 =
      Some (True, c_bytes ''kaspa:'' @ enc @ zeros 3)"
  using address_from_pubkey_encodes [of "replicate 64 7" 70 "zeros 70" SCHNORR] by simp

text \<open>C27. What the address shows is what the script pays to: two scripts in their output
  buffers, each of a form the application accepts and with a key that starts with 2 or 3 when
  it is an ECDSA key, are equal when the addresses that the display computes for them are.\<close>

theorem displayed_address_determines_script:
  assumes "length s = 40" and "length s' = 40"
    and "proper_script (take (script_len s) s)" and "proper_script (take (script_len s') s')"
    and "script_public_key_to_address (zeros 69) 69 s 40 = script_public_key_to_address (zeros 69) 69 s' 40"
  shows "take (script_len s) s = take (script_len s') s'"
proof -
  have al: "addr_len ty \<le> 69" for ty by (cases ty) simp_all
  obtain a b where "is_address_of s a" "is_address_of s' b"
    "a @ zeros (69 - addr_len (script_type s)) = b @ zeros (69 - addr_len (script_type s'))"
    using script_address [of 40 s 69 "zeros 69"] script_address [of 40 s' 69 "zeros 69"] assms
      al [of "script_type s"] al [of "script_type s'"] by (auto simp: not_less [symmetric])
  then show ?thesis
    using zero_padded_inject [of a _ b] address_nonzero address_inject assms(3,4) by metis
qed

theorem displayed_address_determines_script_witness:
  "script_public_key_to_address (zeros 69) 69 (0x20 # replicate 32 9 @ [0xac] @ zeros 6) 40 \<noteq>
   script_public_key_to_address (zeros 69) 69 (0xaa # 0x20 # replicate 32 9 @ [0x87] @ zeros 5) 40"
  using displayed_address_determines_script [of "0x20 # replicate 32 9 @ [0xac] @ zeros 6"
      "0xaa # 0x20 # replicate 32 9 @ [0x87] @ zeros 5"]
  by (auto simp: proper_script_def known_script_def script_len_def op_consts nth_append)

text \<open>The exception to the previous property: the first byte of an ECDSA key is shown
  only by its parity, so a script with another first byte, which is no valid key, shows the
  address of a valid one.\<close>

theorem ecdsa_key_byte_not_shown:
  assumes "length x = 32" and "unat b mod 2 = unat b' mod 2" and "out_len \<le> length out"
  shows "script_public_key_to_address out out_len (0x21 # b # x @ 0xab # r) 35 =
    script_public_key_to_address out out_len (0x21 # b' # x @ 0xab # r) 35"
proof -
  have "address_from_pubkey (x @ replicate 32 b) ECDSA out 69 = address_from_pubkey (x @ replicate 32 b') ECDSA out 69"
    using assms(1,2) by (simp add: address_from_pubkey_def compress_public_key_def arr_get_Some
        mem_read_Some nth_append)
  then show ?thesis using assms(1)
    by (simp add: script_public_key_to_address_def arr_get_Some mem_read_Some mem_write_Some size_consts)
qed

theorem ecdsa_key_byte_not_shown_witness:
  "script_public_key_to_address (zeros 69) 69 (0x21 # 4 # replicate 32 9 @ 0xab # zeros 5) 35 =
   script_public_key_to_address (zeros 69) 69 (0x21 # 2 # replicate 32 9 @ 0xab # zeros 5) 35"
  by (rule ecdsa_key_byte_not_shown) simp_all

text \<open>C32. Fees: the value computed is the exact difference of the totals modulo 2^64, and
  the exact difference itself when the inputs' total fits 64 bits and covers the outputs.\<close>

theorem calc_fees_exact:
  assumes "n \<le> length ins" and "m \<le> length outs"
  shows "\<exists>f. calc_fees ins n outs m = Some f \<and>
    (let ti = sum_list (map (\<lambda>i. unat (in_value i)) (take n ins));
         to = sum_list (map (\<lambda>x. unat (out_value x)) (take m outs))
     in f = word_of_int (int ti - int to) \<and> (to \<le> ti \<and> ti < 2 ^ 64 \<longrightarrow> unat f = ti - to))"
proof -
  have "unat (word_of_int (int a - int b) :: u64) = a - b" if "b \<le> a" and "a < 2 ^ 64" for a b
  proof -
    have "(word_of_int (int a - int b) :: u64) = word_of_nat (a - b)"
      using that(1) by (metis of_int_of_nat_eq of_nat_diff)
    moreover have "a - b < 2 ^ 64" using that(2) by (rule order.strict_trans1 [rotated]) simp
    ultimately show ?thesis by (simp add: unat_of_nat)
  qed
  then show ?thesis using calc_fees_sum [OF assms] by (auto simp: Let_def)
qed

theorem calc_fees_exact_witness:
  "\<exists>f. calc_fees [zero_input\<lparr>in_value := 5000\<rparr>, zero_input\<lparr>in_value := 700\<rparr>] 2
      [zero_output\<lparr>out_value := 5600\<rparr>] 1 = Some f \<and> unat f = 100"
  using calc_fees_exact [of 2 "[zero_input\<lparr>in_value := 5000\<rparr>, zero_input\<lparr>in_value := 700\<rparr>]" 1
      "[zero_output\<lparr>out_value := 5600\<rparr>]"] by (auto simp: Let_def)

end
