(* ===== verification/Blake2b.thy ===== *)
theory Blake2b
  imports Prelude
begin

text \<open>
  The BLAKE2b implementation of \<open>src/import/blake2b.c\<close> with the byte helpers of
  \<open>src/import/blake2-impl.h\<close>: the state and parameter block, the compression function,
  and the streaming interface \<open>blake2b_init\<close>, \<open>blake2b_init_key\<close>,
  \<open>blake2b_update\<close>, \<open>blake2b_final\<close> and \<open>blake2b\<close>.

  The work area \<open>b2bg_cx\<close> (\<open>m\<close>, \<open>v\<close>, \<open>buffer\<close>, \<open>block1\<close>) is filled
  anew before each use, so its parts are local values here. The sizes that the SDK header
  provides are the ones the packed parameter block fixes: 128-byte blocks, 64-byte output
  and key limits, 16-byte salt and personalisation.
\<close>

section \<open>Byte helpers (blake2-impl.h)\<close>

definition load64 :: "bytes \<Rightarrow> nat \<Rightarrow> u64 option" where
  "load64 src off = do {
     p \<leftarrow> mem_read src off 8;
     Some (push_bit 0 (ucast (p ! 0)) OR push_bit 8 (ucast (p ! 1)) OR
           push_bit 16 (ucast (p ! 2)) OR push_bit 24 (ucast (p ! 3)) OR
           push_bit 32 (ucast (p ! 4)) OR push_bit 40 (ucast (p ! 5)) OR
           push_bit 48 (ucast (p ! 6)) OR push_bit 56 (ucast (p ! 7)))
   }"

definition store32 :: "u32 \<Rightarrow> bytes" where
  "store32 w = [ucast (drop_bit 0 w), ucast (drop_bit 8 w), ucast (drop_bit 16 w),
     ucast (drop_bit 24 w)]"

definition store64 :: "u64 \<Rightarrow> bytes" where
  "store64 w = [ucast (drop_bit 0 w), ucast (drop_bit 8 w), ucast (drop_bit 16 w),
     ucast (drop_bit 24 w), ucast (drop_bit 32 w), ucast (drop_bit 40 w),
     ucast (drop_bit 48 w), ucast (drop_bit 56 w)]"

definition rotr64 :: "u64 \<Rightarrow> nat \<Rightarrow> u64" where
  "rotr64 w c = (drop_bit c w OR push_bit (64 - c) w)"

section \<open>State, parameters and tables\<close>

record blake2b_state =
  b2_h :: "u64 list"
  b2_t :: "u64 list"
  b2_f :: "u64 list"
  b2_buf :: bytes
  b2_buflen :: nat
  b2_outlen :: nat
  b2_last_node :: u8

definition zero_blake2b_state :: blake2b_state where
  "zero_blake2b_state = \<lparr>b2_h = replicate 8 0, b2_t = replicate 2 0, b2_f = replicate 2 0,
     b2_buf = zeros 128, b2_buflen = 0, b2_outlen = 0, b2_last_node = 0\<rparr>"

record blake2b_param =
  digest_length :: u8
  key_length :: u8
  fanout :: u8
  depth :: u8
  leaf_length :: bytes
  node_offset :: bytes
  xof_length :: bytes
  node_depth :: u8
  inner_length :: u8
  reserved :: bytes
  salt :: bytes
  personal :: bytes

definition param_bytes :: "blake2b_param \<Rightarrow> bytes" where
  "param_bytes P = [digest_length P, key_length P, fanout P, depth P] @ leaf_length P @
     node_offset P @ xof_length P @ [node_depth P, inner_length P] @ reserved P @ salt P @
     personal P"

definition blake2b_IV :: "u64 list" where
  "blake2b_IV =
    [0x6a09e667f3bcc908, 0xbb67ae8584caa73b, 0x3c6ef372fe94f82b, 0xa54ff53a5f1d36f1,
     0x510e527fade682d1, 0x9b05688c2b3e6c1f, 0x1f83d9abfb41bd6b, 0x5be0cd19137e2179]"

definition blake2b_sigma :: "nat list list" where
  "blake2b_sigma =
    [[ 0,  1,  2,  3,  4,  5,  6,  7,  8,  9, 10, 11, 12, 13, 14, 15],
     [14, 10,  4,  8,  9, 15, 13,  6,  1, 12,  0,  2, 11,  7,  5,  3],
     [11,  8, 12,  0,  5,  2, 15, 13, 10, 14,  3,  6,  7,  1,  9,  4],
     [ 7,  9,  3,  1, 13, 12, 11, 14,  2,  6,  5, 10,  4,  0, 15,  8],
     [ 9,  0,  5,  7,  2,  4, 10, 15, 14,  1, 11, 12,  6,  8,  3, 13],
     [ 2, 12,  6, 10,  0, 11,  8,  3,  4, 13,  7,  5, 15, 14,  1,  9],
     [12,  5,  1, 15, 14, 13,  4, 10,  0,  7,  6,  3,  9,  2,  8, 11],
     [13, 11,  7, 14, 12,  1,  3,  9,  5,  0, 15,  4,  8,  6,  2, 10],
     [ 6, 15, 14,  9, 11,  3,  0,  8, 12,  2, 13,  7,  1,  4, 10,  5],
     [10,  2,  8,  4,  7,  6,  1,  5, 15, 11,  9, 14,  3, 12, 13,  0],
     [ 0,  1,  2,  3,  4,  5,  6,  7,  8,  9, 10, 11, 12, 13, 14, 15],
     [14, 10,  4,  8,  9, 15, 13,  6,  1, 12,  0,  2, 11,  7,  5,  3]]"

definition blake2b_set_lastnode :: "blake2b_state \<Rightarrow> blake2b_state" where
  "blake2b_set_lastnode S = S\<lparr>b2_f := (b2_f S)[1 := -1]\<rparr>"

definition blake2b_is_lastblock :: "blake2b_state \<Rightarrow> bool" where
  "blake2b_is_lastblock S \<longleftrightarrow> b2_f S ! 0 \<noteq> 0"

definition blake2b_set_lastblock :: "blake2b_state \<Rightarrow> blake2b_state" where
  "blake2b_set_lastblock S =
     (let S = (if b2_last_node S \<noteq> 0 then blake2b_set_lastnode S else S)
      in S\<lparr>b2_f := (b2_f S)[0 := -1]\<rparr>)"

definition blake2b_increment_counter :: "blake2b_state \<Rightarrow> u64 \<Rightarrow> blake2b_state" where
  "blake2b_increment_counter S inc =
     (let S = S\<lparr>b2_t := (b2_t S)[0 := b2_t S ! 0 + inc]\<rparr>
      in S\<lparr>b2_t := (b2_t S)[1 := b2_t S ! 1 + (if b2_t S ! 0 < inc then 1 else 0)]\<rparr>)"

definition blake2b_init0 :: "blake2b_state \<Rightarrow> blake2b_state" where
  "blake2b_init0 S = zero_blake2b_state\<lparr>b2_h := map (\<lambda>i. blake2b_IV ! i) [0..<8]\<rparr>"

definition blake2b_init_param :: "blake2b_state \<Rightarrow> blake2b_param \<Rightarrow> (int \<times> blake2b_state) option"
where
  "blake2b_init_param S P = do {
     let p = param_bytes P;
     let S = blake2b_init0 S;
     ws \<leftarrow> those (map (\<lambda>i. load64 p (8 * i)) [0..<8]);
     let S = S\<lparr>b2_h := map (\<lambda>i. b2_h S ! i XOR ws ! i) [0..<8]\<rparr>;
     Some (0, S\<lparr>b2_outlen := unat (digest_length P)\<rparr>)
   }"

section \<open>Compression\<close>

definition blake2b_G :: "u64 list \<Rightarrow> nat \<Rightarrow> nat \<Rightarrow> nat \<Rightarrow> nat \<Rightarrow> nat \<Rightarrow> nat \<Rightarrow> u64 list \<Rightarrow> u64 list"
where
  "blake2b_G m r i a b c d v =
     (let v = v[a := v ! a + v ! b + m ! (blake2b_sigma ! r ! (2 * i + 0))];
          v = v[d := rotr64 (v ! d XOR v ! a) 32];
          v = v[c := v ! c + v ! d];
          v = v[b := rotr64 (v ! b XOR v ! c) 24];
          v = v[a := v ! a + v ! b + m ! (blake2b_sigma ! r ! (2 * i + 1))];
          v = v[d := rotr64 (v ! d XOR v ! a) 16];
          v = v[c := v ! c + v ! d];
          v = v[b := rotr64 (v ! b XOR v ! c) 63]
      in v)"

definition blake2b_ROUND :: "u64 list \<Rightarrow> nat \<Rightarrow> u64 list \<Rightarrow> u64 list" where
  "blake2b_ROUND m r v =
     (let v = blake2b_G m r 0 0 4 8 12 v;
          v = blake2b_G m r 1 1 5 9 13 v;
          v = blake2b_G m r 2 2 6 10 14 v;
          v = blake2b_G m r 3 3 7 11 15 v;
          v = blake2b_G m r 4 0 5 10 15 v;
          v = blake2b_G m r 5 1 6 11 12 v;
          v = blake2b_G m r 6 2 7 8 13 v;
          v = blake2b_G m r 7 3 4 9 14 v
      in v)"

definition blake2b_compress :: "blake2b_state \<Rightarrow> bytes \<Rightarrow> blake2b_state option" where
  "blake2b_compress S block = do {
     m \<leftarrow> those (map (\<lambda>i. load64 block (i * 8)) [0..<16]);
     let v = map (\<lambda>i. b2_h S ! i) [0..<8] @
       [blake2b_IV ! 0, blake2b_IV ! 1, blake2b_IV ! 2, blake2b_IV ! 3,
        blake2b_IV ! 4 XOR b2_t S ! 0, blake2b_IV ! 5 XOR b2_t S ! 1,
        blake2b_IV ! 6 XOR b2_f S ! 0, blake2b_IV ! 7 XOR b2_f S ! 1];
     let v = blake2b_ROUND m 0 v;
     let v = blake2b_ROUND m 1 v;
     let v = blake2b_ROUND m 2 v;
     let v = blake2b_ROUND m 3 v;
     let v = blake2b_ROUND m 4 v;
     let v = blake2b_ROUND m 5 v;
     let v = blake2b_ROUND m 6 v;
     let v = blake2b_ROUND m 7 v;
     let v = blake2b_ROUND m 8 v;
     let v = blake2b_ROUND m 9 v;
     let v = blake2b_ROUND m 10 v;
     let v = blake2b_ROUND m 11 v;
     Some (S\<lparr>b2_h := map (\<lambda>i. b2_h S ! i XOR v ! i XOR v ! (i + 8)) [0..<8]\<rparr>)
   }"

section \<open>Streaming interface\<close>

text \<open>
  The loop over whole blocks of the input: \<open>off\<close> is how far the pointer \<open>in\<close> has moved
  into the caller's bytes and \<open>n\<close> the bytes that remain.
\<close>

function blake2b_update_loop ::
  "blake2b_state \<Rightarrow> bytes \<Rightarrow> nat \<Rightarrow> nat \<Rightarrow> (blake2b_state \<times> nat \<times> nat) option"
where
  "blake2b_update_loop S pin off n =
     (if n > 128 then do {
        let S = blake2b_increment_counter S 128;
        block \<leftarrow> mem_read pin off 128;
        S \<leftarrow> blake2b_compress S block;
        blake2b_update_loop S pin (off + 128) (n - 128)
      } else Some (S, off, n))"
  by pat_completeness auto
termination
  by (relation "measure (\<lambda>(S, pin, off, n). n)") auto

declare blake2b_update_loop.simps [simp del]

definition blake2b_update :: "blake2b_state \<Rightarrow> bytes \<Rightarrow> nat \<Rightarrow> (int \<times> blake2b_state) option" where
  "blake2b_update S pin inlen =
     (if inlen > 0 then do {
        let left = b2_buflen S;
        let fill = 128 - left;
        (S, off, inlen) \<leftarrow>
          (if inlen > fill then do {
             let S = S\<lparr>b2_buflen := 0\<rparr>;
             d \<leftarrow> mem_read pin 0 fill;
             b \<leftarrow> mem_write (b2_buf S) left d;
             let S = S\<lparr>b2_buf := b\<rparr>;
             let S = blake2b_increment_counter S 128;
             S \<leftarrow> blake2b_compress S (b2_buf S);
             blake2b_update_loop S pin fill (inlen - fill)
           } else Some (S, 0, inlen));
        d \<leftarrow> mem_read pin off inlen;
        b \<leftarrow> mem_write (b2_buf S) (b2_buflen S) d;
        Some (0, S\<lparr>b2_buf := b, b2_buflen := b2_buflen S + inlen\<rparr>)
      } else Some (0, S))"

text \<open>The destination is \<open>None\<close> for a null pointer.\<close>

definition blake2b_final ::
  "blake2b_state \<Rightarrow> bytes option \<Rightarrow> nat \<Rightarrow> (int \<times> blake2b_state \<times> bytes option) option"
where
  "blake2b_final S out olen =
     (case out of None \<Rightarrow> Some (-1, S, out)
      | Some dst \<Rightarrow>
        if olen < b2_outlen S then Some (-1, S, out)
        else if blake2b_is_lastblock S then Some (-1, S, out)
        else do {
          let S = blake2b_increment_counter S (word_of_nat (b2_buflen S));
          let S = blake2b_set_lastblock S;
          b \<leftarrow> mem_write (b2_buf S) (b2_buflen S) (zeros (128 - b2_buflen S));
          let S = S\<lparr>b2_buf := b\<rparr>;
          S \<leftarrow> blake2b_compress S (b2_buf S);
          let buffer = concat (map (\<lambda>i. store64 (b2_h S ! i)) [0..<8]);
          d \<leftarrow> mem_read buffer 0 (b2_outlen S);
          dst \<leftarrow> mem_write dst 0 d;
          Some (0, S, Some dst)
        })"

definition blake2b_init :: "blake2b_state \<Rightarrow> nat \<Rightarrow> (int \<times> blake2b_state) option" where
  "blake2b_init S olen =
     (if olen = 0 \<or> olen > 64 then Some (-1, S)
      else blake2b_init_param S
        \<lparr>digest_length = word_of_nat olen, key_length = 0, fanout = 1, depth = 1,
         leaf_length = store32 0, node_offset = store32 0, xof_length = store32 0,
         node_depth = 0, inner_length = 0, reserved = zeros 14, salt = zeros 16,
         personal = zeros 16\<rparr>)"

definition blake2b_init_key ::
  "blake2b_state \<Rightarrow> nat \<Rightarrow> bytes option \<Rightarrow> nat \<Rightarrow> (int \<times> blake2b_state) option"
where
  "blake2b_init_key S olen key keylen =
     (if olen = 0 \<or> olen > 64 then Some (-1, S)
      else case key of None \<Rightarrow> Some (-1, S)
      | Some k \<Rightarrow>
        if keylen = 0 \<or> keylen > 64 then Some (-1, S)
        else do {
          (r, S) \<leftarrow> blake2b_init_param S
            \<lparr>digest_length = word_of_nat olen, key_length = word_of_nat keylen,
             fanout = 1, depth = 1,
             leaf_length = store32 0, node_offset = store32 0, xof_length = store32 0,
             node_depth = 0, inner_length = 0, reserved = zeros 14, salt = zeros 16,
             personal = zeros 16\<rparr>;
          if r < 0 then Some (-1, S)
          else do {
            kb \<leftarrow> mem_read k 0 keylen;
            block \<leftarrow> mem_write (zeros 128) 0 kb;
            (_, S) \<leftarrow> blake2b_update S block 128;
            Some (0, S)
          }
        })"

text \<open>
  The one-call interface: \<open>out\<close>, \<open>in\<close> and \<open>key\<close> may be null; the results of
  the update and of the finalisation are ignored, as in the code.
\<close>

definition blake2b ::
  "bytes option \<Rightarrow> nat \<Rightarrow> bytes option \<Rightarrow> nat \<Rightarrow> bytes option \<Rightarrow> nat \<Rightarrow> (int \<times> bytes option) option"
where
  "blake2b out olen inp inlen key keylen =
     (if inp = None \<and> inlen > 0 then Some (-1, out)
      else if out = None then Some (-1, out)
      else if key = None \<and> keylen > 0 then Some (-1, out)
      else if olen = 0 \<or> olen > 64 then Some (-1, out)
      else if keylen > 64 then Some (-1, out)
      else do {
        (r, S) \<leftarrow> (if keylen > 0 then blake2b_init_key zero_blake2b_state olen key keylen
                  else blake2b_init zero_blake2b_state olen);
        if r < 0 then Some (-1, out)
        else do {
          (_, S) \<leftarrow> blake2b_update S (case inp of None \<Rightarrow> [] | Some i \<Rightarrow> i) inlen;
          (_, S, out) \<leftarrow> blake2b_final S out olen;
          Some (0, out)
        }
      })"

definition blake2 ::
  "bytes option \<Rightarrow> nat \<Rightarrow> bytes option \<Rightarrow> nat \<Rightarrow> bytes option \<Rightarrow> nat \<Rightarrow> (int \<times> bytes option) option"
where
  "blake2 out olen inp inlen key keylen = blake2b out olen inp inlen key keylen"

end
