(* ===== verification/Blake2b_Spec.thy ===== *)
theory Blake2b_Spec
  imports Blake2b
begin

text \<open>
  BLAKE2b as RFC 7693 describes it, on whole messages, and the proof that the streaming
  implementation computes it for every way of cutting the message into updates. The
  reference works on lists and natural numbers: the compression function \<open>rfc_F\<close> with its
  mixing function, and \<open>absorb\<close>, which compresses all but the last block (a block is
  only compressed when a byte beyond it is known to follow).
\<close>

section \<open>The reference\<close>

definition rfc_G :: "u64 list \<Rightarrow> nat \<times> nat \<times> nat \<times> nat \<Rightarrow> u64 \<Rightarrow> u64 \<Rightarrow> u64 list" where
  "rfc_G v ix x y = (case ix of (a, b, c, d) \<Rightarrow>
     let v = v[a := v ! a + v ! b + x];
         v = v[d := word_rotr 32 (v ! d XOR v ! a)];
         v = v[c := v ! c + v ! d];
         v = v[b := word_rotr 24 (v ! b XOR v ! c)];
         v = v[a := v ! a + v ! b + y];
         v = v[d := word_rotr 16 (v ! d XOR v ! a)];
         v = v[c := v ! c + v ! d]
     in v[b := word_rotr 63 (v ! b XOR v ! c)])"

definition rfc_indices :: "(nat \<times> nat \<times> nat \<times> nat) list" where
  "rfc_indices = [(0, 4, 8, 12), (1, 5, 9, 13), (2, 6, 10, 14), (3, 7, 11, 15),
     (0, 5, 10, 15), (1, 6, 11, 12), (2, 7, 8, 13), (3, 4, 9, 14)]"

definition rfc_round :: "u64 list \<Rightarrow> nat list \<Rightarrow> u64 list \<Rightarrow> u64 list" where
  "rfc_round m s v =
     foldl (\<lambda>v i. rfc_G v (rfc_indices ! i) (m ! (s ! (2 * i))) (m ! (s ! (2 * i + 1)))) v [0..<8]"

definition rfc_words :: "bytes \<Rightarrow> u64 list" where
  "rfc_words block = map (\<lambda>i. le_word (take 8 (drop (8 * i) block))) [0..<16]"

definition rfc_F :: "u64 list \<Rightarrow> bytes \<Rightarrow> nat \<Rightarrow> bool \<Rightarrow> u64 list" where
  "rfc_F h block t final =
     (let v = h @ blake2b_IV;
          v = v[12 := v ! 12 XOR word_of_nat t, 13 := v ! 13 XOR word_of_nat (t div 2 ^ 64)];
          v = (if final then v[14 := NOT (v ! 14)] else v);
          v = foldl (\<lambda>v r. rfc_round (rfc_words block) (blake2b_sigma ! (r mod 10)) v) v [0..<12]
      in map (\<lambda>i. h ! i XOR v ! i XOR v ! (i + 8)) [0..<8])"

function absorb :: "u64 list \<Rightarrow> nat \<Rightarrow> bytes \<Rightarrow> u64 list \<times> nat \<times> bytes" where
  "absorb h t data =
     (if length data \<le> 128 then (h, t, data)
      else absorb (rfc_F h (take 128 data) (t + 128) False) (t + 128) (drop 128 data))"
  by pat_completeness auto
termination
  by (relation "measure (\<lambda>(h, t, data). length data)") auto

declare absorb.simps [simp del]

definition rfc_h0 :: "nat \<Rightarrow> nat \<Rightarrow> u64 list" where
  "rfc_h0 nn kk = blake2b_IV[0 := blake2b_IV ! 0 XOR word_of_nat (0x01010000 + 256 * kk + nn)]"

definition pad128 :: "bytes \<Rightarrow> bytes" where
  "pad128 bs = bs @ zeros (128 - length bs)"

definition rfc_digest :: "nat \<Rightarrow> u64 list \<times> nat \<times> bytes \<Rightarrow> bytes" where
  "rfc_digest nn htr = (case htr of (h, t, r) \<Rightarrow>
     take nn (concat (map (le_bytes 8) (rfc_F h (pad128 r) (t + length r) True))))"

definition rfc_blake2b :: "nat \<Rightarrow> bytes \<Rightarrow> bytes \<Rightarrow> bytes" where
  "rfc_blake2b nn key msg =
     rfc_digest nn (absorb (rfc_h0 nn (length key)) 0
       ((if key = [] then [] else pad128 key) @ msg))"

lemma length_pad128 [simp]: "length bs \<le> 128 \<Longrightarrow> length (pad128 bs) = 128"
  by (simp add: pad128_def)

lemma length_blake2b_IV [simp]: "length blake2b_IV = 8"
  by (simp add: blake2b_IV_def)

lemma length_rfc_F [simp]: "length (rfc_F h block t final) = 8"
  by (simp add: rfc_F_def Let_def)

lemma length_rfc_h0 [simp]: "length (rfc_h0 nn kk) = 8"
  by (simp add: rfc_h0_def)

text \<open>Absorbing in two parts: the bytes left over by the first part open the second.\<close>

lemma absorb_append:
  "absorb h t (a @ b) = (case absorb h t a of (h', t', r) \<Rightarrow> absorb h' t' (r @ b))"
proof (induction h t a rule: absorb.induct)
  case (1 h t a)
  show ?case
  proof (cases "length a \<le> 128")
    case True
    then show ?thesis by (simp add: absorb.simps [of h t a])
  next
    case False
    then have "absorb h t (a @ b) =
        absorb (rfc_F h (take 128 a) (t + 128) False) (t + 128) (drop 128 a @ b)"
      by (simp add: absorb.simps [of h t "a @ b"])
    with "1.IH" [OF False] False show ?thesis by (simp add: absorb.simps [of h t a])
  qed
qed

lemma absorb_short: "length a \<le> 128 \<Longrightarrow> absorb h t a = (h, t, a)"
  by (simp add: absorb.simps)

lemma absorb_long:
  "128 < length a \<Longrightarrow> absorb h t a =
     absorb (rfc_F h (take 128 a) (t + 128) False) (t + 128) (drop 128 a)"
  by (simp add: absorb.simps [of h t a])

section \<open>The compression function\<close>

lemma load64_le_word:
  assumes "off + 8 \<le> length src"
  shows "load64 src off = Some (le_word (take 8 (drop off src)))"
proof -
  obtain d where d: "drop off src = d" by simp
  have "8 \<le> length d" using assms by (simp flip: d)
  then obtain a b c d e f g i r where "drop off src = a # b # c # d # e # f # g # i # r"
    unfolding d by (auto simp: numeral_eq_Suc Suc_le_length_iff)
  then show ?thesis using assms
    by (simp add: load64_def mem_read_def push_bit_or push_bit_push_bit or.assoc)
qed

lemma store64_le_bytes: "store64 w = le_bytes 8 w"
  by (simp add: store64_def numeral_eq_Suc drop_bit_drop_bit)

lemma store32_0 [simp]: "store32 0 = zeros 4"
  by (simp add: store32_def zeros_def numeral_eq_Suc)

lemma rotr64_word_rotr:
  assumes "0 < c" and "c < 64"
  shows "rotr64 w c = word_rotr c w"
proof (rule bit_word_eqI)
  fix n assume "n < LENGTH(64)"
  then have n: "n < 64" by simp
  show "bit (rotr64 w c) n = bit (word_rotr c w) n"
  proof (cases "n + c < 64")
    case True
    with n assms show ?thesis
      by (auto simp: rotr64_def bit_or_iff bit_drop_bit_eq bit_push_bit_iff bit_word_rotr_iff add.commute)
  next
    case False
    then have "(n + c) mod 64 = n + c - 64" using n assms by (simp add: mod_if)
    moreover have "\<not> bit w (c + n)" using False by (auto dest: bit_imp_le_length)
    ultimately show ?thesis using n assms False
      by (auto simp: rotr64_def bit_or_iff bit_drop_bit_eq bit_push_bit_iff bit_word_rotr_iff)
  qed
qed

lemma blake2b_G_rfc:
  "blake2b_G m r i a b c d v = rfc_G v (a, b, c, d) (m ! (blake2b_sigma ! r ! (2 * i)))
     (m ! (blake2b_sigma ! r ! (2 * i + 1)))"
  by (simp add: blake2b_G_def rfc_G_def Let_def rotr64_word_rotr)

lemma blake2b_ROUND_rfc: "blake2b_ROUND m r v = rfc_round m (blake2b_sigma ! r) v"
  by (simp add: blake2b_ROUND_def rfc_round_def rfc_indices_def blake2b_G_rfc Let_def numeral_eq_Suc)

lemma length_rfc_G [simp]: "length (rfc_G v ix x y) = length v"
  by (simp add: rfc_G_def Let_def split: prod.split)

definition counter :: "nat \<Rightarrow> u64 list" where
  "counter n = [word_of_nat n, word_of_nat (n div 2 ^ 64)]"

lemma those_map_Some: "(\<And>x. x \<in> set xs \<Longrightarrow> f x = Some (g x)) \<Longrightarrow> those (map f xs) = Some (map g xs)"
  by (induction xs) auto

lemma blake2b_compress_rfc:
  assumes "length block = 128" and "length (b2_h S) = 8" and "b2_t S = counter n"
    and "b2_f S = [if final then -1 else 0, 0]"
  shows "blake2b_compress S block = Some (S\<lparr>b2_h := rfc_F (b2_h S) block n final\<rparr>)"
proof -
  have m: "those (map (\<lambda>i. load64 block (i * 8)) [0..<16]) = Some (rfc_words block)"
    unfolding rfc_words_def using assms(1)
    by (intro those_map_Some) (simp add: load64_le_word mult.commute)
  have h: "map (\<lambda>i. b2_h S ! i) [0..<8] = b2_h S"
    using assms(2) by (metis map_nth)
  obtain a b c d e f g i where hs: "b2_h S = [a, b, c, d, e, f, g, i]"
    using assms(2) by (auto simp: numeral_eq_Suc length_Suc_conv)
  have iv: "blake2b_IV = [blake2b_IV ! 0, blake2b_IV ! 1, blake2b_IV ! 2, blake2b_IV ! 3,
      blake2b_IV ! 4, blake2b_IV ! 5, blake2b_IV ! 6, blake2b_IV ! 7]"
    by (simp add: blake2b_IV_def)
  define V where "V =
      (let v = b2_h S @ blake2b_IV;
          v = v[12 := v ! 12 XOR word_of_nat n, 13 := v ! 13 XOR word_of_nat (n div 2 ^ 64)]
       in (if final then v[14 := NOT (v ! 14)] else v))"
  have v0: "b2_h S @ [blake2b_IV ! 0, blake2b_IV ! 1, blake2b_IV ! 2, blake2b_IV ! 3,
        blake2b_IV ! 4 XOR b2_t S ! 0, blake2b_IV ! 5 XOR b2_t S ! 1,
        blake2b_IV ! 6 XOR b2_f S ! 0, blake2b_IV ! 7 XOR b2_f S ! 1] = V"
    unfolding V_def by (subst (5) iv) (simp add: hs assms(3,4) counter_def Let_def)
  have rows: "blake2b_sigma ! 10 = blake2b_sigma ! 0" "blake2b_sigma ! 11 = blake2b_sigma ! 1"
    by (simp_all add: blake2b_sigma_def)
  have up: "[0..<12] = [0, 1, 2, 3, 4, 5, 6, 7, 8, 9, 10, 11]" by (simp add: upt_rec)
  define V' where "V' = foldl (\<lambda>v r. rfc_round (rfc_words block) (blake2b_sigma ! (r mod 10)) v) V [0..<12]"
  have F: "rfc_F (b2_h S) block n final = map (\<lambda>i. b2_h S ! i XOR V' ! i XOR V' ! (i + 8)) [0..<8]"
    by (simp only: rfc_F_def V'_def V_def Let_def)
  have "blake2b_ROUND (rfc_words block) 11 (blake2b_ROUND (rfc_words block) 10
      (blake2b_ROUND (rfc_words block) 9 (blake2b_ROUND (rfc_words block) 8
      (blake2b_ROUND (rfc_words block) 7 (blake2b_ROUND (rfc_words block) 6
      (blake2b_ROUND (rfc_words block) 5 (blake2b_ROUND (rfc_words block) 4
      (blake2b_ROUND (rfc_words block) 3 (blake2b_ROUND (rfc_words block) 2
      (blake2b_ROUND (rfc_words block) 1 (blake2b_ROUND (rfc_words block) 0 V))))))))))) = V'"
    by (simp add: V'_def blake2b_ROUND_rfc rows up)
  then show ?thesis
    unfolding F by (simp only: blake2b_compress_def m h v0 Let_def bind.bind_lunit)
qed

end
