(* ===== verification/Blake2b_Stream.thy ===== *)
theory Blake2b_Stream 
  imports Blake2b_Spec
begin

text \<open>
  The streaming interface of \<open>src/import/blake2b.c\<close> against the reference: a state stands
  for the bytes absorbed so far, an update absorbs its argument however the message is cut,
  and finalising gives the digest. The contract of such a stream is the locale
  \<open>hash_stream\<close>, interpreted on \<open>blake2b_update\<close> and \<open>blake2b_final\<close>;
  the clients (\<open>Sighash\<close>, \<open>Personal_Message\<close>) use its rules.
\<close>

section \<open>What a state stands for\<close>

text \<open>
  What a state stands for: the chaining value, the count of compressed bytes and the bytes
  that wait in the buffer, for a hash of \<open>nn\<close> bytes.
\<close>

definition repr :: "nat \<Rightarrow> blake2b_state \<Rightarrow> u64 list \<times> nat \<times> bytes \<Rightarrow> bool" where
  "repr nn S htr \<longleftrightarrow> (case htr of (h, n, r) \<Rightarrow>
     b2_h S = h \<and> length h = 8 \<and> b2_t S = counter n \<and> b2_f S = [0, 0] \<and>
     length (b2_buf S) = 128 \<and> b2_buflen S = length r \<and> length r \<le> 128 \<and>
     take (length r) (b2_buf S) = r \<and> b2_outlen S = nn \<and> b2_last_node S = 0)"

lemma wrap_less:
  fixes x k m :: nat
  assumes "x < m" and "k < m"
  shows "(x + k) mod m < k \<longleftrightarrow> m \<le> x + k"
proof (cases "m \<le> x + k")
  case True
  then have "(x + k) mod m = x + k - m" using assms by (simp add: le_mod_geq)
  with True assms show ?thesis by simp
qed simp

lemma wrap_div:
  fixes x k m :: nat
  assumes "x < m" and "k < m" and "m \<le> x + k"
  shows "(x + k) div m = 1"
  using assms by (simp add: le_div_geq less_diff_conv2)

lemma carry_arith:
  fixes n k m :: nat
  assumes "k < m"
  shows "(n + k) mod m < k \<longleftrightarrow> m \<le> n mod m + k"
    and "(n + k) div m = n div m + (if m \<le> n mod m + k then 1 else 0)"
proof -
  have m: "0 < m" using assms by simp
  have nk: "n + k = (n mod m + k) + n div m * m" by simp
  have r: "n mod m < m" using m by simp
  have md: "(n + k) mod m = (n mod m + k) mod m"
    by (subst nk) (simp only: mod_mult_self1)
  have dv: "(n + k) div m = n div m + (n mod m + k) div m"
    using m by (subst nk) (simp only: div_mult_self1 add.commute)
  show "(n + k) mod m < k \<longleftrightarrow> m \<le> n mod m + k"
    unfolding md by (rule wrap_less [OF r assms])
  show "(n + k) div m = n div m + (if m \<le> n mod m + k then 1 else 0)"
    unfolding dv using r assms
    by (cases "m \<le> n mod m + k") (simp_all add: wrap_div)
qed

lemma unat_u64_of_nat: "unat (word_of_nat x :: u64) = x mod 2 ^ 64"
  by (simp add: unat_of_nat)

lemma increment_counter:
  assumes "b2_t S = counter n" and "k < 2 ^ 64"
  shows "blake2b_increment_counter S (word_of_nat k) = S\<lparr>b2_t := counter (n + k)\<rparr>"
proof -
  define m :: nat where "m = 2 ^ 64"
  have k: "k < m" using assms(2) by (simp only: m_def)
  have u: "unat (word_of_nat x :: u64) = x mod m" for x by (simp only: m_def unat_u64_of_nat)
  have "(word_of_nat (n + k) :: u64) < word_of_nat k \<longleftrightarrow> m \<le> n mod m + k"
    unfolding word_less_nat_alt u using carry_arith(1) [OF k, of n] k by (simp only: mod_less)
  then have hi: "word_of_nat ((n + k) div m) = word_of_nat (n div m) +
      (if (word_of_nat (n + k) :: u64) < word_of_nat k then 1 else (0 :: u64))"
    using carry_arith(2) [OF k, of n] by (simp split: if_splits)
  have t: "b2_t S = [word_of_nat n, word_of_nat (n div m)]"
    using assms(1) by (simp only: m_def counter_def)
  have "blake2b_increment_counter S (word_of_nat k) =
      S\<lparr>b2_t := [word_of_nat (n + k), word_of_nat ((n + k) div m)]\<rparr>"
    unfolding hi by (simp add: blake2b_increment_counter_def Let_def t)
  then show ?thesis by (simp only: counter_def m_def)
qed


lemma counter_0: "[0, 0] = counter 0"
  by (simp add: counter_def)

lemma repr_compress:
  assumes "repr nn S (h, n, r)" and "length block = 128"
  shows "blake2b_compress (blake2b_increment_counter S 128) block =
      Some (S\<lparr>b2_t := counter (n + 128), b2_h := rfc_F h block (n + 128) False\<rparr>)"
  using assms increment_counter [of S n 128]
    blake2b_compress_rfc [of block "S\<lparr>b2_t := counter (n + 128)\<rparr>" "n + 128" False]
  by (simp add: repr_def)

lemma update_loop:
  assumes "repr nn S (h, n, [])" and "off + k \<le> length pin"
  shows "\<exists>S' off' k' h' n'. blake2b_update_loop S pin off k = Some (S', off', k') \<and>
      off' + k' = off + k \<and> k' \<le> 128 \<and> repr nn S' (h', n', []) \<and>
      absorb h n (take k (drop off pin)) = (h', n', take k' (drop off' pin))"
  using assms
proof (induction k arbitrary: S h n off rule: less_induct)
  case (less k)
  show ?case
  proof (cases "128 < k")
    case False
    then show ?thesis using less.prems
      by (simp add: blake2b_update_loop.simps [of S pin off k] absorb_short)
  next
    case True
    define block where "block = take 128 (drop off pin)"
    define S1 where "S1 = S\<lparr>b2_t := counter (n + 128), b2_h := rfc_F h block (n + 128) False\<rparr>"
    have b: "length block = 128" using True less.prems by (simp add: block_def)
    have step: "blake2b_update_loop S pin off k = blake2b_update_loop S1 pin (off + 128) (k - 128)"
      using True less.prems repr_compress [OF less.prems(1) b]
      by (simp add: blake2b_update_loop.simps [of S pin off k] mem_read_Some S1_def block_def)
    have r: "repr nn S1 (rfc_F h block (n + 128) False, n + 128, [])"
      using less.prems(1) by (simp add: repr_def S1_def)
    have ab: "absorb h n (take k (drop off pin)) =
        absorb (rfc_F h block (n + 128) False) (n + 128) (take (k - 128) (drop (off + 128) pin))"
      using True less.prems
      by (subst absorb_long) (auto simp: block_def min_absorb1 drop_take add.commute)
    show ?thesis
      using less.IH [OF _ r, of "k - 128" "off + 128"] True less.prems
      unfolding step ab by fastforce
  qed
qed

lemma repr_fill:
  assumes "repr nn S (h, n, r)" and "length r + length d \<le> 128"
  shows "mem_write (b2_buf S) (b2_buflen S) d =
      Some (r @ d @ drop (length r + length d) (b2_buf S))"
    and "repr nn (S\<lparr>b2_buf := r @ d @ drop (length r + length d) (b2_buf S),
      b2_buflen := length r + length d\<rparr>) (h, n, r @ d)"
  using assms by (auto simp: repr_def mem_write_Some)

lemma blake2b_update_absorbs:
  assumes r: "repr nn S (h, n, r)" and len: "inlen \<le> length pin"
  shows "\<exists>S'. blake2b_update S pin inlen = Some (0, S') \<and>
      repr nn S' (absorb h n (r @ take inlen pin))"
proof -
  have lr: "length r \<le> 128" and bl: "b2_buflen S = length r" using r by (auto simp: repr_def)
  consider "inlen = 0" | "0 < inlen" "inlen \<le> 128 - length r" | "128 - length r < inlen"
    by linarith
  then show ?thesis
  proof cases
    case 1
    then show ?thesis using r lr by (simp add: blake2b_update_def absorb_short)
  next
    case 2
    then have d: "length r + length (take inlen pin) \<le> 128" using lr by simp
    have "absorb h n (r @ take inlen pin) = (h, n, r @ take inlen pin)"
      using d by (simp add: absorb_short)
    then show ?thesis using 2 len repr_fill [OF r d] bl
      by (simp add: blake2b_update_def Let_def mem_read_Some min_absorb2)
  next
    case 3
    define fill where "fill = 128 - length r"
    define block where "block = r @ take fill pin"
    have f: "fill < inlen" "length r + fill = 128" using 3 lr by (simp_all add: fill_def)
    have b: "length block = 128" using f len by (simp add: block_def)
    define S1 where "S1 = S\<lparr>b2_buflen := 0, b2_buf := block\<rparr>"
    define S2 where
      "S2 = S1\<lparr>b2_t := counter (n + 128), b2_h := rfc_F h block (n + 128) False\<rparr>"
    have w: "mem_write (b2_buf S) (length r) (take fill pin) = Some block"
      using repr_fill(1) [OF r, of "take fill pin"] f len r
      by (simp add: block_def min_absorb2 repr_def)
    have r1: "repr nn S1 (h, n, [])" using r b by (simp add: repr_def S1_def)
    have c: "blake2b_compress (blake2b_increment_counter S1 128) block = Some S2"
      using repr_compress [OF r1 b] by (simp add: S2_def)
    have inc: "b2_buf (blake2b_increment_counter S1 128) = block"
      by (simp add: blake2b_increment_counter_def Let_def S1_def)
    have r2: "repr nn S2 (rfc_F h block (n + 128) False, n + 128, [])"
      using r1 b by (simp add: repr_def S2_def)
    have "fill + (inlen - fill) \<le> length pin" using f len by simp
    from update_loop [OF r2 this] obtain S' off' k' h' n' where
      l: "blake2b_update_loop S2 pin fill (inlen - fill) = Some (S', off', k')"
        "off' + k' = inlen" "k' \<le> 128" and r': "repr nn S' (h', n', [])"
      and ab: "absorb (rfc_F h block (n + 128) False) (n + 128) (take (inlen - fill) (drop fill pin)) =
        (h', n', take k' (drop off' pin))"
      using f by auto
    have "take inlen pin = take fill pin @ take (inlen - fill) (drop fill pin)"
      using f by (metis less_imp_le le_add_diff_inverse take_add)
    then have "r @ take inlen pin = block @ take (inlen - fill) (drop fill pin)"
      by (simp add: block_def)
    then have abs: "absorb h n (r @ take inlen pin) = (h', n', take k' (drop off' pin))"
      using ab b f len by (subst absorb_long) simp_all
    have d: "length [] + length (take k' (drop off' pin)) \<le> 128" using l by simp
    have k: "length (take k' (drop off' pin)) = k'" "off' + k' \<le> length pin"
      using l len by simp_all
    have u: "blake2b_update S pin inlen = Some (0, S'\<lparr>
        b2_buf := take k' (drop off' pin) @ drop k' (b2_buf S'), b2_buflen := k'\<rparr>)"
      using f len w c l repr_fill(1) [OF r' d] k r'
      by (simp add: blake2b_update_def Let_def bl mem_read_Some inc repr_def
          flip: fill_def S1_def)
    show ?thesis using repr_fill(2) [OF r' d] k unfolding u abs by simp
  qed
qed

section \<open>Starting and finishing\<close>

lemma le_word_Cons_add: "(le_word (b # bs) :: 'a::len word) = ucast b + 2 ^ 8 * le_word bs"
proof -
  have b: "\<not> bit b n" if "8 \<le> n" for n using that by (auto dest: bit_imp_le_length)
  have "ucast b OR push_bit 8 (le_word bs) = ucast b + (push_bit 8 (le_word bs) :: 'a word)"
    by (rule disjunctive_add_eq_or [symmetric])
       (auto intro!: bit_word_eqI simp: bit_and_iff bit_ucast_iff bit_push_bit_iff b)
  then show ?thesis by (simp add: push_bit_eq_mult mult.commute)
qed

lemma ucast_u8_of_nat: "x < 256 \<Longrightarrow> (ucast (word_of_nat x :: u8) :: u64) = word_of_nat x"
  by (simp add: unsigned_of_nat take_bit_nat_eq_self)

lemma param_word:
  assumes "nn \<le> 64" and "kk \<le> 64"
  shows "(le_word [word_of_nat nn, word_of_nat kk, 1, 1, 0, 0, 0, 0] :: u64) =
    word_of_nat (0x01010000 + 256 * kk + nn)"
  using assms by (simp only: le_word_Cons_add) (simp add: ucast_u8_of_nat)

lemma le_word_zeros [simp]: "le_word (zeros n) = 0"
  by (induction n) (simp_all add: zeros_def)

definition std_param :: "nat \<Rightarrow> nat \<Rightarrow> blake2b_param" where
  "std_param nn kk = \<lparr>digest_length = word_of_nat nn, key_length = word_of_nat kk,
     fanout = 1, depth = 1, leaf_length = store32 0, node_offset = store32 0,
     xof_length = store32 0, node_depth = 0, inner_length = 0, reserved = zeros 14,
     salt = zeros 16, personal = zeros 16\<rparr>"

lemma param_bytes_std:
  "param_bytes (std_param nn kk) = [word_of_nat nn, word_of_nat kk, 1, 1, 0, 0, 0, 0] @ zeros 56"
  by (simp add: param_bytes_def std_param_def zeros_def numeral_eq_Suc)

lemma init_param:
  assumes "nn \<le> 64" and "kk \<le> 64"
  shows "\<exists>S'. blake2b_init_param S (std_param nn kk) = Some (0, S') \<and>
    repr nn S' (rfc_h0 nn kk, 0, [])"
proof -
  let ?p = "[word_of_nat nn, word_of_nat kk, 1, 1, 0, 0, 0, 0] @ zeros 56"
  let ?ws = "word_of_nat (0x01010000 + 256 * kk + nn) # replicate 7 0"
  have ld: "load64 ?p (8 * i) = Some (?ws ! i)" if "i < 8" for i
  proof -
    obtain p where p: "[word_of_nat nn, word_of_nat kk, 1, 1, 0, 0, 0, 0] = p"
      and l: "length p = 8" and w: "le_word p = (word_of_nat (0x01010000 + 256 * kk + nn) :: u64)"
      using param_word [OF assms] by auto
    show ?thesis using that w unfolding p by (cases i) (simp_all add: load64_le_word l)
  qed
  have ws: "those (map (\<lambda>i. load64 ?p (8 * i)) [0..<8]) = Some (map ((!) ?ws) [0..<8])"
    by (rule those_map_Some) (simp only: ld set_upt atLeastLessThan_iff)
  have u8: "unat (word_of_nat nn :: u8) = nn" using assms by (simp add: unat_of_nat)
  have up: "[0..<8] = [0, 1, 2, 3, 4, 5, 6, 7]" by (simp add: upt_rec)
  have h: "map (\<lambda>i. map ((!) blake2b_IV) [0..<8] ! i XOR map ((!) ?ws) [0..<8] ! i) [0..<8] =
      rfc_h0 nn kk"
    unfolding up by (simp add: rfc_h0_def blake2b_IV_def)
  show ?thesis unfolding blake2b_init_param_def param_bytes_std Let_def ws
    using h by (simp add: repr_def blake2b_init0_def zero_blake2b_state_def u8 counter_def
        std_param_def numeral_2_eq_2)
qed

lemma init_std:
  "blake2b_init S nn = (if nn = 0 \<or> nn > 64 then Some (-1, S) else blake2b_init_param S (std_param nn 0))"
  by (simp add: blake2b_init_def std_param_def)

lemma init_repr:
  assumes "0 < nn" and "nn \<le> 64"
  shows "\<exists>S'. blake2b_init S nn = Some (0, S') \<and> repr nn S' (rfc_h0 nn 0, 0, [])"
  using assms init_param [of nn 0 S] by (simp add: init_std)

lemma init_key_repr:
  assumes "0 < nn" and "nn \<le> 64" and "0 < kk" and "kk \<le> 64" and "kk \<le> length k"
  shows "\<exists>S'. blake2b_init_key S nn (Some k) kk = Some (0, S') \<and>
    repr nn S' (absorb (rfc_h0 nn kk) 0 (pad128 (take kk k)))"
proof -
  obtain S1 where i: "blake2b_init_param S (std_param nn kk) = Some (0, S1)"
    and r: "repr nn S1 (rfc_h0 nn kk, 0, [])" using init_param [of nn kk S] assms by auto
  have b: "mem_write (zeros 128) 0 (take kk k) = Some (pad128 (take kk k))"
    using assms by (simp add: mem_write_Some pad128_def)
  have l: "length (pad128 (take kk k)) = 128" using assms by simp
  obtain S2 where u: "blake2b_update S1 (pad128 (take kk k)) 128 = Some (0, S2)"
    and r2: "repr nn S2 (absorb (rfc_h0 nn kk) 0 (pad128 (take kk k)))"
    using blake2b_update_absorbs [OF r, of 128 "pad128 (take kk k)"] l by auto
  have "blake2b_init_key S nn (Some k) kk = Some (0, S2)"
    using assms i b u unfolding std_param_def
    by (simp add: blake2b_init_key_def mem_read_Some)
  with r2 show ?thesis by blast
qed

lemma final_digest:
  assumes r: "repr nn S (h, n, r)" and "nn \<le> 64" and "nn \<le> olen" and "nn \<le> length dst"
  shows "\<exists>S'. blake2b_final S (Some dst) olen =
    Some (0, S', Some (rfc_digest nn (h, n, r) @ drop nn dst)) \<and> b2_f S' = [-1, 0]"
proof -
  have lr: "length r \<le> 128" and f: "b2_f S = [0, 0]" and t: "b2_t S = counter n"
    and bl: "b2_buflen S = length r" and o': "b2_outlen S = nn" and lh: "length h = 8"
    and h: "b2_h S = h" and ln: "b2_last_node S = 0"
    using r by (auto simp: repr_def)
  define S1 where "S1 = S\<lparr>b2_t := counter (n + length r), b2_f := [-1, 0]\<rparr>"
  have s1: "blake2b_set_lastblock (blake2b_increment_counter S (word_of_nat (length r))) = S1"
    using increment_counter [OF t, of "length r"] lr
    by (simp add: blake2b_set_lastblock_def Let_def ln f S1_def)
  define S2 where "S2 = S1\<lparr>b2_buf := pad128 r\<rparr>"
  have w: "mem_write (b2_buf S1) (length r) (zeros (128 - length r)) = Some (pad128 r)"
    using repr_fill(1) [OF r, of "zeros (128 - length r)"] lr r
    by (simp add: S1_def pad128_def repr_def)
  define H where "H = rfc_F h (pad128 r) (n + length r) True"
  have c: "blake2b_compress S2 (pad128 r) = Some (S2\<lparr>b2_h := H\<rparr>)"
    using blake2b_compress_rfc [of "pad128 r" S2 "n + length r" True] lr lh
    by (simp add: S2_def S1_def h H_def)
  have "map (\<lambda>i. store64 (H ! i)) [0..<8] = map (le_bytes 8) H"
    by (rule nth_equalityI) (simp_all add: H_def store64_le_bytes)
  then have out: "concat (map (\<lambda>i. store64 (H ! i)) [0..<8]) = concat (map (le_bytes 8) H)"
    by simp
  have len: "length (concat (map (le_bytes 8) H)) = 64"
    by (simp add: length_concat comp_def sum_list_triv H_def)
  have o1: "b2_outlen S1 = nn" "b2_buflen S1 = length r" "b2_f S1 = [-1, 0]"
    by (simp_all add: S1_def o' bl)
  have "blake2b_final S (Some dst) olen = Some (0, S2\<lparr>b2_h := H\<rparr>,
      Some (take nn (concat (map (le_bytes 8) H)) @ drop nn dst))"
    using assms(2-4) s1 w c out len
    by (simp add: blake2b_final_def blake2b_is_lastblock_def f o' bl Let_def S2_def o1
        mem_read_Some mem_write_Some)
  then show ?thesis by (simp add: rfc_digest_def H_def S2_def o1)
qed

section \<open>The contract of a hash stream\<close>

text \<open>Feeding a list of chunks one by one.\<close>

primrec feed :: "('s \<Rightarrow> bytes \<Rightarrow> nat \<Rightarrow> (int \<times> 's) option) \<Rightarrow> 's \<Rightarrow> bytes list \<Rightarrow> 's option"
where
  "feed upd s [] = Some s"
| "feed upd s (d # ds) = do { (_, s) \<leftarrow> upd s d (length d); feed upd s ds }"

text \<open>
  \<open>absorbed s m\<close>: the state has absorbed the message \<open>m\<close>. The rules are in the form of
  postconditions (\<open>returns\<close>), so that a client's sequence of calls is verified by
  applying them one after the other.
\<close>

locale hash_stream =
  fixes upd :: "'s \<Rightarrow> bytes \<Rightarrow> nat \<Rightarrow> (int \<times> 's) option"
    and fin :: "'s \<Rightarrow> bytes option \<Rightarrow> nat \<Rightarrow> (int \<times> 's \<times> bytes option) option"
    and absorbed :: "'s \<Rightarrow> bytes \<Rightarrow> bool"
    and digest :: "bytes \<Rightarrow> bytes"
    and dlen :: nat
  assumes upd: "absorbed s m \<Longrightarrow> n \<le> length d \<Longrightarrow>
      \<exists>s'. upd s d n = Some (0, s') \<and> absorbed s' (m @ take n d)"
    and fin: "absorbed s m \<Longrightarrow> dlen \<le> olen \<Longrightarrow> dlen \<le> length dst \<Longrightarrow>
      \<exists>s'. fin s (Some dst) olen = Some (0, s', Some (digest m @ drop dlen dst))"
    and digest_len: "length (digest m) = dlen"
begin

lemma upd_rule:
  assumes "absorbed s m" and "n \<le> length d" and "\<And>s'. absorbed s' (m @ take n d) \<Longrightarrow> Q (0, s')"
  shows "returns (upd s d n) Q"
  using upd [OF assms(1,2)] assms(3) by (auto simp: returns_def)

lemma fin_rule:
  assumes "absorbed s m" and "dlen \<le> olen" and "dlen \<le> length dst"
    and "\<And>s'. Q (0, s', Some (digest m @ drop dlen dst))"
  shows "returns (fin s (Some dst) olen) Q"
  using fin [OF assms(1-3)] assms(4) by (auto simp: returns_def)

lemma feed_absorbs: "absorbed s m \<Longrightarrow> returns (feed upd s ds) (\<lambda>s'. absorbed s' (m @ concat ds))"
proof (induction ds arbitrary: s m)
  case Nil
  then show ?case by simp
next
  case (Cons d ds)
  show ?case
    using Cons.IH [of _ "m @ d"]
    by (auto intro!: returns_bindI upd_rule [OF Cons.prems])
qed

lemma feed_digest:
  assumes "absorbed s []" and "dlen \<le> olen" and "dlen \<le> length dst"
  shows "returns (do { s \<leftarrow> feed upd s ds; fin s (Some dst) olen })
    (\<lambda>(r, _, out). r = 0 \<and> out = Some (digest (concat ds) @ drop dlen dst))"
  by (rule returns_bindI, rule returns_mono [OF feed_absorbs [OF assms(1)]])
     (auto intro: fin_rule assms)

end

definition keyed :: "nat \<Rightarrow> bytes \<Rightarrow> blake2b_state \<Rightarrow> bytes \<Rightarrow> bool" where
  "keyed nn key S msg \<longleftrightarrow> 0 < nn \<and> nn \<le> 64 \<and>
     repr nn S (absorb (rfc_h0 nn (length key)) 0 ((if key = [] then [] else pad128 key) @ msg))"

lemma length_concat_le_bytes: "length (concat (map (le_bytes n) ws)) = n * length ws"
  by (induction ws) auto

lemma length_rfc_blake2b: "nn \<le> 64 \<Longrightarrow> length (rfc_blake2b nn key msg) = nn"
  by (simp add: rfc_blake2b_def rfc_digest_def length_concat_le_bytes split: prod.split)

lemma keyed_update:
  assumes "keyed nn key s m" and "n \<le> length d"
  shows "\<exists>s'. blake2b_update s d n = Some (0, s') \<and> keyed nn key s' (m @ take n d)"
proof -
  obtain h t r where a: "absorb (rfc_h0 nn (length key)) 0
      ((if key = [] then [] else pad128 key) @ m) = (h, t, r)" by (metis prod_cases3)
  then have "repr nn s (h, t, r)" using assms(1) by (simp add: keyed_def)
  from blake2b_update_absorbs [OF this assms(2)] show ?thesis
    using assms(1) absorb_append [of "rfc_h0 nn (length key)" 0
        "(if key = [] then [] else pad128 key) @ m" "take n d"]
    by (simp only: a keyed_def prod.case append_assoc) auto
qed

lemma keyed_final:
  assumes "keyed nn key s m" and "nn \<le> olen" and "nn \<le> length dst"
  shows "\<exists>s'. blake2b_final s (Some dst) olen =
    Some (0, s', Some (rfc_blake2b nn key m @ drop nn dst))"
proof -
  obtain h t r where a: "absorb (rfc_h0 nn (length key)) 0
      ((if key = [] then [] else pad128 key) @ m) = (h, t, r)" by (metis prod_cases3)
  then have "repr nn s (h, t, r)" and "nn \<le> 64" using assms(1) by (simp_all add: keyed_def)
  from final_digest [OF this assms(2,3)] show ?thesis
    by (auto simp only: rfc_blake2b_def a)
qed

lemma init_key_keyed:
  assumes "0 < nn" and "nn \<le> 64" and "0 < kk" and "kk \<le> 64" and "kk \<le> length k"
  shows "\<exists>S'. blake2b_init_key S nn (Some k) kk = Some (0, S') \<and> keyed nn (take kk k) S' []"
  using init_key_repr [OF assms, of S] assms by (auto simp: keyed_def min_absorb2)

lemma init_keyed:
  assumes "0 < nn" and "nn \<le> 64"
  shows "\<exists>S'. blake2b_init S nn = Some (0, S') \<and> keyed nn [] S' []"
  using init_repr [OF assms, of S] assms by (auto simp: keyed_def absorb_short)

text \<open>The signatures of the application are over 32-byte digests.\<close>

interpretation b2: hash_stream blake2b_update blake2b_final "keyed 32 key" "rfc_blake2b 32 key" 32
  by unfold_locales (auto intro: keyed_update keyed_final simp: length_rfc_blake2b)

lemma hash_stream_blake2b:
  assumes "0 < nn" and "nn \<le> 64"
  shows "hash_stream blake2b_update blake2b_final (keyed nn key) (rfc_blake2b nn key) nn"
  using assms by unfold_locales (auto intro: keyed_update keyed_final simp: length_rfc_blake2b)

section \<open>Properties\<close>

text \<open>C25. BLAKE2b in streaming use: for every digest size, key and initial state content,
  initialising with the key, updating with the chunks of a message however it is cut and
  finalising returns success and leaves in the destination the RFC 7693 keyed digest of the whole
  message; no memory outside the buffers is touched.\<close>

theorem blake2b_streaming:
  assumes "0 < nn" and "nn \<le> 64" and "key \<noteq> []" and "length key \<le> 64"
    and "nn \<le> olen" and "nn \<le> length dst"
  shows "returns (do {
      (_, S) \<leftarrow> blake2b_init_key S nn (Some key) (length key);
      S \<leftarrow> feed blake2b_update S chunks;
      blake2b_final S (Some dst) olen })
    (\<lambda>(r, _, out). r = 0 \<and> out = Some (rfc_blake2b nn key (concat chunks) @ drop nn dst))"
proof -
  obtain S' where "blake2b_init_key S nn (Some key) (length key) = Some (0, S')" "keyed nn key S' []"
    using init_key_keyed [of nn "length key" key S] assms by auto
  then show ?thesis
    using hash_stream.feed_digest [OF hash_stream_blake2b] assms by simp
qed

theorem blake2b_streaming_witness:
  "returns (do {
      (_, S) \<leftarrow> blake2b_init_key zero_blake2b_state 32 (Some [75, 101, 121]) 3;
      S \<leftarrow> feed blake2b_update S [replicate 200 1, [], replicate 100 2];
      blake2b_final S (Some (zeros 40)) 40 })
    (\<lambda>(r, _, out). r = 0 \<and>
       out = Some (rfc_blake2b 32 [75, 101, 121] (replicate 200 1 @ replicate 100 2) @ zeros 8))"
  using blake2b_streaming [of 32 "[75, 101, 121]" 40 "zeros 40" zero_blake2b_state
      "[replicate 200 1, [], replicate 100 2]"]
  by (simp add: numeral_3_eq_3)

text \<open>The one-call interface: on valid arguments it returns 0 with the digest in the
  destination, and on a missing input or destination, a missing key of non-zero length, a
  digest size outside 1 to 64 or a key longer than 64 bytes it returns -1 and leaves the
  destination alone.\<close>

theorem blake2b_one_call:
  assumes "\<And>i. inp = Some i \<Longrightarrow> inlen \<le> length i" and "\<And>k. key = Some k \<Longrightarrow> keylen \<le> length k"
    and "\<And>d. out = Some d \<Longrightarrow> olen \<le> length d"
  shows "blake2 out olen inp inlen key keylen = Some
    (if (inp = None \<and> 0 < inlen) \<or> out = None \<or> (key = None \<and> 0 < keylen) \<or>
        olen \<notin> {1..64} \<or> 64 < keylen then (-1, out)
     else (0, Some (rfc_blake2b olen (if keylen = 0 then [] else take keylen (the key))
       (if inlen = 0 then [] else take inlen (the inp)) @ drop olen (the out))))"
proof (cases "(inp = None \<and> 0 < inlen) \<or> out = None \<or> (key = None \<and> 0 < keylen) \<or>
        olen \<notin> {1..64} \<or> 64 < keylen")
  case True
  then show ?thesis by (auto simp: blake2_def blake2b_def)
next
  case False
  then obtain dst where o: "out = Some dst" "olen \<le> length dst" "0 < olen" "olen \<le> 64"
    using assms(3) by auto
  define i where "i = (case inp of None \<Rightarrow> [] | Some i \<Rightarrow> i)"
  define k where "k = (if keylen = 0 then [] else take keylen (the key))"
  have i: "inlen \<le> length i" "take inlen i = (if inlen = 0 then [] else take inlen (the inp))"
    using False assms(1) by (auto simp: i_def split: option.splits)
  have "\<exists>S. (if keylen > 0 then blake2b_init_key zero_blake2b_state olen key keylen
      else blake2b_init zero_blake2b_state olen) = Some (0, S) \<and> keyed olen k S []"
    using False assms(2) o init_keyed [of olen] init_key_keyed [of olen keylen "the key"]
    by (cases "keylen = 0") (auto simp: k_def)
  then obtain S where S: "(if keylen > 0 then blake2b_init_key zero_blake2b_state olen key keylen
      else blake2b_init zero_blake2b_state olen) = Some (0, S)" "keyed olen k S []" by blast
  obtain S' where S': "blake2b_update S i inlen = Some (0, S')" "keyed olen k S' (take inlen i)"
    using keyed_update [OF S(2) i(1)] by auto
  obtain S'' where "blake2b_final S' (Some dst) olen =
      Some (0, S'', Some (rfc_blake2b olen k (take inlen i) @ drop olen dst))"
    using keyed_final [OF S'(2) _ o(2)] by auto
  then show ?thesis using False S(1) S'(1) o i(2)
    unfolding blake2_def blake2b_def i_def [symmetric] k_def [symmetric] by auto
qed

theorem blake2b_one_call_witness:
  "blake2 (Some (zeros 32)) 32 (Some [75, 97, 115, 112, 97]) 5 None 0 =
     Some (0, Some (rfc_blake2b 32 [] [75, 97, 115, 112, 97]))"
  using blake2b_one_call [of "Some [75, 97, 115, 112, 97]" 5 None 0 "Some (zeros 32)" 32] by simp
end
