(* ===== verification/Sighash.thy ===== *)
theory Sighash
  imports Blake2b_Stream Tx_Types Sdk
begin

text \<open>
  The transaction digest of \<open>src/sighash.c\<close>: the hash helpers, the four inner digests
  over all inputs and outputs, the script of the spent output and \<open>calc_sighash\<close>. The
  local hash states and buffers are zeroed here before their first use, as \<open>hash_init\<close> and
  the initialisers do in the code. The reference is the digest of one byte string,
  \<open>sighash_preimage\<close>.
\<close>

section \<open>Hash helpers\<close>

definition SIGNING_KEY :: bytes where
  "SIGNING_KEY = c_bytes ''TransactionSigningHash'' @ [0]"

definition hash_init ::
  "blake2b_state \<Rightarrow> nat \<Rightarrow> bytes option \<Rightarrow> nat \<Rightarrow> (bool \<times> blake2b_state) option"
where
  "hash_init hash sz key key_len =
    (if key = None \<and> key_len \<noteq> 0 then Some (False, hash)
     else if sz mod 8 \<noteq> 0 \<or> sz < 8 \<or> sz > 512 then Some (False, hash)
     else do {
       let hash = zero_blake2b_state;
       let sz = sz div 8;
       (r, hash) \<leftarrow> blake2b_init_key hash sz key key_len;
       if r < 0 then Some (False, hash) else Some (True, hash)
     })"

definition hash_update :: "blake2b_state \<Rightarrow> bytes \<Rightarrow> nat \<Rightarrow> (bool \<times> blake2b_state) option" where
  "hash_update hash data len = do {
     (r, hash) \<leftarrow> blake2b_update hash data len;
     Some (r = 0, hash)
   }"

definition hash_finalize :: "blake2b_state \<Rightarrow> bytes \<Rightarrow> nat \<Rightarrow> (bool \<times> bytes) option" where
  "hash_finalize hash out out_len =
    (if out_len < 32 then Some (False, out)
     else do {
       (r, hash, dst) \<leftarrow> blake2b_final hash (Some out) 32;
       Some (r = 0, case dst of Some d \<Rightarrow> d | None \<Rightarrow> out)
     })"

section \<open>The digests\<close>

text \<open>The body of each loop is a step on the hash state and the scratch buffer.\<close>

definition prev_outputs_step ::
  "write_ops \<Rightarrow> transaction_t \<Rightarrow> nat \<Rightarrow> blake2b_state \<times> bytes \<Rightarrow> (bool \<times> blake2b_state \<times> bytes) option"
where
  "prev_outputs_step W tx i s = (case s of (hash, inner_buffer) \<Rightarrow> do {
       let inner_buffer = zeros 32;
       txi \<leftarrow> arr_get (tx_inputs tx) i;
       inner_buffer \<leftarrow> write_u32_le W inner_buffer 0 (ucast (in_index txi));
       (ok, hash) \<leftarrow> hash_update hash (in_tx_id txi) 32;
       if \<not> ok then Some (False, hash, inner_buffer) else do {
       (ok, hash) \<leftarrow> hash_update hash inner_buffer 4;
       if \<not> ok then Some (False, hash, inner_buffer) else do {
       Some (True, hash, inner_buffer)
     }}})"

definition calc_prev_outputs_hash ::
  "write_ops \<Rightarrow> transaction_t \<Rightarrow> bytes \<Rightarrow> nat \<Rightarrow> (bool \<times> bytes) option"
where
  "calc_prev_outputs_hash W tx out out_len = do {
     let inner_buffer = zeros 32;
     (ok, hash) \<leftarrow> hash_init zero_blake2b_state 256 (Some SIGNING_KEY) 22;
     if \<not> ok then Some (False, out) else do {
       (ok, hash, inner_buffer) \<leftarrow> for_each (prev_outputs_step W tx) [0..<tx_input_len tx] (hash, inner_buffer);
       if \<not> ok then Some (False, out) else hash_finalize hash out out_len
     }
   }"

definition sequences_step ::
  "write_ops \<Rightarrow> transaction_t \<Rightarrow> nat \<Rightarrow> blake2b_state \<times> bytes \<Rightarrow> (bool \<times> blake2b_state \<times> bytes) option"
where
  "sequences_step W tx i s = (case s of (hash, inner_buffer) \<Rightarrow> do {
       let inner_buffer = zeros 32;
       txi \<leftarrow> arr_get (tx_inputs tx) i;
       inner_buffer \<leftarrow> write_u64_le W inner_buffer 0 (in_sequence txi);
       (ok, hash) \<leftarrow> hash_update hash inner_buffer 8;
       if \<not> ok then Some (False, hash, inner_buffer) else do {
       let inner_buffer = zeros 32;
       Some (True, hash, inner_buffer)
     }})"

definition calc_sequences_hash ::
  "write_ops \<Rightarrow> transaction_t \<Rightarrow> bytes \<Rightarrow> nat \<Rightarrow> (bool \<times> bytes) option"
where
  "calc_sequences_hash W tx out out_len = do {
     let inner_buffer = zeros 32;
     (ok, hash) \<leftarrow> hash_init zero_blake2b_state 256 (Some SIGNING_KEY) 22;
     if \<not> ok then Some (False, out) else do {
       (ok, hash, inner_buffer) \<leftarrow> for_each (sequences_step W tx) [0..<tx_input_len tx] (hash, inner_buffer);
       if \<not> ok then Some (False, out) else hash_finalize hash out out_len
     }
   }"

definition sig_op_count_step ::
  "transaction_t \<Rightarrow> nat \<Rightarrow> blake2b_state \<times> bytes \<Rightarrow> (bool \<times> blake2b_state \<times> bytes) option"
where
  "sig_op_count_step tx i s = (case s of (hash, inner_buffer) \<Rightarrow> do {
       inner_buffer \<leftarrow> mem_write inner_buffer 0 [1];
       (ok, hash) \<leftarrow> hash_update hash inner_buffer 1;
       if \<not> ok then Some (False, hash, inner_buffer) else do {
       let inner_buffer = zeros 32;
       Some (True, hash, inner_buffer)
     }})"

definition calc_sig_op_count_hash ::
  "transaction_t \<Rightarrow> bytes \<Rightarrow> nat \<Rightarrow> (bool \<times> bytes) option"
where
  "calc_sig_op_count_hash tx out out_len = do {
     let inner_buffer = zeros 32;
     (ok, hash) \<leftarrow> hash_init zero_blake2b_state 256 (Some SIGNING_KEY) 22;
     if \<not> ok then Some (False, out) else do {
       (ok, hash, inner_buffer) \<leftarrow> for_each (sig_op_count_step tx) [0..<tx_input_len tx] (hash, inner_buffer);
       if \<not> ok then Some (False, out) else hash_finalize hash out out_len
     }
   }"

definition outputs_step ::
  "write_ops \<Rightarrow> transaction_t \<Rightarrow> nat \<Rightarrow> blake2b_state \<times> bytes \<Rightarrow> (bool \<times> blake2b_state \<times> bytes) option"
where
  "outputs_step W tx i s = (case s of (hash, inner_buffer) \<Rightarrow> do {
       let inner_buffer = zeros 32;
       txo \<leftarrow> arr_get (tx_outputs tx) i;
       inner_buffer \<leftarrow> write_u64_le W inner_buffer 0 (out_value txo);
       (ok, hash) \<leftarrow> hash_update hash inner_buffer 8;
       if \<not> ok then Some (False, hash, inner_buffer) else do {
       let inner_buffer = zeros 32;
       (ok, hash) \<leftarrow> hash_update hash inner_buffer 2;
       if \<not> ok then Some (False, hash, inner_buffer) else do {
       s0 \<leftarrow> arr_get (out_script_public_key txo) 0;
       (script_len, inner_buffer) \<leftarrow>
         (if s0 = 0xaa then do {
            inner_buffer \<leftarrow> write_u64_le W inner_buffer 0 35;
            Some (35, inner_buffer)
          } else do {
            let script_len = s0 + 2;
            inner_buffer \<leftarrow> write_u64_le W inner_buffer 0 (ucast script_len);
            Some (script_len, inner_buffer)
          });
       (ok, hash) \<leftarrow> hash_update hash inner_buffer 8;
       if \<not> ok then Some (False, hash, inner_buffer) else do {
       (ok, hash) \<leftarrow> hash_update hash (out_script_public_key txo) (unat script_len);
       if \<not> ok then Some (False, hash, inner_buffer) else do {
       Some (True, hash, inner_buffer)
     }}}}})"

definition calc_outputs_hash ::
  "write_ops \<Rightarrow> transaction_t \<Rightarrow> bytes \<Rightarrow> nat \<Rightarrow> (bool \<times> bytes) option"
where
  "calc_outputs_hash W tx out out_len = do {
     let inner_buffer = zeros 32;
     (ok, hash) \<leftarrow> hash_init zero_blake2b_state 256 (Some SIGNING_KEY) 22;
     if \<not> ok then Some (False, out) else do {
       (ok, hash, inner_buffer) \<leftarrow> for_each (outputs_step W tx) [0..<tx_output_len tx] (hash, inner_buffer);
       if \<not> ok then Some (False, out) else hash_finalize hash out out_len
     }
   }"

definition calc_txin_script_public_key :: "bytes \<Rightarrow> bytes \<Rightarrow> nat \<Rightarrow> (bool \<times> bytes) option" where
  "calc_txin_script_public_key public_key out out_len =
    (if out_len < 34 then Some (False, out)
     else do {
       out \<leftarrow> arr_put out 0 0x20;
       d \<leftarrow> mem_read public_key 0 32;
       out \<leftarrow> mem_write out 1 d;
       out \<leftarrow> arr_put out 33 OP_CHECKSIG;
       Some (True, out)
     })"

definition calc_sighash ::
  "write_ops \<Rightarrow> transaction_t \<Rightarrow> transaction_input_t \<Rightarrow> bytes \<Rightarrow> bytes \<Rightarrow> nat \<Rightarrow> (bool \<times> bytes) option"
where
  "calc_sighash W tx txin public_key out out_len =
    (if out_len < 32 then Some (False, out)
     else do {
         let outer_buffer = zeros 36;
         (ok, sighash) \<leftarrow> hash_init zero_blake2b_state 256 (Some SIGNING_KEY) 22;
         if \<not> ok then Some (False, out) else do {
         outer_buffer \<leftarrow> write_u16_le W outer_buffer 0 (version tx);
         (ok, sighash) \<leftarrow> hash_update sighash outer_buffer 2;
         if \<not> ok then Some (False, out) else do {
         let outer_buffer = zeros 36;
         (ok, outer_buffer) \<leftarrow> calc_prev_outputs_hash W tx outer_buffer 36;
         if \<not> ok then Some (False, out) else do {
         (ok, sighash) \<leftarrow> hash_update sighash outer_buffer 32;
         if \<not> ok then Some (False, out) else do {
         let outer_buffer = zeros 36;
         (ok, outer_buffer) \<leftarrow> calc_sequences_hash W tx outer_buffer 36;
         if \<not> ok then Some (False, out) else do {
         (ok, sighash) \<leftarrow> hash_update sighash outer_buffer 32;
         if \<not> ok then Some (False, out) else do {
         let outer_buffer = zeros 36;
         (ok, outer_buffer) \<leftarrow> calc_sig_op_count_hash tx outer_buffer 36;
         if \<not> ok then Some (False, out) else do {
         (ok, sighash) \<leftarrow> hash_update sighash outer_buffer 32;
         if \<not> ok then Some (False, out) else do {
         let outer_buffer = zeros 36;
         (ok, sighash) \<leftarrow> hash_update sighash (in_tx_id txin) 32;
         if \<not> ok then Some (False, out) else do {
         outer_buffer \<leftarrow> write_u32_le W outer_buffer 0 (ucast (in_index txin));
         (ok, sighash) \<leftarrow> hash_update sighash outer_buffer 4;
         if \<not> ok then Some (False, out) else do {
         let outer_buffer = zeros 36;
         (ok, sighash) \<leftarrow> hash_update sighash outer_buffer 2;
         if \<not> ok then Some (False, out) else do {
         outer_buffer \<leftarrow> write_u64_le W outer_buffer 0 34;
         (ok, sighash) \<leftarrow> hash_update sighash outer_buffer 8;
         if \<not> ok then Some (False, out) else do {
         (ok, outer_buffer) \<leftarrow> calc_txin_script_public_key public_key outer_buffer 36;
         if \<not> ok then Some (False, out) else do {
         (ok, sighash) \<leftarrow> hash_update sighash outer_buffer 34;
         if \<not> ok then Some (False, out) else do {
         let outer_buffer = zeros 36;
         outer_buffer \<leftarrow> write_u64_le W outer_buffer 0 (in_value txin);
         (ok, sighash) \<leftarrow> hash_update sighash outer_buffer 8;
         if \<not> ok then Some (False, out) else do {
         let outer_buffer = zeros 36;
         outer_buffer \<leftarrow> write_u64_le W outer_buffer 0 (in_sequence txin);
         (ok, sighash) \<leftarrow> hash_update sighash outer_buffer 8;
         if \<not> ok then Some (False, out) else do {
         let outer_buffer = zeros 36;
         outer_buffer \<leftarrow> arr_put outer_buffer 0 1;
         (ok, sighash) \<leftarrow> hash_update sighash outer_buffer 1;
         if \<not> ok then Some (False, out) else do {
         let outer_buffer = zeros 36;
         (ok, outer_buffer) \<leftarrow> calc_outputs_hash W tx outer_buffer 36;
         if \<not> ok then Some (False, out) else do {
         (ok, sighash) \<leftarrow> hash_update sighash outer_buffer 32;
         if \<not> ok then Some (False, out) else do {
         let outer_buffer = zeros 36;
         (ok, sighash) \<leftarrow> hash_update sighash outer_buffer 8;
         if \<not> ok then Some (False, out) else do {
         (ok, sighash) \<leftarrow> hash_update sighash outer_buffer 20;
         if \<not> ok then Some (False, out) else do {
         (ok, sighash) \<leftarrow> hash_update sighash outer_buffer 8;
         if \<not> ok then Some (False, out) else do {
         (ok, sighash) \<leftarrow> hash_update sighash outer_buffer 32;
         if \<not> ok then Some (False, out) else do {
         outer_buffer \<leftarrow> arr_put outer_buffer 0 1;
         (ok, sighash) \<leftarrow> hash_update sighash outer_buffer 1;
         if \<not> ok then Some (False, out) else do {
         hash_finalize sighash out out_len
       }}}}}}}}}}}}}}}}}}}}}}}}})"

section \<open>The reference: one byte string\<close>

text \<open>The definitions of this section specify the result and translate no code.\<close>

definition H32 :: "bytes \<Rightarrow> bytes" where
  "H32 m = rfc_blake2b 32 (c_bytes ''TransactionSigningHash'') m"

definition prev_outputs_preimage :: "transaction_input_t list \<Rightarrow> bytes" where
  "prev_outputs_preimage ins =
     concat (map (\<lambda>i. in_tx_id i @ le_bytes 4 (ucast (in_index i) :: u32)) ins)"

definition sequences_preimage :: "transaction_input_t list \<Rightarrow> bytes" where
  "sequences_preimage ins = concat (map (\<lambda>i. le_bytes 8 (in_sequence i)) ins)"

definition sig_op_count_preimage :: "transaction_input_t list \<Rightarrow> bytes" where
  "sig_op_count_preimage ins = replicate (length ins) 1"

text \<open>An output: value, script version 0, script length as 64 bits, script.\<close>

definition output_preimage :: "transaction_output_t \<Rightarrow> bytes" where
  "output_preimage out =
     (let s = out_script_public_key out; n = script_len s
      in le_bytes 8 (out_value out) @ [0, 0] @ le_bytes 8 (word_of_nat n :: u64) @ take n s)"

definition outputs_preimage :: "transaction_output_t list \<Rightarrow> bytes" where
  "outputs_preimage outs = concat (map output_preimage outs)"

definition tx_ins :: "transaction_t \<Rightarrow> transaction_input_t list" where
  "tx_ins tx = take (tx_input_len tx) (tx_inputs tx)"

definition tx_outs :: "transaction_t \<Rightarrow> transaction_output_t list" where
  "tx_outs tx = take (tx_output_len tx) (tx_outputs tx)"

definition sighash_preimage :: "transaction_t \<Rightarrow> transaction_input_t \<Rightarrow> bytes \<Rightarrow> bytes" where
  "sighash_preimage tx txin pk =
     le_bytes 2 (version tx) @
     H32 (prev_outputs_preimage (tx_ins tx)) @
     H32 (sequences_preimage (tx_ins tx)) @
     H32 (sig_op_count_preimage (tx_ins tx)) @
     in_tx_id txin @ le_bytes 4 (ucast (in_index txin) :: u32) @
     zeros 2 @ le_bytes 8 (34 :: u64) @ [0x20] @ pk @ [OP_CHECKSIG] @
     le_bytes 8 (in_value txin) @ le_bytes 8 (in_sequence txin) @ [1] @
     H32 (outputs_preimage (tx_outs tx)) @
     zeros 8 @ zeros 20 @ zeros 8 @ zeros 32 @ [1]"

section \<open>The contract of a hash writer\<close>

text \<open>
  The three static helpers as their callers see them. Inside the locale: the rule for one
  update followed by its test, and the digest of a loop, whose body appends the bytes
  \<open>f i\<close> for the item \<open>i\<close>.
\<close>

locale hash_writer =
  fixes init :: "(bool \<times> 's) option"
    and upd :: "'s \<Rightarrow> bytes \<Rightarrow> nat \<Rightarrow> (bool \<times> 's) option"
    and fin :: "'s \<Rightarrow> bytes \<Rightarrow> nat \<Rightarrow> (bool \<times> bytes) option"
    and absorbed :: "'s \<Rightarrow> bytes \<Rightarrow> bool"
    and digest :: "bytes \<Rightarrow> bytes"
  assumes init: "returns init (\<lambda>(ok, s). ok \<and> absorbed s [])"
    and upd: "absorbed s m \<Longrightarrow> n \<le> length d \<Longrightarrow>
      returns (upd s d n) (\<lambda>(ok, s'). ok \<and> absorbed s' (m @ take n d))"
    and fin: "absorbed s m \<Longrightarrow> 32 \<le> out_len \<Longrightarrow> 32 \<le> length out \<Longrightarrow>
      fin s out out_len = Some (True, digest m @ drop 32 out)"
    and fin_short: "out_len < 32 \<Longrightarrow> fin s out out_len = Some (False, out)"
    and digest_len: "length (digest m) = 32"
begin

lemma init_bind:
  assumes "\<And>s. absorbed s [] \<Longrightarrow> returns (k (True, s)) Q"
  shows "returns (Option.bind init k) Q"
  using init assms by (auto simp: returns_def)

lemma upd_bind:
  assumes "absorbed s m" and "n \<le> length d"
    and "\<And>s'. absorbed s' (m @ take n d) \<Longrightarrow> returns (k (True, s')) Q"
  shows "returns (Option.bind (upd s d n) k) Q"
  using upd [OF assms(1,2)] assms(3) by (auto simp: returns_def)

lemma loop_bind:
  assumes "absorbed s m" and "length (b :: bytes) = 32"
    and body: "\<And>i s m b. i \<in> set xs \<Longrightarrow> absorbed s m \<Longrightarrow> length b = 32 \<Longrightarrow>
      returns (body i (s, b)) (\<lambda>(ok, s', b'). ok \<and> absorbed s' (m @ f i) \<and> length b' = 32)"
    and "\<And>s' b'. absorbed s' (m @ concat (map f xs)) \<Longrightarrow> returns (k (True, s', b')) Q"
  shows "returns (Option.bind (for_each body xs (s, b)) k) Q"
proof -
  let ?P = "\<lambda>ys (s' :: 's, b' :: bytes). absorbed s' (m @ concat (map f ys)) \<and> length b' = 32"
  have "returns (for_each body xs (s, b)) (\<lambda>(ok, s'). ok \<and> ?P xs s')"
  proof (rule for_each_rule)
    fix pre i js and st :: "'s \<times> bytes"
    assume "xs = pre @ i # js" and "?P pre st"
    then show "returns (body i st) (\<lambda>(ok, s'). ok \<and> ?P (pre @ [i]) s')"
      using body [of i "fst st" "m @ concat (map f pre)" "snd st"]
      by (auto simp: returns_def split: prod.splits)
  qed (use assms(1,2) in simp)
  then show ?thesis using assms(4) by (auto simp: returns_def)
qed

end

lemma hash_init_keyed:
  assumes "0 < kk" and "kk \<le> 64" and "kk \<le> length key"
  shows "returns (hash_init S 256 (Some key) kk) (\<lambda>(ok, s). ok \<and> keyed 32 (take kk key) s [])"
  using init_key_keyed [of 32 kk key zero_blake2b_state] assms by (auto simp: hash_init_def returns_def)

text \<open>The helpers with any key of 1 to 64 bytes are a hash writer for the keyed digest.\<close>

lemma keyed_hash_writer:
  assumes "take kk key = k" and "0 < kk" and "kk \<le> 64" and "kk \<le> length key"
  shows "hash_writer (hash_init zero_blake2b_state 256 (Some key) kk) hash_update hash_finalize
    (keyed 32 k) (rfc_blake2b 32 k)"
proof unfold_locales
  show "returns (hash_init zero_blake2b_state 256 (Some key) kk) (\<lambda>(ok, s). ok \<and> keyed 32 k s [])"
    using hash_init_keyed [of kk key zero_blake2b_state] assms by simp
next
  fix s m n d assume "keyed 32 k s m" and "n \<le> length (d :: bytes)"
  then show "returns (hash_update s d n) (\<lambda>(ok, s'). ok \<and> keyed 32 k s' (m @ take n d))"
    unfolding hash_update_def by (auto intro!: returns_bindI b2.upd_rule)
next
  fix s m and out_len :: nat and out :: bytes
  assume "keyed 32 k s m" "32 \<le> out_len" "32 \<le> length out"
  then show "hash_finalize s out out_len = Some (True, rfc_blake2b 32 k m @ drop 32 out)"
    using b2.fin [of k s m 32 out] by (auto simp: hash_finalize_def)
qed (simp_all add: length_rfc_blake2b hash_finalize_def)

lemma H32_eq: "H32 = rfc_blake2b 32 (c_bytes ''TransactionSigningHash'')"
  by (rule ext) (simp add: H32_def)

interpretation sw: hash_writer "hash_init zero_blake2b_state 256 (Some SIGNING_KEY) 22"
    hash_update hash_finalize "keyed 32 (c_bytes ''TransactionSigningHash'')" H32
  unfolding H32_eq by (rule keyed_hash_writer) (simp_all add: SIGNING_KEY_def)

lemma map_nth_upt: "n \<le> length xs \<Longrightarrow> map (\<lambda>i. f (xs ! i)) [0..<n] = map f (take n xs)"
  by (rule nth_equalityI) auto

section \<open>The code computes the reference\<close>

definition known_output :: "transaction_output_t \<Rightarrow> bool" where
  "known_output out \<longleftrightarrow> (let s = out_script_public_key out in known_script (take (script_len s) s))"

text \<open>The script's length byte stays inside the script buffer. This holds for the scripts the parser
  stores, and for the zeroed buffer of an output that was announced but never sent.\<close>

definition readable_output :: "transaction_output_t \<Rightarrow> bool" where
  "readable_output out \<longleftrightarrow> (let s = out_script_public_key out
     in s \<noteq> [] \<and> script_len s \<le> length s \<and> script_len s < 256 \<and> (s ! 0 = OP_BLAKE2B \<longrightarrow> s ! 1 = 0x20))"

lemma known_readable: "known_output out \<Longrightarrow> readable_output out"
  by (auto simp: known_output_def readable_output_def known_script_def script_len_def op_consts Let_def
      split: if_splits)

definition signable :: "transaction_t \<Rightarrow> bool" where
  "signable tx \<longleftrightarrow> tx_input_len tx \<le> length (tx_inputs tx) \<and> tx_output_len tx \<le> length (tx_outputs tx) \<and>
     list_all wf_input (tx_ins tx) \<and>
     list_all readable_output (tx_outs tx)"

lemma signable_arrays:
  assumes "signable tx"
  shows "i < tx_input_len tx \<Longrightarrow> i < length (tx_inputs tx)"
    and "i < tx_input_len tx \<Longrightarrow> length (in_tx_id (tx_inputs tx ! i)) = 32"
    and "j < tx_output_len tx \<Longrightarrow> j < length (tx_outputs tx)"
    and "j < tx_output_len tx \<Longrightarrow> readable_output (tx_outputs tx ! j)"
  using assms by (auto simp: signable_def tx_ins_def tx_outs_def list_all_length wf_input_def)

text \<open>The digest of a loop over the inputs or the outputs is that of the mapped list.\<close>

lemma concat_ins:
  "signable tx \<Longrightarrow> concat (map (\<lambda>i. f (tx_inputs tx ! i)) [0..<tx_input_len tx]) = concat (map f (tx_ins tx))"
  by (simp add: signable_def tx_ins_def map_nth_upt)

lemma concat_outs:
  "signable tx \<Longrightarrow> concat (map (\<lambda>i. f (tx_outputs tx ! i)) [0..<tx_output_len tx]) = concat (map f (tx_outs tx))"
  by (simp add: signable_def tx_outs_def map_nth_upt)

lemmas buf_simps = mem_write_Some arr_put_Some mem_read_Some arr_get_Some

lemma script_size:
  assumes "readable_output x" and s: "s = out_script_public_key x"
  shows "script_len s \<le> length s" and "1 \<le> length s" and "s ! 0 = 0xaa \<Longrightarrow> script_len s = 35"
    and "s ! 0 \<noteq> 0xaa \<Longrightarrow> unat (s ! 0 + 2) = script_len s"
    and "s ! 0 \<noteq> 0xaa \<Longrightarrow> (ucast (s ! 0 + 2) :: u64) = word_of_nat (script_len s)"
proof -
  have f: "s \<noteq> []" "script_len s \<le> length s" "script_len s < 256" "s ! 0 = 0xaa \<longrightarrow> s ! 1 = 0x20"
    using assms by (simp_all add: readable_output_def Let_def op_consts)
  then show "script_len s \<le> length s" "1 \<le> length s" "s ! 0 = 0xaa \<Longrightarrow> script_len s = 35"
    by (auto simp: script_len_def op_consts Suc_le_eq)
  assume n: "s ! 0 \<noteq> 0xaa"
  then have u: "unat (s ! 0 + 2) = script_len s"
    using f(3) by (simp add: script_len_def op_consts unat_word_ariths)
  then show "unat (s ! 0 + 2) = script_len s" .
  show "(ucast (s ! 0 + 2) :: u64) = word_of_nat (script_len s)"
    unfolding u [symmetric] by (simp add: word_unat_eq_iff unat_of_nat unsigned_ucast_eq)
qed

context write_api
begin

lemmas put_simps = u16_le u32_le u64_le buf_simps

lemma prev_outputs_hash:
  assumes "signable tx" and "32 \<le> out_len" and "32 \<le> length out"
  shows "calc_prev_outputs_hash W tx out out_len =
    Some (True, H32 (prev_outputs_preimage (tx_ins tx)) @ drop 32 out)"
proof -
  let ?f = "\<lambda>i. in_tx_id i @ le_bytes 4 (ucast (in_index i) :: u32)"
  have e: "concat (map (\<lambda>i. ?f (tx_inputs tx ! i)) [0..<tx_input_len tx]) =
      prev_outputs_preimage (tx_ins tx)"
    unfolding prev_outputs_preimage_def by (rule concat_ins [OF assms(1)])
  have "returns (calc_prev_outputs_hash W tx out out_len)
      (\<lambda>r. r = (True, H32 (prev_outputs_preimage (tx_ins tx)) @ drop 32 out))"
    unfolding calc_prev_outputs_hash_def Let_def
  proof (rule sw.init_bind, simp, rule sw.loop_bind [where f = "\<lambda>i. ?f (tx_inputs tx ! i)"])
    fix i s m and b :: bytes
    assume "i \<in> set [0..<tx_input_len tx]" and "keyed 32 (c_bytes ''TransactionSigningHash'') s m"
    then show "returns (prev_outputs_step W tx i (s, b)) (\<lambda>(ok, s', b'). ok \<and>
        keyed 32 (c_bytes ''TransactionSigningHash'') s' (m @ ?f (tx_inputs tx ! i)) \<and> length b' = 32)"
      by (auto simp: prev_outputs_step_def put_simps signable_arrays [OF assms(1)] intro!: sw.upd_bind)
  qed (auto simp: sw.fin assms e)
  then show ?thesis by (auto simp: returns_def)
qed

lemma sequences_hash:
  assumes "signable tx" and "32 \<le> out_len" and "32 \<le> length out"
  shows "calc_sequences_hash W tx out out_len =
    Some (True, H32 (sequences_preimage (tx_ins tx)) @ drop 32 out)"
proof -
  let ?f = "\<lambda>i. le_bytes 8 (in_sequence i)"
  have e: "concat (map (\<lambda>i. ?f (tx_inputs tx ! i)) [0..<tx_input_len tx]) =
      sequences_preimage (tx_ins tx)"
    unfolding sequences_preimage_def by (rule concat_ins [OF assms(1)])
  have "returns (calc_sequences_hash W tx out out_len)
      (\<lambda>r. r = (True, H32 (sequences_preimage (tx_ins tx)) @ drop 32 out))"
    unfolding calc_sequences_hash_def Let_def
  proof (rule sw.init_bind, simp, rule sw.loop_bind [where f = "\<lambda>i. ?f (tx_inputs tx ! i)"])
    fix i s m and b :: bytes
    assume "i \<in> set [0..<tx_input_len tx]" and "keyed 32 (c_bytes ''TransactionSigningHash'') s m"
    then show "returns (sequences_step W tx i (s, b)) (\<lambda>(ok, s', b'). ok \<and>
        keyed 32 (c_bytes ''TransactionSigningHash'') s' (m @ ?f (tx_inputs tx ! i)) \<and> length b' = 32)"
      by (auto simp: sequences_step_def put_simps signable_arrays [OF assms(1)] intro!: sw.upd_bind)
  qed (auto simp: sw.fin assms e)
  then show ?thesis by (auto simp: returns_def)
qed

lemma outputs_hash:
  assumes "signable tx" and "32 \<le> out_len" and "32 \<le> length out"
  shows "calc_outputs_hash W tx out out_len =
    Some (True, H32 (outputs_preimage (tx_outs tx)) @ drop 32 out)"
proof -
  have "returns (calc_outputs_hash W tx out out_len)
      (\<lambda>r. r = (True, H32 (outputs_preimage (tx_outs tx)) @ drop 32 out))"
    unfolding calc_outputs_hash_def Let_def
  proof (rule sw.init_bind, simp,
      rule sw.loop_bind [where f = "\<lambda>i. output_preimage (tx_outputs tx ! i)"])
    fix i s m and b :: bytes
    assume i: "i \<in> set [0..<tx_output_len tx]"
      and m: "keyed 32 (c_bytes ''TransactionSigningHash'') s m"
    define x where "x = tx_outputs tx ! i"
    have get: "arr_get (tx_outputs tx) i = Some x"
      using i signable_arrays [OF assms(1)] by (simp add: arr_get_Some x_def)
    have k: "readable_output x" using i signable_arrays [OF assms(1)] by (simp add: x_def)
    have z: "take 2 (zeros 32) = [0, 0]" by (simp add: zeros_def numeral_eq_Suc)
    note sz = script_size [OF k refl]
    have s0: "arr_get (out_script_public_key x) 0 = Some (out_script_public_key x ! 0)"
      using sz(2) by (intro arr_get_Some) linarith
    have p: "output_preimage x = le_bytes 8 (out_value x) @ take 2 (zeros 32) @
        take 8 (le_bytes 8 (word_of_nat (script_len (out_script_public_key x)) :: u64) @ zeros 24) @
        take (script_len (out_script_public_key x)) (out_script_public_key x)"
      by (simp add: output_preimage_def Let_def z del: take_zeros)
    show "returns (outputs_step W tx i (s, b)) (\<lambda>(ok, s', b'). ok \<and>
        keyed 32 (c_bytes ''TransactionSigningHash'') s' (m @ output_preimage (tx_outputs tx ! i)) \<and>
        length b' = 32)"
      unfolding outputs_step_def x_def [symmetric] Let_def p using sz
      apply (simp add: get s0 put_simps del: take_zeros)
      apply (rule sw.upd_bind [OF m], simp, simp del: take_zeros)
      apply (rule sw.upd_bind, assumption, simp, simp add: s0 del: take_zeros)
      apply (cases "out_script_public_key x ! 0 = 0xaa")
       apply (simp_all add: put_simps del: take_zeros)
       apply (rule sw.upd_bind, assumption, simp, simp del: take_zeros)+
      done
  qed (auto simp: sw.fin assms outputs_preimage_def concat_outs [OF assms(1), of output_preimage])
  then show ?thesis by (auto simp: returns_def)
qed

end

lemma sig_op_count_hash:
  assumes "signable tx" and "32 \<le> out_len" and "32 \<le> length out"
  shows "calc_sig_op_count_hash tx out out_len =
    Some (True, H32 (sig_op_count_preimage (tx_ins tx)) @ drop 32 out)"
proof -
  have l: "length (tx_ins tx) = tx_input_len tx" using assms by (simp add: signable_def tx_ins_def)
  have "returns (calc_sig_op_count_hash tx out out_len)
      (\<lambda>r. r = (True, H32 (sig_op_count_preimage (tx_ins tx)) @ drop 32 out))"
    unfolding calc_sig_op_count_hash_def Let_def
  proof (rule sw.init_bind, simp, rule sw.loop_bind [where f = "\<lambda>i. [1]"])
    fix i s m and b :: bytes
    assume "length b = 32" and "keyed 32 (c_bytes ''TransactionSigningHash'') s m"
    then show "returns (sig_op_count_step tx i (s, b)) (\<lambda>(ok, s', b'). ok \<and>
        keyed 32 (c_bytes ''TransactionSigningHash'') s' (m @ [1]) \<and> length b' = 32)"
      by (auto simp: sig_op_count_step_def mem_write_Some intro!: sw.upd_bind)
  qed (auto simp: sw.fin assms sig_op_count_preimage_def map_replicate_const l)
  then show ?thesis by (auto simp: returns_def)
qed

lemma H32_length [simp]: "length (H32 m) = 32"
  by (rule sw.digest_len)

lemma txin_script:
  assumes "length b = 36" and "32 \<le> length pk"
  shows "calc_txin_script_public_key pk b 36 =
    Some (True, 0x20 # take 32 pk @ [OP_CHECKSIG] @ drop 34 b)"
  using assms
  by (cases b) (auto simp: calc_txin_script_public_key_def buf_simps min_absorb2 list_update_append
      Cons_nth_drop_Suc [symmetric] upd_conv_take_nth_drop)

lemma put_first: "arr_put (zeros 36) 0 1 = Some (1 # zeros 35)"
  by (simp add: arr_put_def zeros_def numeral_eq_Suc)

context write_api
begin

lemma calc_sighash_correct:
  assumes "signable tx" and "wf_input txin" and "32 \<le> length pk" and "32 \<le> out_len"
    and "32 \<le> length out"
  shows "calc_sighash W tx txin pk out out_len =
    Some (True, H32 (sighash_preimage tx txin (take 32 pk)) @ drop 32 out)"
proof -
  have id: "length (in_tx_id txin) = 32" using assms(2) by (simp add: wf_input_def)
  have long: "(out_len < 32) = False" using assms by simp
  note facts = assms u16_le u32_le u64_le mem_write_Some prev_outputs_hash sequences_hash
    sig_op_count_hash outputs_hash txin_script put_first id
  have "returns (calc_sighash W tx txin pk out out_len)
    (\<lambda>r. r = (True, H32 (sighash_preimage tx txin (take 32 pk)) @ drop 32 out))"
    unfolding calc_sighash_def Let_def
    apply (simp only: long if_False)
    apply (rule sw.init_bind, simp add: facts)
    apply (rule sw.upd_bind, assumption, simp add: facts, simp add: facts)+
    apply (simp add: sw.fin assms sighash_preimage_def)
    done
  then show ?thesis by (auto simp: returns_def)
qed

end
section \<open>The encoding is unambiguous\<close>

definition signed_output :: "transaction_output_t \<Rightarrow> u64 \<times> bytes" where
  "signed_output out = (out_value out, take (script_len (out_script_public_key out)) (out_script_public_key out))"

lemma le_bytes_inject:
  "LENGTH('a::len) \<le> 8 * n \<Longrightarrow> le_bytes n (v :: 'a word) = le_bytes n w \<longleftrightarrow> v = w"
  by (metis le_word_le_bytes)

lemma output_preimage_append_eq:
  assumes "readable_output x" and "readable_output y"
    and "output_preimage x @ r = output_preimage y @ r'"
  shows "signed_output x = signed_output y \<and> r = r'"
proof -
  let ?s = "out_script_public_key x" and ?t = "out_script_public_key y"
  have n: "script_len ?s \<le> length ?s" "script_len ?t \<le> length ?t"
    "script_len ?s < 256" "script_len ?t < 256"
    using assms(1,2) by (simp_all add: readable_output_def Let_def)
  have eq: "out_value x = out_value y"
    "(word_of_nat (script_len ?s) :: u64) = word_of_nat (script_len ?t)"
    "take (script_len ?s) ?s @ r = take (script_len ?t) ?t @ r'"
    using assms(3) by (auto simp: output_preimage_def Let_def le_bytes_inject)
  have "script_len ?s = script_len ?t"
    using arg_cong [OF eq(2), of unat] n(3,4) by (simp add: unat_of_nat)
  with eq n show ?thesis by (simp add: signed_output_def)
qed

lemma outputs_preimage_inject:
  assumes "list_all readable_output xs" and "list_all readable_output ys"
    and "outputs_preimage xs = outputs_preimage ys"
  shows "map signed_output xs = map signed_output ys"
  using assms
proof (induction xs arbitrary: ys)
  case Nil
  then show ?case by (cases ys) (auto simp: outputs_preimage_def output_preimage_def Let_def)
next
  case (Cons x xs)
  then obtain y ys' where ys: "ys = y # ys'"
    by (cases ys) (auto simp: outputs_preimage_def output_preimage_def Let_def)
  have "output_preimage x @ outputs_preimage xs = output_preimage y @ outputs_preimage ys'"
    using Cons.prems(3) by (simp add: outputs_preimage_def ys)
  with Cons.prems ys output_preimage_append_eq [of x y] Cons.IH [of ys'] show ?case by auto
qed

lemma unat_ucast_u8_u32: "unat (ucast (x :: u8) :: u32) = unat x"
  using unat_u8_less [of x] by (simp add: unsigned_ucast_eq take_bit_nat_eq_self)

lemma ucast_u8_u32_inject: "(ucast (x :: u8) :: u32) = ucast y \<longleftrightarrow> x = y"
  by (metis unat_ucast_u8_u32 word_unat_eq_iff)

text \<open>Blocks of one length can be told apart in their concatenation.\<close>

lemma concat_blocks_inject:
  assumes "concat (map f xs) = concat (map f ys)" and "0 < k"
    and "\<forall>x\<in>set xs \<union> set ys. length (f x) = k"
    and "\<And>x y. x \<in> set xs \<Longrightarrow> y \<in> set ys \<Longrightarrow> f x = f y \<Longrightarrow> g x = g y"
  shows "map g xs = map g ys"
  using assms(1,3,4)
proof (induction xs arbitrary: ys)
  case Nil
  then show ?case using assms(2) by (cases ys) auto
next
  case (Cons x xs)
  then obtain y ys' where ys: "ys = y # ys'" using assms(2) by (cases ys) auto
  have "f x = f y" "concat (map f xs) = concat (map f ys')"
    using Cons.prems(1,2) by (simp_all add: ys)
  moreover have "\<forall>x\<in>set xs \<union> set ys'. length (f x) = k" using Cons.prems(2) by (auto simp: ys)
  ultimately show ?case using Cons.IH [of ys'] Cons.prems(3) by (simp add: ys)
qed

definition signed_input :: "transaction_input_t \<Rightarrow> bytes \<times> u8" where
  "signed_input i = (in_tx_id i, in_index i)"

lemma prev_outputs_inject:
  assumes "list_all wf_input xs" and "list_all wf_input ys" and "prev_outputs_preimage xs = prev_outputs_preimage ys"
  shows "map signed_input xs = map signed_input ys"
proof (rule concat_blocks_inject [where k = 36])
  show "concat (map (\<lambda>i. in_tx_id i @ le_bytes 4 (ucast (in_index i) :: u32)) xs) =
      concat (map (\<lambda>i. in_tx_id i @ le_bytes 4 (ucast (in_index i) :: u32)) ys)"
    using assms(3) by (simp add: prev_outputs_preimage_def)
  show "\<forall>x\<in>set xs \<union> set ys. length (in_tx_id x @ le_bytes 4 (ucast (in_index x) :: u32)) = 36"
    using assms(1,2) by (auto simp: list_all_iff wf_input_def)
  show "signed_input x = signed_input y"
    if "x \<in> set xs" "y \<in> set ys"
      "in_tx_id x @ le_bytes 4 (ucast (in_index x) :: u32) = in_tx_id y @ le_bytes 4 (ucast (in_index y) :: u32)" for x y
    using that assms(1,2) by (auto simp: list_all_iff wf_input_def signed_input_def le_bytes_inject ucast_u8_u32_inject)
qed simp

lemma sequences_inject: "sequences_preimage xs = sequences_preimage ys \<Longrightarrow> map in_sequence xs = map in_sequence ys"
  unfolding sequences_preimage_def
  by (erule concat_blocks_inject [where k = 8]) (auto simp: le_bytes_inject)

text \<open>The strings that are hashed for a digest, the signed one first.\<close>

definition hashed_strings :: "transaction_t \<Rightarrow> transaction_input_t \<Rightarrow> bytes \<Rightarrow> bytes list" where
  "hashed_strings tx txin pk = [sighash_preimage tx txin pk, prev_outputs_preimage (tx_ins tx),
     sequences_preimage (tx_ins tx), outputs_preimage (tx_outs tx)]"

definition collide :: "bytes \<Rightarrow> bytes \<Rightarrow> bool" where
  "collide a b \<longleftrightarrow> a \<noteq> b \<and> H32 a = H32 b"

section \<open>Properties\<close>

text \<open>C22. The transaction digest: for a transaction whose counts fit its arrays and whose
  scripts end inside their buffers, \<open>calc_sighash\<close> succeeds without touching memory outside its
  buffers, and the 32 bytes it leaves are the keyed BLAKE2b digest of the byte string that the
  signature scheme specifies: version, the digests of the outpoints, sequences and signature
  operation counts, the spent outpoint with its script and value, the digest of the outputs,
  and the constant tail.\<close>

theorem calc_sighash_digest:
  assumes "write_api W" and "signable tx" and "wf_input txin" and "32 \<le> length pk"
    and "32 \<le> out_len" and "out_len \<le> length out"
  shows "calc_sighash W tx txin pk out out_len =
    Some (True, H32 (sighash_preimage tx txin (take 32 pk)) @ drop 32 out)"
  using assms by (intro write_api.calc_sighash_correct) auto

theorem calc_sighash_digest_witness:
  "let tx = (zero_transaction 15)\<lparr>tx_input_len := 2, tx_output_len := 1, tx_outputs :=
      [\<lparr>out_value = 7, out_script_public_key = 0x20 # replicate 32 9 @ [0xac] @ zeros 6\<rparr>, zero_output]\<rparr>
   in calc_sighash std_write tx zero_input (zeros 64) (zeros 32) 32 =
     Some (True, H32 (sighash_preimage tx zero_input (zeros 32)))"
  unfolding Let_def
  by (subst calc_sighash_digest [OF std_write_api])
     (simp_all add: signable_def tx_ins_def tx_outs_def zero_transaction_def
       script_len_def op_consts Let_def list_all_iff readable_output_def)

text \<open>C23. What a digest commits to: when \<open>calc_sighash\<close> leaves the same 32 bytes for two inputs of
  two transactions, these agree on the version, on the outpoints and sequence numbers of all
  inputs, on the values and scripts of all outputs, and on the outpoint, value, sequence number
  and public key of the input signed; or else two different ones of the strings that the two
  calls hash at the same place have the same BLAKE2b digest. (The values of the other inputs
  are not hashed.)\<close>

theorem sighash_commits:
  assumes "write_api W" and "signable tx" and "signable tx'" and "wf_input i" and "wf_input i'"
    and "32 \<le> length pk" and "32 \<le> length pk'"
    and "calc_sighash W tx i pk (zeros 32) 32 = Some (True, digest)"
    and "calc_sighash W tx' i' pk' (zeros 32) 32 = Some (True, digest)"
  shows "list_ex (\<lambda>(a, b). collide a b)
      (zip (hashed_strings tx i (take 32 pk)) (hashed_strings tx' i' (take 32 pk'))) \<or>
    version tx = version tx' \<and>
    map signed_input (tx_ins tx) = map signed_input (tx_ins tx') \<and>
    map in_sequence (tx_ins tx) = map in_sequence (tx_ins tx') \<and>
    map signed_output (tx_outs tx) = map signed_output (tx_outs tx') \<and>
    signed_input i = signed_input i' \<and> in_value i = in_value i' \<and> in_sequence i = in_sequence i' \<and>
    take 32 pk = take 32 pk'"
proof -
  have d: "H32 (sighash_preimage tx i (take 32 pk)) = H32 (sighash_preimage tx' i' (take 32 pk'))"
    using assms(8,9) write_api.calc_sighash_correct [OF assms(1,2,4,6), of 32 "zeros 32"]
      write_api.calc_sighash_correct [OF assms(1,3,5,7), of 32 "zeros 32"] by simp
  show ?thesis
  proof (cases "list_ex (\<lambda>(a, b). collide a b)
      (zip (hashed_strings tx i (take 32 pk)) (hashed_strings tx' i' (take 32 pk')))")
    case False
    then have inj: "H32 a = H32 b \<Longrightarrow> a = b"
      if "(a, b) \<in> set (zip (hashed_strings tx i (take 32 pk)) (hashed_strings tx' i' (take 32 pk')))" for a b
      using that by (auto simp: list_ex_iff collide_def)
    have len: "length (in_tx_id i) = length (in_tx_id i')" "length (take 32 pk) = length (take 32 pk')"
      using assms(4-7) by (simp_all add: wf_input_def)
    have "sighash_preimage tx i (take 32 pk) = sighash_preimage tx' i' (take 32 pk')"
      by (rule inj [OF _ d]) (simp add: hashed_strings_def)
    then have e: "version tx = version tx'"
      "H32 (prev_outputs_preimage (tx_ins tx)) = H32 (prev_outputs_preimage (tx_ins tx'))"
      "H32 (sequences_preimage (tx_ins tx)) = H32 (sequences_preimage (tx_ins tx'))"
      "H32 (outputs_preimage (tx_outs tx)) = H32 (outputs_preimage (tx_outs tx'))"
      "signed_input i = signed_input i'" "in_value i = in_value i'" "in_sequence i = in_sequence i'"
      "take 32 pk = take 32 pk'"
      using len by (auto simp: sighash_preimage_def le_bytes_inject ucast_u8_u32_inject signed_input_def)
    have p: "prev_outputs_preimage (tx_ins tx) = prev_outputs_preimage (tx_ins tx')"
      "sequences_preimage (tx_ins tx) = sequences_preimage (tx_ins tx')"
      "outputs_preimage (tx_outs tx) = outputs_preimage (tx_outs tx')"
      using e(2-4) by (auto intro!: inj simp: hashed_strings_def)
    have s: "list_all wf_input (tx_ins tx)" "list_all wf_input (tx_ins tx')"
      "list_all readable_output (tx_outs tx)" "list_all readable_output (tx_outs tx')"
      using assms(2,3) by (simp_all add: signable_def)
    show ?thesis
      using e(1,5-8) prev_outputs_inject [OF s(1,2) p(1)] sequences_inject [OF p(2)]
        outputs_preimage_inject [OF s(3,4) p(3)] by blast
  qed simp
qed

theorem sighash_commits_witness:
  "let tx = (zero_transaction 1)\<lparr>tx_input_len := 1, tx_output_len := 1\<rparr>; tx' = tx\<lparr>account := 5\<rparr>
   in \<exists>d. calc_sighash std_write tx zero_input (zeros 64) (zeros 32) 32 = Some (True, d) \<and>
     calc_sighash std_write tx' zero_input (zeros 64) (zeros 32) 32 = Some (True, d) \<and>
     map signed_output (tx_outs tx) = map signed_output (tx_outs tx')"
proof -
  let ?tx = "(zero_transaction 1)\<lparr>tx_input_len := 1, tx_output_len := 1\<rparr>"
  let ?tx' = "?tx\<lparr>account := 5\<rparr>"
  have s: "signable ?tx" "signable ?tx'"
    by (simp_all add: signable_def tx_ins_def tx_outs_def zero_transaction_def readable_output_def
        zero_output_def script_len_def Let_def op_consts SCRIPT_PUBLIC_KEY_BUFFER_LEN_def zeros_def MAX_OUTPUT_COUNT_def)
  have h: "hashed_strings ?tx' zero_input pk = hashed_strings ?tx zero_input pk" for pk
    by (simp add: hashed_strings_def sighash_preimage_def tx_ins_def tx_outs_def)
  obtain d where d: "calc_sighash std_write ?tx zero_input (zeros 64) (zeros 32) 32 = Some (True, d)"
    using calc_sighash_digest [OF std_write_api s(1), of zero_input "zeros 64" 32 "zeros 32"] by auto
  moreover have d': "calc_sighash std_write ?tx' zero_input (zeros 64) (zeros 32) 32 = Some (True, d)"
    using d calc_sighash_digest [OF std_write_api s(1), of zero_input "zeros 64" 32 "zeros 32"]
      calc_sighash_digest [OF std_write_api s(2), of zero_input "zeros 64" 32 "zeros 32"] h [of "zeros 32"]
    by (simp add: hashed_strings_def)
  moreover have "\<not> list_ex (\<lambda>(a, b). collide a b) (zip (hashed_strings ?tx zero_input (take 32 (zeros 64)))
      (hashed_strings ?tx' zero_input (take 32 (zeros 64))))"
    unfolding h by (simp add: hashed_strings_def collide_def)
  ultimately show ?thesis
    using sighash_commits [OF std_write_api s _ _ _ _ d d'] unfolding Let_def by simp
qed

end
