(* ===== verification/Personal_Message.thy ===== *)
theory Personal_Message
  imports Sighash
begin

text \<open>
  The digest of a personal message (\<open>src/personal_message.c\<close>). The file has its own
  copies of the three hash helpers, modelled here again; they form another hash writer, with the
  key of personal messages.
\<close>

definition MESSAGE_SIGNING_KEY :: bytes where
  "MESSAGE_SIGNING_KEY = c_bytes ''PersonalMessageSigningHash'' @ [0]"

definition pm_hash_init ::
  "blake2b_state \<Rightarrow> nat \<Rightarrow> bytes option \<Rightarrow> nat \<Rightarrow> (bool \<times> blake2b_state) option"
where
  "pm_hash_init hash sz key key_len =
    (if key = None \<and> key_len \<noteq> 0 then Some (False, hash)
     else if sz mod 8 \<noteq> 0 \<or> sz < 8 \<or> sz > 512 then Some (False, hash)
     else do {
       let hash = zero_blake2b_state;
       let sz = sz div 8;
       (r, hash) \<leftarrow> blake2b_init_key hash sz key key_len;
       if r < 0 then Some (False, hash) else Some (True, hash)
     })"

definition pm_hash_update :: "blake2b_state \<Rightarrow> bytes \<Rightarrow> nat \<Rightarrow> (bool \<times> blake2b_state) option" where
  "pm_hash_update hash data len = do {
     (r, hash) \<leftarrow> blake2b_update hash data len;
     Some (r = 0, hash)
   }"

definition pm_hash_finalize :: "blake2b_state \<Rightarrow> bytes \<Rightarrow> nat \<Rightarrow> (bool \<times> bytes) option" where
  "pm_hash_finalize hash out out_len =
    (if out_len < 32 then Some (False, out)
     else do {
       (r, hash, dst) \<leftarrow> blake2b_final hash (Some out) 32;
       Some (r = 0, case dst of Some d \<Rightarrow> d | None \<Rightarrow> out)
     })"

definition hash_personal_message :: "bytes \<Rightarrow> nat \<Rightarrow> bytes \<Rightarrow> nat \<Rightarrow> (bool \<times> bytes) option" where
  "hash_personal_message message_bytes message_byte_len out out_len =
    (if out_len < 32 then Some (False, out)
     else do {
       (ok, hash) \<leftarrow> pm_hash_init zero_blake2b_state 256 (Some MESSAGE_SIGNING_KEY) 26;
       if \<not> ok then Some (False, out) else do {
         (ok, hash) \<leftarrow> pm_hash_update hash message_bytes message_byte_len;
         if \<not> ok then Some (False, out) else pm_hash_finalize hash out out_len
       }
     })"

definition message_digest :: "bytes \<Rightarrow> bytes" where
  "message_digest m = rfc_blake2b 32 (c_bytes ''PersonalMessageSigningHash'') m"

text \<open>The helpers are the same functions as those of \<open>src/sighash.c\<close>.\<close>

lemma pm_helpers: "pm_hash_init = hash_init" "pm_hash_update = hash_update" "pm_hash_finalize = hash_finalize"
  by (simp_all add: fun_eq_iff pm_hash_init_def hash_init_def pm_hash_update_def hash_update_def
      pm_hash_finalize_def hash_finalize_def)

interpretation pw: hash_writer "pm_hash_init zero_blake2b_state 256 (Some MESSAGE_SIGNING_KEY) 26"
    pm_hash_update pm_hash_finalize "keyed 32 (c_bytes ''PersonalMessageSigningHash'')" message_digest
  unfolding pm_helpers message_digest_def
  by (rule keyed_hash_writer) (simp_all add: MESSAGE_SIGNING_KEY_def)

lemma hash_personal_message_eq:
  assumes "n \<le> length msg" and "out_len \<le> length out"
  shows "hash_personal_message msg n out out_len =
    Some (if out_len < 32 then (False, out) else (True, message_digest (take n msg) @ drop 32 out))"
proof (cases "out_len < 32")
  case False
  have "returns (hash_personal_message msg n out out_len)
      (\<lambda>r. r = (True, message_digest (take n msg) @ drop 32 out))"
    unfolding hash_personal_message_def using False assms
    by (auto intro!: pw.init_bind pw.upd_bind simp: pw.fin)
  with False show ?thesis by (auto simp: returns_def)
qed (simp add: hash_personal_message_def)

text \<open>C24. The personal message digest: for every message and length within it the function
  succeeds and leaves the keyed BLAKE2b digest of those bytes, under a key that differs from
  the one of transactions; a destination declared shorter than 32 bytes is refused and left
  alone.\<close>

theorem hash_personal_message_digest:
  assumes "n \<le> length msg" and "out_len \<le> length out"
  shows "hash_personal_message msg n out out_len =
    Some (if out_len < 32 then (False, out) else (True, message_digest (take n msg) @ drop 32 out))"
  using assms by (rule hash_personal_message_eq)

theorem hash_personal_message_digest_witness:
  "hash_personal_message [0x48, 0x69, 0x21] 3 (zeros 32) 32 = Some (True, message_digest [0x48, 0x69, 0x21])"
  using hash_personal_message_digest [of 3 "[0x48, 0x69, 0x21]" 32 "zeros 32"] by simp

end
