(* ===== verification/Context.thy ===== *)
theory Context
  imports Wire Address Personal_Message
begin

text \<open>
  The application's state and surroundings: \<open>src/types.h\<close>, \<open>src/globals.h\<close>,
  \<open>src/sw.h\<close> and the constants of \<open>src/apdu/dispatcher.h\<close>. The SDK (cursor,
  writers, key derivation and signing, text formatting, input and output) and the build's
  settings are the record \<open>env\<close>; what is relied on of them is the locale \<open>device\<close>.

  Handlers map a state to their return value and the new state; the result \<open>None\<close> is
  undefined behaviour of C: an access outside an array, or a read of a union member that is
  not the one last written (after \<open>explicit_bzero\<close> every member reads as zeros).
\<close>

section \<open>Constants\<close>

definition CLA :: u8 where "CLA = 0xE0"
definition EXPONENT_SMALLEST_UNIT :: nat where "EXPONENT_SMALLEST_UNIT = 8"
definition MAX_DER_SIG_LEN :: nat where "MAX_DER_SIG_LEN = 64"
definition P2_LAST :: u8 where "P2_LAST = 0x00"
definition P2_MORE :: u8 where "P2_MORE = 0x80"
definition P1_START :: u8 where "P1_START = 0x00"
definition P1_OUTPUTS :: u8 where "P1_OUTPUTS = 0x01"
definition P1_INPUTS :: u8 where "P1_INPUTS = 0x02"
definition P1_NEXT_SIGNATURE :: u8 where "P1_NEXT_SIGNATURE = 0x03"

lemmas apdu_consts = CLA_def P2_LAST_def P2_MORE_def P1_START_def P1_OUTPUTS_def P1_INPUTS_def
  P1_NEXT_SIGNATURE_def

datatype command_e = DEBUG_APDU | GET_VERSION | GET_APP_NAME | GET_PUBLIC_KEY | SIGN_TX | SIGN_MESSAGE

fun command_value :: "command_e \<Rightarrow> u8" where
  "command_value DEBUG_APDU = 0xde"
| "command_value GET_VERSION = 0x03"
| "command_value GET_APP_NAME = 0x04"
| "command_value GET_PUBLIC_KEY = 0x05"
| "command_value SIGN_TX = 0x06"
| "command_value SIGN_MESSAGE = 0x07"

definition SW_OK :: int where "SW_OK = 0x9000"
definition SW_DENY :: int where "SW_DENY = 0x6985"
definition SW_WRONG_P1P2 :: int where "SW_WRONG_P1P2 = 0x6A86"
definition SW_WRONG_DATA_LENGTH :: int where "SW_WRONG_DATA_LENGTH = 0x6A87"
definition SW_INS_NOT_SUPPORTED :: int where "SW_INS_NOT_SUPPORTED = 0x6D00"
definition SW_CLA_NOT_SUPPORTED :: int where "SW_CLA_NOT_SUPPORTED = 0x6E00"
definition SW_DISPLAY_BIP32_PATH_FAIL :: int where "SW_DISPLAY_BIP32_PATH_FAIL = 0xB001"
definition SW_DISPLAY_ADDRESS_FAIL :: int where "SW_DISPLAY_ADDRESS_FAIL = 0xB002"
definition SW_DISPLAY_AMOUNT_FAIL :: int where "SW_DISPLAY_AMOUNT_FAIL = 0xB003"
definition SW_TX_PARSING_FAIL :: int where "SW_TX_PARSING_FAIL = 0xB005"
definition SW_BAD_STATE :: int where "SW_BAD_STATE = 0xB007"
definition SW_WRONG_BIP32_PURPOSE :: int where "SW_WRONG_BIP32_PURPOSE = 0xB009"
definition SW_WRONG_BIP32_COIN_TYPE :: int where "SW_WRONG_BIP32_COIN_TYPE = 0xB00A"
definition SW_WRONG_BIP32_PATH_LEN :: int where "SW_WRONG_BIP32_PATH_LEN = 0xB00B"
definition SW_MESSAGE_PARSING_FAIL :: int where "SW_MESSAGE_PARSING_FAIL = 0xB010"
definition SW_MESSAGE_TOO_LONG :: int where "SW_MESSAGE_TOO_LONG = 0xB011"
definition SW_MESSAGE_TOO_SHORT :: int where "SW_MESSAGE_TOO_SHORT = 0xB012"
definition SW_MESSAGE_ADDRESS_TYPE_FAIL :: int where "SW_MESSAGE_ADDRESS_TYPE_FAIL = 0xB013"
definition SW_MESSAGE_LEN_PARSING_FAIL :: int where "SW_MESSAGE_LEN_PARSING_FAIL = 0xB015"
definition SW_MESSAGE_UNEXPECTED :: int where "SW_MESSAGE_UNEXPECTED = 0xB016"

lemmas sw_consts = SW_OK_def SW_DENY_def SW_WRONG_P1P2_def SW_WRONG_DATA_LENGTH_def
  SW_INS_NOT_SUPPORTED_def SW_CLA_NOT_SUPPORTED_def SW_DISPLAY_BIP32_PATH_FAIL_def
  SW_DISPLAY_ADDRESS_FAIL_def SW_DISPLAY_AMOUNT_FAIL_def SW_TX_PARSING_FAIL_def SW_BAD_STATE_def
  SW_WRONG_BIP32_PURPOSE_def SW_WRONG_BIP32_COIN_TYPE_def SW_WRONG_BIP32_PATH_LEN_def
  SW_MESSAGE_PARSING_FAIL_def SW_MESSAGE_TOO_LONG_def SW_MESSAGE_TOO_SHORT_def
  SW_MESSAGE_ADDRESS_TYPE_FAIL_def SW_MESSAGE_LEN_PARSING_FAIL_def SW_MESSAGE_UNEXPECTED_def

section \<open>The global context\<close>

datatype state_e = STATE_NONE | STATE_PARSED | STATE_APPROVED

text \<open>The enumerators of \<open>state_e\<close> are ordered by their values.\<close>

fun state_value :: "state_e \<Rightarrow> nat" where
  "state_value STATE_NONE = 0"
| "state_value STATE_PARSED = 1"
| "state_value STATE_APPROVED = 2"

lemma state_value_inject: "state_value a = state_value b \<longleftrightarrow> a = b"
  by (cases a; cases b) auto

instantiation state_e :: linorder
begin

definition less_eq_state_e :: "state_e \<Rightarrow> state_e \<Rightarrow> bool" where
  "less_eq_state_e a b \<longleftrightarrow> state_value a \<le> state_value b"

definition less_state_e :: "state_e \<Rightarrow> state_e \<Rightarrow> bool" where
  "less_state_e a b \<longleftrightarrow> state_value a < state_value b"

instance
  by standard (auto simp: less_eq_state_e_def less_state_e_def state_value_inject)

end

lemma state_above_parsed: "\<not> st \<le> max st' STATE_PARSED \<longleftrightarrow> st = STATE_APPROVED \<and> st' \<noteq> STATE_APPROVED"
  by (cases st; cases st') (auto simp: max_def less_eq_state_e_def)

datatype request_type_e = CONFIRM_ADDRESS | CONFIRM_TRANSACTION | CONFIRM_MESSAGE

record pubkey_ctx_t =
  raw_public_key :: bytes
  chain_code :: bytes

record transaction_ctx_t =
  transaction :: transaction_t
  signature :: bytes
  signing_input_index :: u8
  sighash :: bytes
  parsing_input_index :: u8
  parsing_output_index :: u8

record message_sign_ctx_t =
  message_len :: nat
  message :: bytes
  message_hash :: bytes
  msg_signature :: bytes
  msg_account :: u32
  msg_address_type :: u8
  msg_address_index :: u32

text \<open>The anonymous union, with the member last written.\<close>

datatype ctx_union =
    Zeroed
  | Pk_info pubkey_ctx_t
  | Tx_info transaction_ctx_t
  | Msg_info message_sign_ctx_t

record global_ctx_t =
  state :: state_e
  member :: ctx_union
  req_type :: request_type_e
  bip32_path :: "u32 list"
  bip32_path_len :: u8

definition zero_pk :: pubkey_ctx_t where
  "zero_pk = \<lparr>raw_public_key = zeros 64, chain_code = zeros 32\<rparr>"

definition zero_tx :: "nat \<Rightarrow> transaction_ctx_t" where
  "zero_tx max_inputs = \<lparr>transaction = zero_transaction max_inputs, signature = zeros MAX_DER_SIG_LEN,
     signing_input_index = 0, sighash = zeros 32, parsing_input_index = 0, parsing_output_index = 0\<rparr>"

definition zero_msg :: message_sign_ctx_t where
  "zero_msg = \<lparr>message_len = 0, message = zeros 128, message_hash = zeros 32,
     msg_signature = zeros MAX_DER_SIG_LEN, msg_account = 0, msg_address_type = 0,
     msg_address_index = 0\<rparr>"

text \<open>All bytes zero: the enumerators with value 0 are the first of each type.\<close>

definition zero_ctx :: global_ctx_t where
  "zero_ctx = \<lparr>state = STATE_NONE, member = Zeroed, req_type = CONFIRM_ADDRESS,
     bip32_path = replicate KASPA_MAX_BIP32_PATH_LEN 0, bip32_path_len = 0\<rparr>"

fun pk_info :: "ctx_union \<Rightarrow> pubkey_ctx_t option" where
  "pk_info Zeroed = Some zero_pk" | "pk_info (Pk_info p) = Some p" | "pk_info _ = None"

fun tx_info :: "nat \<Rightarrow> ctx_union \<Rightarrow> transaction_ctx_t option" where
  "tx_info n Zeroed = Some (zero_tx n)" | "tx_info n (Tx_info t) = Some t" | "tx_info n _ = None"

fun msg_info :: "ctx_union \<Rightarrow> message_sign_ctx_t option" where
  "msg_info Zeroed = Some zero_msg" | "msg_info (Msg_info m) = Some m" | "msg_info _ = None"

section \<open>The application and its surroundings\<close>

type_synonym response = "bytes \<times> u16"

text \<open>A command as the SDK's parser delivers it; \<open>data\<close> may be a null pointer.\<close>

record command_t =
  cla :: u8
  ins :: u8
  p1 :: u8
  p2 :: u8
  lc :: u8
  data :: "bytes option"

text \<open>
  Keys, signatures: a derivation takes the path's words, a signature the number of signatures
  made before it (its randomness), the key and the digest. Each returns an error code and the
  content of its destination after the call: the key or signature when the code is 0, else
  whatever the call has left there, about which nothing is assumed but the length.
\<close>

record crypto_ops =
  bip32_derive_get_pubkey_256 :: "u32 list \<Rightarrow> int \<times> bytes \<times> bytes"
  bip32_derive_init_privkey_256 :: "u32 list \<Rightarrow> int \<times> bytes"
  cx_ecfp_generate_pair_no_throw :: "bytes \<Rightarrow> int \<times> bytes"
  cx_ecschnorr_sign_no_throw :: "nat \<Rightarrow> bytes \<Rightarrow> bytes \<Rightarrow> int \<times> bytes"
  cx_ecschnorr_sign :: "bytes \<Rightarrow> bytes \<Rightarrow> bytes \<Rightarrow> bytes"

text \<open>Text formatting: verdict and content of the destination, whose size is given.\<close>

record text_ops =
  format_fpu64_trimmed :: "nat \<Rightarrow> u64 \<Rightarrow> nat \<Rightarrow> bool \<times> bytes"
  bip32_path_format :: "u32 list \<Rightarrow> nat \<Rightarrow> bool \<times> bytes"

record env =
  sdk_buffer :: buffer_ops
  sdk_write :: write_ops
  sdk_crypto :: crypto_ops
  sdk_text :: text_ops
  sdk_io :: "response list \<Rightarrow> int"
  apdu_parser :: "bytes \<Rightarrow> command_t option"
  MAX_INPUT_COUNT :: nat
  MAX_MESSAGE_LEN :: nat
  APPNAME :: bytes
  APPVERSION :: bytes
  HAVE_NBGL :: bool
  HAVE_DEBUG_APDU :: bool

text \<open>
  What is on the screen: which request is under review, and the titles and texts shown.
  \<open>responses\<close> lists what was sent. The signing calls made are listed with the key and the
  digest they were given: \<open>sign_log\<close> those of \<open>cx_ecschnorr_sign_no_throw\<close> (\<open>src/crypto.c\<close>),
  \<open>test_log\<close> those of \<open>cx_ecschnorr_sign\<close>, which only the debug command makes
  (\<open>src/handler/debug.c\<close>). There are no others in the code.
\<close>

datatype review_e = Review_Address | Review_Transaction | Review_Message

record app =
  G_context :: global_ctx_t
  pending :: "(review_e \<times> (string \<times> bytes) list) option"
  responses :: "response list"
  sign_log :: "(bytes \<times> bytes) list"
  test_log :: "(bytes \<times> bytes) list"
  running :: bool

definition io_send_response_pointer :: "env \<Rightarrow> bytes \<Rightarrow> int \<Rightarrow> app \<Rightarrow> int \<times> app" where
  "io_send_response_pointer E resp sw s =
     (let s = s\<lparr>responses := responses s @ [(resp, word_of_int sw)]\<rparr> in (sdk_io E (responses s), s))"

definition io_send_sw :: "env \<Rightarrow> int \<Rightarrow> app \<Rightarrow> int \<times> app" where
  "io_send_sw E sw s = io_send_response_pointer E [] sw s"

definition set_ctx :: "global_ctx_t \<Rightarrow> app \<Rightarrow> app" where
  "set_ctx c s = s\<lparr>G_context := c\<rparr>"

definition set_state :: "state_e \<Rightarrow> app \<Rightarrow> app" where
  "set_state st s = set_ctx ((G_context s)\<lparr>state := st\<rparr>) s"

definition set_member :: "ctx_union \<Rightarrow> app \<Rightarrow> app" where
  "set_member u s = set_ctx ((G_context s)\<lparr>member := u\<rparr>) s"

lemmas set_defs = set_ctx_def set_state_def set_member_def

section \<open>What is relied on\<close>

locale device = path_api "sdk_buffer E" + write_api "sdk_write E" for E :: env +
  assumes pubkey_len: "bip32_derive_get_pubkey_256 (sdk_crypto E) path = (err, raw, chain) \<Longrightarrow>
      length raw = 65 \<and> length chain = 32"
    and pair_len: "cx_ecfp_generate_pair_no_throw (sdk_crypto E) key = (err, W) \<Longrightarrow> length W = 65"
    and sig_len: "cx_ecschnorr_sign_no_throw (sdk_crypto E) n key hash = (err, sig) \<Longrightarrow> length sig = 64"
    and debug_sig_len: "length (cx_ecschnorr_sign (sdk_crypto E) key hash buf) = length buf"
    and parser_data: "apdu_parser E bs = Some c \<Longrightarrow>
      (case data c of None \<Rightarrow> lc c = 0 | Some d \<Rightarrow> length d = unat (lc c))"
    and fpu_len: "format_fpu64_trimmed (sdk_text E) n v k = (ok, out) \<Longrightarrow> length out = n"
    and path_len: "bip32_path_format (sdk_text E) p n = (ok, out) \<Longrightarrow> length out = n"
    and input_count: "1 \<le> MAX_INPUT_COUNT E" "MAX_INPUT_COUNT E < 256"

text \<open>A concrete device with keys and signatures made of the bytes of their arguments.\<close>

definition std_parse :: "bytes \<Rightarrow> command_t option" where
  "std_parse bs =
     (if length bs < 4 then None
      else if length bs = 4
      then Some \<lparr>cla = bs ! 0, ins = bs ! 1, p1 = bs ! 2, p2 = bs ! 3, lc = 0, data = None\<rparr>
      else if unat (bs ! 4) \<noteq> length bs - 5 then None
      else Some \<lparr>cla = bs ! 0, ins = bs ! 1, p1 = bs ! 2, p2 = bs ! 3, lc = bs ! 4,
        data = (if 5 < length bs then Some (drop 5 bs) else None)\<rparr>)"

definition fit :: "nat \<Rightarrow> bytes \<Rightarrow> bytes" where
  "fit n bs = take n (bs @ zeros n)"

lemma length_fit [simp]: "length (fit n bs) = n"
  by (simp add: fit_def)

definition std_crypto :: crypto_ops where
  "std_crypto =
    \<lparr>bip32_derive_get_pubkey_256 = (\<lambda>p. (0, fit 65 (4 # concat (map (be_bytes 4) p)), zeros 32)),
     bip32_derive_init_privkey_256 = (\<lambda>p. (0, concat (map (be_bytes 4) p))),
     cx_ecfp_generate_pair_no_throw = (\<lambda>k. (0, fit 65 (4 # k))),
     cx_ecschnorr_sign_no_throw = (\<lambda>n k h. (0, fit 64 (k @ h))),
     cx_ecschnorr_sign = (\<lambda>k h aux. fit (length aux) (k @ h))\<rparr>"

definition std_env :: env where
  "std_env =
    \<lparr>sdk_buffer = std_buffer, sdk_write = std_write, sdk_crypto = std_crypto,
     sdk_text = \<lparr>format_fpu64_trimmed = (\<lambda>n v k. (True, fit n (le_bytes 8 v))),
       bip32_path_format = (\<lambda>p n. (True, fit n (concat (map (be_bytes 4) p))))\<rparr>,
     sdk_io = (\<lambda>_. 0), apdu_parser = std_parse, MAX_INPUT_COUNT = 15, MAX_MESSAGE_LEN = 120,
     APPNAME = c_bytes ''Kaspa'', APPVERSION = [1, 0, 0], HAVE_NBGL = False, HAVE_DEBUG_APDU = False\<rparr>"

interpretation std_dev: device std_env
  by unfold_locales
    (auto simp: std_env_def std_crypto_def std_buffer_def std_write_def std_read_def std_parse_def
      take_Suc_0_nth unat_eq_zero split: if_splits)

lemma std_device: "device std_env"
  by (rule std_dev.device_axioms)

end
