(* ===== verification/Crypto.thy ===== *)
theory Crypto
  imports Context
begin

text \<open>
  Keys and signatures (\<open>src/crypto.c\<close>), the check of a parsed transaction
  (\<open>src/transaction/tx_validate.c\<close>) and the responses (\<open>src/helper/send_reponse.c\<close>).
  The exception frames of the SDK (\<open>TRY\<close>, \<open>FINALLY\<close>) and the clearing of local key
  material leave no trace in this model.
\<close>

section \<open>crypto.c\<close>

definition crypto_validate_public_key :: "env \<Rightarrow> u32 list \<Rightarrow> u8 \<Rightarrow> bytes \<Rightarrow> bool option" where
  "crypto_validate_public_key E path path_len compressed_public_key = do {
     p \<leftarrow> mem_read path 0 (unat path_len);
     let (error, raw_pubkey, chain_code) = bip32_derive_get_pubkey_256 (sdk_crypto E) p;
     if error \<noteq> 0 then Some False
     else do {
       a \<leftarrow> mem_read raw_pubkey 1 32;
       b \<leftarrow> mem_read compressed_public_key 0 32;
       Some (a = b)
     }
   }"

definition put_path :: "u32 list \<Rightarrow> u32 \<Rightarrow> u32 \<Rightarrow> u32 \<Rightarrow> u32 list option" where
  "put_path path acc ty idx = do {
     path \<leftarrow> arr_put path 0 0x8000002C;
     path \<leftarrow> arr_put path 1 0x8001b207;
     path \<leftarrow> arr_put path 2 acc;
     path \<leftarrow> arr_put path 3 ty;
     arr_put path 4 idx
   }"

definition log_sign :: "bytes \<Rightarrow> bytes \<Rightarrow> app \<Rightarrow> app" where
  "log_sign key hash s = s\<lparr>sign_log := sign_log s @ [(key, hash)]\<rparr>"

definition crypto_sign_transaction :: "env \<Rightarrow> app \<Rightarrow> (int \<times> app) option" where
  "crypto_sign_transaction E s = do {
     let c = G_context s;
     t \<leftarrow> tx_info (MAX_INPUT_COUNT E) (member c);
     txin \<leftarrow> arr_get (tx_inputs (transaction t)) (unat (signing_input_index t));
     path \<leftarrow> put_path (bip32_path c) (account (transaction t)) (ucast (in_address_type txin))
               (in_address_index txin);
     let s = set_ctx (c\<lparr>bip32_path := path, bip32_path_len := 5\<rparr>) s;
     p \<leftarrow> mem_read path 0 5;
     let (error, private_key) = bip32_derive_init_privkey_256 (sdk_crypto E) p;
     if error \<noteq> 0 then Some (error, s)
     else do {
       let t = t\<lparr>sighash := zeros 32, signature := zeros MAX_DER_SIG_LEN\<rparr>;
       let s = set_member (Tx_info t) s;
       let (error, W) = cx_ecfp_generate_pair_no_throw (sdk_crypto E) private_key;
       if error \<noteq> 0 then Some (error, s)
       else do {
         (ok, h) \<leftarrow> calc_sighash (sdk_write E) (transaction t) txin (drop 1 W) (sighash t)
                     (length (sighash t));
         let t = t\<lparr>sighash := h\<rparr>;
         let s = set_member (Tx_info t) s;
         if \<not> ok then Some (-1, s)
         else do {
           let (error, sig) =
             cx_ecschnorr_sign_no_throw (sdk_crypto E) (length (sign_log s)) private_key (sighash t);
           let t = t\<lparr>signature := sig\<rparr>;
           Some (error, log_sign private_key (sighash t) (set_member (Tx_info t) s))
         }
       }
     }
   }"

text \<open>
  The result of the derivation is not tested before the signing call, which also replaces the
  error code: after a failed derivation the call gets whatever the key's structure then holds,
  the second component of the derivation.
\<close>

definition crypto_sign_personal_message :: "env \<Rightarrow> app \<Rightarrow> (int \<times> app) option" where
  "crypto_sign_personal_message E s = do {
     let c = G_context s;
     m \<leftarrow> msg_info (member c);
     (ok, h) \<leftarrow> hash_personal_message (message m) (message_len m) (message_hash m)
                 (length (message_hash m));
     let m = m\<lparr>message_hash := h\<rparr>;
     let s = set_member (Msg_info m) s;
     if \<not> ok then Some (-1, s)
     else do {
       p \<leftarrow> mem_read (bip32_path c) 0 (unat (bip32_path_len c));
       let (error, private_key) = bip32_derive_init_privkey_256 (sdk_crypto E) p;
       let (error, sig) =
         cx_ecschnorr_sign_no_throw (sdk_crypto E) (length (sign_log s)) private_key (message_hash m);
       let m = m\<lparr>msg_signature := sig\<rparr>;
       Some (error, log_sign private_key (message_hash m) (set_member (Msg_info m) s))
     }
   }"

section \<open>tx_validate.c\<close>

text \<open>The transaction is the one in the context; the function changes the context's path.\<close>

definition tx_validate_parsed_transaction :: "env \<Rightarrow> transaction_t \<Rightarrow> app \<Rightarrow> (bool \<times> app) option" where
  "tx_validate_parsed_transaction E tx s =
    (if tx_output_len tx > 2 \<or> tx_output_len tx < 1 then Some (False, s)
     else if tx_input_len tx < 1 then Some (False, s)
     else do {
       (valid, s) \<leftarrow>
         (if tx_output_len tx = 2 then do {
            change_output \<leftarrow> arr_get (tx_outputs tx) 1;
            b \<leftarrow> arr_get (out_script_public_key change_output) 0;
            if b \<noteq> 0x20 then Some (False, s)
            else do {
              change_address_pubkey \<leftarrow> mem_read (out_script_public_key change_output) 1 32;
              let c = G_context s;
              path \<leftarrow> arr_put (bip32_path c) 0 0x8000002C;
              path \<leftarrow> arr_put path 1 0x8001b207;
              path \<leftarrow> arr_put path 2 (account tx);
              let s = set_ctx (c\<lparr>bip32_path := path, bip32_path_len := 5\<rparr>) s;
              ok \<leftarrow> crypto_validate_public_key E path 5 change_address_pubkey;
              Some (ok, s)
            }
          } else Some (True, s));
       if \<not> valid then Some (False, s)
       else do {
         ins \<leftarrow> mem_read (tx_inputs tx) 0 (tx_input_len tx);
         let input_total = foldl (\<lambda>total i. total + in_value i) 0 ins;
         outs \<leftarrow> mem_read (tx_outputs tx) 0 (tx_output_len tx);
         let output_total = foldl (\<lambda>total x. total + out_value x) 0 outs;
         if input_total < output_total then Some (False, s) else Some (True, s)
       }
     })"

section \<open>send_reponse.c\<close>

text \<open>Each response is built in a zeroed array of the size the code declares.\<close>

definition helper_send_response_pubkey :: "env \<Rightarrow> app \<Rightarrow> (int \<times> app) option" where
  "helper_send_response_pubkey E s = do {
     p \<leftarrow> pk_info (member (G_context s));
     let resp = zeros (1 + 1 + 64 + 1 + 32);
     let off = 0;
     resp \<leftarrow> arr_put resp off (64 + 1); let off = off + 1;
     resp \<leftarrow> arr_put resp off 0x04; let off = off + 1;
     d \<leftarrow> mem_read (raw_public_key p) 0 64;
     resp \<leftarrow> mem_write resp off d; let off = off + 64;
     resp \<leftarrow> arr_put resp off 32; let off = off + 1;
     d \<leftarrow> mem_read (chain_code p) 0 32;
     resp \<leftarrow> mem_write resp off d; let off = off + 32;
     d \<leftarrow> mem_read resp 0 off;
     Some (io_send_response_pointer E d SW_OK s)
   }"

definition helper_send_response_sig :: "env \<Rightarrow> app \<Rightarrow> (int \<times> app) option" where
  "helper_send_response_sig E s = do {
     t \<leftarrow> tx_info (MAX_INPUT_COUNT E) (member (G_context s));
     let resp = zeros (3 + MAX_DER_SIG_LEN + 34);
     let off = 0;
     resp \<leftarrow> arr_put resp off
       (word_of_int (int (tx_input_len (transaction t)) - int (unat (signing_input_index t)) - 1));
     let off = off + 1;
     resp \<leftarrow> arr_put resp off (signing_input_index t); let off = off + 1;
     resp \<leftarrow> arr_put resp off (word_of_nat MAX_DER_SIG_LEN); let off = off + 1;
     d \<leftarrow> mem_read (signature t) 0 MAX_DER_SIG_LEN;
     resp \<leftarrow> mem_write resp off d; let off = off + MAX_DER_SIG_LEN;
     resp \<leftarrow> arr_put resp off (word_of_nat (length (sighash t))); let off = off + 1;
     resp \<leftarrow> mem_write resp off (sighash t); let off = off + length (sighash t);
     d \<leftarrow> mem_read resp 0 off;
     Some (io_send_response_pointer E d SW_OK s)
   }"

definition helper_send_response_personal_message_sig :: "env \<Rightarrow> app \<Rightarrow> (int \<times> app) option" where
  "helper_send_response_personal_message_sig E s = do {
     m \<leftarrow> msg_info (member (G_context s));
     let resp = zeros (3 + MAX_DER_SIG_LEN + 34);
     let off = 0;
     resp \<leftarrow> arr_put resp off (word_of_nat MAX_DER_SIG_LEN); let off = off + 1;
     d \<leftarrow> mem_read (msg_signature m) 0 MAX_DER_SIG_LEN;
     resp \<leftarrow> mem_write resp off d; let off = off + MAX_DER_SIG_LEN;
     resp \<leftarrow> arr_put resp off (word_of_nat (length (message_hash m))); let off = off + 1;
     resp \<leftarrow> mem_write resp off (message_hash m); let off = off + length (message_hash m);
     d \<leftarrow> mem_read resp 0 off;
     Some (io_send_response_pointer E d SW_OK s)
   }"

section \<open>Well-formed contexts\<close>

text \<open>The arrays of the structures have their sizes and the parsing counters their bounds.\<close>

definition wf_tx_ctx :: "nat \<Rightarrow> transaction_ctx_t \<Rightarrow> bool" where
  "wf_tx_ctx n t \<longleftrightarrow> wf_transaction n (transaction t) \<and> length (signature t) = 64 \<and>
     length (sighash t) = 32 \<and>
     unat (parsing_output_index t) \<le> MAX_OUTPUT_COUNT \<and>
     unat (parsing_input_index t) \<le> n"

fun wf_member :: "nat \<Rightarrow> ctx_union \<Rightarrow> bool" where
  "wf_member n Zeroed \<longleftrightarrow> True"
| "wf_member n (Pk_info p) \<longleftrightarrow> length (raw_public_key p) = 64 \<and> length (chain_code p) = 32"
| "wf_member n (Tx_info t) \<longleftrightarrow> wf_tx_ctx n t"
| "wf_member n (Msg_info m) \<longleftrightarrow> length (message m) = 128 \<and> length (message_hash m) = 32 \<and>
     length (msg_signature m) = 64"

definition wf_ctx :: "nat \<Rightarrow> global_ctx_t \<Rightarrow> bool" where
  "wf_ctx n c \<longleftrightarrow> wf_member n (member c) \<and> length (bip32_path c) = 5"

lemma wf_zero_tx [simp]: "wf_tx_ctx n (zero_tx n)"
  by (simp add: wf_tx_ctx_def zero_tx_def MAX_DER_SIG_LEN_def)

lemma wf_zero_ctx [simp]: "wf_ctx n zero_ctx"
  by (simp add: wf_ctx_def zero_ctx_def size_consts)

lemma put_path_eq:
  "length path = 5 \<Longrightarrow> put_path path acc ty idx = Some (header_path acc ty idx)"
  by (auto simp: put_path_def header_path_def arr_put_def numeral_eq_Suc length_Suc_conv)

lemma length_header_path [simp]: "length (header_path acc ty idx) = 5"
  by (simp add: header_path_def)

end
