(* ===== verification/Display.thy ===== *)
theory Display
  imports Crypto
begin

text \<open>
  What the user sees: the message formatter \<open>src/common/format_local.c\<close> and the review
  screens of both device families, \<open>src/ui/bagl_display.c\<close> and
  \<open>src/ui/nbgl_display_*.c\<close>. The pages of a screen are data: titles with the static buffers
  that hold the texts. Showing a screen makes the request pending, with the texts in view,
  until the user chooses.
\<close>

section \<open>C strings\<close>

definition cstr :: "bytes \<Rightarrow> bytes" where
  "cstr bs = takeWhile (\<lambda>b. b \<noteq> 0) bs"

text \<open>\<open>snprintf\<close> of a string into a zeroed buffer of \<open>n\<close> bytes, and the argument of
  \<open>%.*s\<close>: at most \<open>n\<close> bytes, up to the first zero.\<close>

definition snprintf_buf :: "nat \<Rightarrow> bytes \<Rightarrow> bytes" where
  "snprintf_buf n str = (let t = take (n - 1) str in t @ zeros (n - length t))"

definition prec_str :: "nat \<Rightarrow> bytes \<Rightarrow> bytes" where
  "prec_str n bs = cstr (take n bs)"

definition isspace :: "u8 \<Rightarrow> bool" where
  "isspace c \<longleftrightarrow> c = 0x20 \<or> 0x09 \<le> c \<and> c \<le> 0x0d"

definition isprint :: "u8 \<Rightarrow> bool" where
  "isprint c \<longleftrightarrow> 0x20 \<le> c \<and> c \<le> 0x7e"

section \<open>format_local.c\<close>

definition hex_digit :: "u8 \<Rightarrow> u8" where
  "hex_digit d = (if d < 10 then 0x30 + d else 0x61 + (d - 10))"

definition escape :: "u8 \<Rightarrow> bytes" where
  "escape c = [0x5c, 0x78, hex_digit (drop_bit 4 c), hex_digit (c AND 0x0f)]"

text \<open>
  The loop over the source, with the destination and the write position. Plain \<open>char\<close> is
  unsigned on the device. \<open>sprintf\<close> and \<open>snprintf\<close> also write the terminating zero.
\<close>

fun format_loop :: "nat \<Rightarrow> bytes \<Rightarrow> bytes \<Rightarrow> nat \<Rightarrow> bytes option" where
  "format_loop msg_dest_len [] msg_dest dest_idx = Some msg_dest"
| "format_loop msg_dest_len (c # cs) msg_dest dest_idx =
     (if \<not> dest_idx < msg_dest_len then Some msg_dest
      else
        let c = (if isspace c then 0x20 else c)
        in if isprint c then do {
             msg_dest \<leftarrow> mem_write msg_dest dest_idx [c, 0];
             format_loop msg_dest_len cs msg_dest (dest_idx + 1)
           } else
             let remaining_buffer_length = msg_dest_len - dest_idx - 1
             in if remaining_buffer_length \<ge> 4 then do {
                  msg_dest \<leftarrow> mem_write msg_dest dest_idx
                    (take (remaining_buffer_length - 1) (escape c) @ [0]);
                  format_loop msg_dest_len cs msg_dest (dest_idx + 4)
                } else do {
                  msg_dest \<leftarrow> mem_write msg_dest dest_idx (replicate remaining_buffer_length 0x20);
                  format_loop msg_dest_len cs msg_dest (dest_idx + remaining_buffer_length)
                })"

definition format_message_to_sign :: "bytes \<Rightarrow> nat \<Rightarrow> bytes \<Rightarrow> nat \<Rightarrow> bytes option" where
  "format_message_to_sign msg_dest msg_dest_len msg_src msg_src_len = do {
     src \<leftarrow> mem_read msg_src 0 msg_src_len;
     format_loop msg_dest_len src msg_dest 0
   }"

section \<open>Screens\<close>

text \<open>
  The static text buffers. A display function fills those its screen shows; the contents are a
  map of the buffers it has filled, and a page over another buffer, which would show what an
  earlier request left there, has no result.
\<close>

datatype text_buffer = G_amount | G_bip32_path | G_address | G_fees | G_message

primrec shown_texts ::
  "(text_buffer \<rightharpoonup> bytes) \<Rightarrow> (string \<times> text_buffer) list \<Rightarrow> (string \<times> bytes) list option" where
  "shown_texts g [] = Some []"
| "shown_texts g (p # ps) = do {
     t \<leftarrow> g (snd p);
     ts \<leftarrow> shown_texts g ps;
     Some ((fst p, cstr t) # ts)
   }"

text \<open>
  The steps of a flow: lines of text under an icon, a title with a text buffer, or a button
  with its callback. \<open>Cb_choice\<close> calls \<open>g_validate_callback\<close>, and \<open>review_e\<close> says which one is
  set; the others belong to the menus.
\<close>

datatype ux_callback = Cb_choice bool | Cb_menu_main | Cb_menu_about | Cb_exit

datatype ux_step = Step_nocb "bytes list" | Step_text string text_buffer | Step_cb string ux_callback

definition ux_display_confirm_addr_step :: ux_step where
  "ux_display_confirm_addr_step = Step_nocb [c_bytes ''Confirm Address'']"

definition ux_display_path_step :: ux_step where
  "ux_display_path_step = Step_text ''Path'' G_bip32_path"

definition ux_display_address_step :: ux_step where
  "ux_display_address_step = Step_text ''Address'' G_address"

definition ux_display_approve_step :: ux_step where
  "ux_display_approve_step = Step_cb ''Approve'' (Cb_choice True)"

definition ux_display_reject_step :: ux_step where
  "ux_display_reject_step = Step_cb ''Reject'' (Cb_choice False)"

definition ux_display_pubkey_flow :: "ux_step list" where
  "ux_display_pubkey_flow = [ux_display_confirm_addr_step, ux_display_path_step,
     ux_display_address_step, ux_display_approve_step, ux_display_reject_step]"

definition ux_display_review_step :: ux_step where
  "ux_display_review_step = Step_nocb [c_bytes ''Review'', c_bytes ''Transaction'']"

definition ux_display_amount_step :: ux_step where
  "ux_display_amount_step = Step_text ''Amount'' G_amount"

definition ux_display_fees_step :: ux_step where
  "ux_display_fees_step = Step_text ''Fees'' G_fees"

definition ux_display_transaction_flow :: "ux_step list" where
  "ux_display_transaction_flow = [ux_display_review_step, ux_display_address_step,
     ux_display_amount_step, ux_display_fees_step, ux_display_approve_step, ux_display_reject_step]"

definition ux_display_confirm_message_step :: ux_step where
  "ux_display_confirm_message_step = Step_nocb [c_bytes ''Review Message'']"

definition ux_display_message_step :: ux_step where
  "ux_display_message_step = Step_text ''Message'' G_message"

definition ux_display_message_flow :: "ux_step list" where
  "ux_display_message_flow = [ux_display_confirm_message_step, ux_display_path_step,
     ux_display_message_step, ux_display_approve_step, ux_display_reject_step]"

lemmas ux_steps = ux_display_confirm_addr_step_def ux_display_path_step_def ux_display_address_step_def
  ux_display_approve_step_def ux_display_reject_step_def ux_display_review_step_def
  ux_display_amount_step_def ux_display_fees_step_def ux_display_confirm_message_step_def
  ux_display_message_step_def

lemmas ux_flows = ux_display_pubkey_flow_def ux_display_transaction_flow_def ux_display_message_flow_def

definition flow_pairs :: "ux_step list \<Rightarrow> (string \<times> text_buffer) list" where
  "flow_pairs steps = concat (map (\<lambda>st. case st of Step_text title b \<Rightarrow> [(title, b)] | _ \<Rightarrow> []) steps)"

lemma flow_pairs_flows [simp]:
  "flow_pairs ux_display_pubkey_flow = [(''Path'', G_bip32_path), (''Address'', G_address)]"
  "flow_pairs ux_display_transaction_flow =
     [(''Address'', G_address), (''Amount'', G_amount), (''Fees'', G_fees)]"
  "flow_pairs ux_display_message_flow = [(''Path'', G_bip32_path), (''Message'', G_message)]"
  by (simp_all add: flow_pairs_def ux_flows ux_steps)

definition show_review ::
  "review_e \<Rightarrow> (text_buffer \<rightharpoonup> bytes) \<Rightarrow> (string \<times> text_buffer) list \<Rightarrow> app \<Rightarrow> (int \<times> app) option" where
  "show_review r g pairs s = do {
     texts \<leftarrow> shown_texts g pairs;
     Some (0, s\<lparr>pending := Some (r, texts)\<rparr>)
   }"

text \<open>The pages of the other family are lists of pairs.\<close>

definition nbgl_address_pairs :: "(string \<times> text_buffer) list" where
  "nbgl_address_pairs = [(''BIP32 Path'', G_bip32_path)]"

definition nbgl_transaction_pairs :: "(string \<times> text_buffer) list" where
  "nbgl_transaction_pairs = [(''Amount'', G_amount), (''To'', G_address), (''Fees'', G_fees)]"

definition nbgl_message_pairs :: "(string \<times> text_buffer) list" where
  "nbgl_message_pairs = [(''BIP32 Path'', G_bip32_path), (''Message'', G_message)]"

lemmas nbgl_pairs [simp] = nbgl_address_pairs_def nbgl_transaction_pairs_def nbgl_message_pairs_def

section \<open>bagl_display.c\<close>

definition bad_state :: "env \<Rightarrow> app \<Rightarrow> (int \<times> app) option" where
  "bad_state E s = Some (io_send_sw E SW_BAD_STATE (set_state STATE_NONE s))"

definition bagl_ui_display_address :: "env \<Rightarrow> app \<Rightarrow> (int \<times> app) option" where
  "bagl_ui_display_address E s =
    (let c = G_context s
     in if req_type c \<noteq> CONFIRM_ADDRESS \<or> state c \<noteq> STATE_NONE then bad_state E s
     else do {
       p \<leftarrow> mem_read (bip32_path c) 0 (unat (bip32_path_len c));
       let (ok, g_bip32_path) = bip32_path_format (sdk_text E) p 60;
       if \<not> ok then Some (io_send_sw E SW_DISPLAY_BIP32_PATH_FAIL s)
       else do {
         pk \<leftarrow> pk_info (member c);
         (ok, address) \<leftarrow>
           address_from_pubkey (raw_public_key pk) SCHNORR (zeros ECDSA_ADDRESS_LEN) ECDSA_ADDRESS_LEN;
         if \<not> ok then Some (io_send_sw E SW_DISPLAY_ADDRESS_FAIL s)
         else do {
           let g_address = snprintf_buf (ECDSA_ADDRESS_LEN + 6) (prec_str ECDSA_ADDRESS_LEN address);
           show_review Review_Address [G_bip32_path \<mapsto> g_bip32_path, G_address \<mapsto> g_address]
             (flow_pairs ux_display_pubkey_flow) s
         }
       }
     })"

definition bagl_ui_display_transaction :: "env \<Rightarrow> app \<Rightarrow> (int \<times> app) option" where
  "bagl_ui_display_transaction E s =
    (let c = G_context s
     in if req_type c \<noteq> CONFIRM_TRANSACTION \<or> state c \<noteq> STATE_PARSED then bad_state E s
     else do {
       t \<leftarrow> tx_info (MAX_INPUT_COUNT E) (member c);
       let tx = transaction t;
       out0 \<leftarrow> arr_get (tx_outputs tx) 0;
       let (ok, amount) =
         format_fpu64_trimmed (sdk_text E) 30 (out_value out0) EXPONENT_SMALLEST_UNIT;
       if \<not> ok then Some (io_send_sw E SW_DISPLAY_AMOUNT_FAIL s)
       else do {
         let g_amount = snprintf_buf 30 (c_bytes ''KAS '' @ prec_str 30 amount);
         f \<leftarrow> calc_fees (tx_inputs tx) (tx_input_len tx) (tx_outputs tx) (tx_output_len tx);
         let (ok, fees) = format_fpu64_trimmed (sdk_text E) 30 f EXPONENT_SMALLEST_UNIT;
         if \<not> ok then Some (io_send_sw E SW_DISPLAY_AMOUNT_FAIL s)
         else do {
           let g_fees = snprintf_buf 30 (c_bytes ''KAS '' @ prec_str 30 fees);
           (_, address) \<leftarrow> script_public_key_to_address (zeros ECDSA_ADDRESS_LEN) ECDSA_ADDRESS_LEN
             (out_script_public_key out0) SCRIPT_PUBLIC_KEY_BUFFER_LEN;
           let g_address = snprintf_buf (ECDSA_ADDRESS_LEN + 6) (prec_str ECDSA_ADDRESS_LEN address);
           show_review Review_Transaction
             [G_amount \<mapsto> g_amount, G_fees \<mapsto> g_fees, G_address \<mapsto> g_address]
             (flow_pairs ux_display_transaction_flow) s
         }
       }
     })"

definition bagl_ui_display_message :: "env \<Rightarrow> app \<Rightarrow> (int \<times> app) option" where
  "bagl_ui_display_message E s =
    (let c = G_context s
     in if req_type c \<noteq> CONFIRM_MESSAGE \<or> state c \<noteq> STATE_NONE then bad_state E s
     else do {
       p \<leftarrow> mem_read (bip32_path c) 0 (unat (bip32_path_len c));
       let (ok, g_bip32_path) = bip32_path_format (sdk_text E) p 60;
       if \<not> ok then Some (io_send_sw E SW_DISPLAY_BIP32_PATH_FAIL s)
       else do {
         m \<leftarrow> msg_info (member c);
         g_message \<leftarrow> format_message_to_sign (zeros (MAX_MESSAGE_LEN E + 6)) (MAX_MESSAGE_LEN E + 6)
           (message m) (message_len m);
         show_review Review_Message [G_bip32_path \<mapsto> g_bip32_path, G_message \<mapsto> g_message]
           (flow_pairs ux_display_message_flow) s
       }
     })"

section \<open>nbgl_display_address.c, nbgl_display_transaction.c, nbgl_display_message.c\<close>

definition nbgl_ui_display_address :: "env \<Rightarrow> app \<Rightarrow> (int \<times> app) option" where
  "nbgl_ui_display_address E s =
    (let c = G_context s
     in if req_type c \<noteq> CONFIRM_ADDRESS \<or> state c \<noteq> STATE_NONE then bad_state E s
     else do {
       p \<leftarrow> mem_read (bip32_path c) 0 (unat (bip32_path_len c));
       let (ok, g_bip32_path) = bip32_path_format (sdk_text E) p 60;
       if \<not> ok then Some (io_send_sw E SW_DISPLAY_BIP32_PATH_FAIL s)
       else do {
         pk \<leftarrow> pk_info (member c);
         (ok, address) \<leftarrow> address_from_pubkey (raw_public_key pk) SCHNORR (zeros SCHNORR_ADDRESS_LEN)
           SCHNORR_ADDRESS_LEN;
         if \<not> ok then Some (io_send_sw E SW_DISPLAY_ADDRESS_FAIL s)
         else do {
           let g_address = snprintf_buf (ECDSA_ADDRESS_LEN + 6) (prec_str SCHNORR_ADDRESS_LEN address);
           show_review Review_Address [G_bip32_path \<mapsto> g_bip32_path, G_address \<mapsto> g_address]
             ((''Address'', G_address) # nbgl_address_pairs) s
         }
       }
     })"

definition nbgl_ui_display_transaction :: "env \<Rightarrow> app \<Rightarrow> (int \<times> app) option" where
  "nbgl_ui_display_transaction E s =
    (let c = G_context s
     in if req_type c \<noteq> CONFIRM_TRANSACTION \<or> state c \<noteq> STATE_PARSED then bad_state E s
     else do {
       t \<leftarrow> tx_info (MAX_INPUT_COUNT E) (member c);
       let tx = transaction t;
       out0 \<leftarrow> arr_get (tx_outputs tx) 0;
       let (ok, amount) =
         format_fpu64_trimmed (sdk_text E) 30 (out_value out0) EXPONENT_SMALLEST_UNIT;
       if \<not> ok then Some (io_send_sw E SW_DISPLAY_AMOUNT_FAIL s)
       else do {
         let g_amount = snprintf_buf 30 (c_bytes ''KAS '' @ prec_str 30 amount);
         f \<leftarrow> calc_fees (tx_inputs tx) (tx_input_len tx) (tx_outputs tx) (tx_output_len tx);
         let (ok, fees) = format_fpu64_trimmed (sdk_text E) 30 f EXPONENT_SMALLEST_UNIT;
         if \<not> ok then Some (io_send_sw E SW_DISPLAY_AMOUNT_FAIL s)
         else do {
           let g_fees = snprintf_buf 30 (c_bytes ''KAS '' @ prec_str 30 fees);
           (_, address) \<leftarrow> script_public_key_to_address (zeros ECDSA_ADDRESS_LEN) ECDSA_ADDRESS_LEN
             (out_script_public_key out0) SCRIPT_PUBLIC_KEY_BUFFER_LEN;
           let g_address = snprintf_buf (ECDSA_ADDRESS_LEN + 6) (prec_str ECDSA_ADDRESS_LEN address);
           show_review Review_Transaction
             [G_amount \<mapsto> g_amount, G_fees \<mapsto> g_fees, G_address \<mapsto> g_address]
             nbgl_transaction_pairs s
         }
       }
     })"

definition nbgl_ui_display_message :: "env \<Rightarrow> app \<Rightarrow> (int \<times> app) option" where
  "nbgl_ui_display_message E s =
    (let c = G_context s
     in if req_type c \<noteq> CONFIRM_MESSAGE \<or> state c \<noteq> STATE_NONE then bad_state E s
     else do {
       p \<leftarrow> mem_read (bip32_path c) 0 (unat (bip32_path_len c));
       let (ok, g_bip32_path) = bip32_path_format (sdk_text E) p 60;
       if \<not> ok then Some (io_send_sw E SW_DISPLAY_BIP32_PATH_FAIL s)
       else do {
         m \<leftarrow> msg_info (member c);
         g_message \<leftarrow> format_message_to_sign (zeros (MAX_MESSAGE_LEN E)) (MAX_MESSAGE_LEN E)
           (message m) (message_len m);
         show_review Review_Message [G_bip32_path \<mapsto> g_bip32_path, G_message \<mapsto> g_message]
           nbgl_message_pairs s
       }
     })"

text \<open>The build links one of the two families.\<close>

definition ui_display_address :: "env \<Rightarrow> app \<Rightarrow> (int \<times> app) option" where
  "ui_display_address E s =
     (if HAVE_NBGL E then nbgl_ui_display_address E s else bagl_ui_display_address E s)"

definition ui_display_transaction :: "env \<Rightarrow> app \<Rightarrow> (int \<times> app) option" where
  "ui_display_transaction E s =
     (if HAVE_NBGL E then nbgl_ui_display_transaction E s else bagl_ui_display_transaction E s)"

definition ui_display_message :: "env \<Rightarrow> app \<Rightarrow> (int \<times> app) option" where
  "ui_display_message E s =
     (if HAVE_NBGL E then nbgl_ui_display_message E s else bagl_ui_display_message E s)"

end
