(* ===== verification/Handlers.thy ===== *)
theory Handlers
  imports Display
begin

text \<open>
  The command handlers (\<open>src/handler\<close>), the user's decisions
  (\<open>src/ui/action/validate.c\<close>), the dispatcher (\<open>src/apdu/dispatcher.c\<close>) and one
  round of the main loop (\<open>src/app_main.c\<close>).
\<close>

section \<open>Plain answers\<close>

definition handler_get_version :: "env \<Rightarrow> app \<Rightarrow> (int \<times> app) option" where
  "handler_get_version E s = Some (io_send_response_pointer E (take 3 (APPVERSION E)) SW_OK s)"

definition handler_get_app_name :: "env \<Rightarrow> app \<Rightarrow> (int \<times> app) option" where
  "handler_get_app_name E s = Some (io_send_response_pointer E (APPNAME E) SW_OK s)"

section \<open>handler/debug.c\<close>

text \<open>The BIP340 test vectors: key, randomness and message.\<close>

definition debug_vector_1 :: "bytes \<times> bytes \<times> bytes" where
  "debug_vector_1 = (zeros 31 @ [0x03], zeros 32, zeros 32)"

definition debug_vector_2 :: "bytes \<times> bytes \<times> bytes" where
  "debug_vector_2 =
    ([0xB7, 0xE1, 0x51, 0x62, 0x8A, 0xED, 0x2A, 0x6A,
      0xBF, 0x71, 0x58, 0x80, 0x9C, 0xF4, 0xF3, 0xC7,
      0x62, 0xE7, 0x16, 0x0F, 0x38, 0xB4, 0xDA, 0x56,
      0xA7, 0x84, 0xD9, 0x04, 0x51, 0x90, 0xCF, 0xEF],
     zeros 31 @ [0x01],
     [0x24, 0x3F, 0x6A, 0x88, 0x85, 0xA3, 0x08, 0xD3,
      0x13, 0x19, 0x8A, 0x2E, 0x03, 0x70, 0x73, 0x44,
      0xA4, 0x09, 0x38, 0x22, 0x29, 0x9F, 0x31, 0xD0,
      0x08, 0x2E, 0xFA, 0x98, 0xEC, 0x4E, 0x6C, 0x89])"

definition debug_vector_3 :: "bytes \<times> bytes \<times> bytes" where
  "debug_vector_3 =
    ([0xC9, 0x0F, 0xDA, 0xA2, 0x21, 0x68, 0xC2, 0x34,
      0xC4, 0xC6, 0x62, 0x8B, 0x80, 0xDC, 0x1C, 0xD1,
      0x29, 0x02, 0x4E, 0x08, 0x8A, 0x67, 0xCC, 0x74,
      0x02, 0x0B, 0xBE, 0xA6, 0x3B, 0x14, 0xE5, 0xC9],
     [0xC8, 0x7A, 0xA5, 0x38, 0x24, 0xB4, 0xD7, 0xAE,
      0x2E, 0xB0, 0x35, 0xA2, 0xB5, 0xBB, 0xBC, 0xCC,
      0x08, 0x0E, 0x76, 0xCD, 0xC6, 0xD1, 0x69, 0x2C,
      0x4B, 0x0B, 0x62, 0xD7, 0x98, 0xE6, 0xD9, 0x06],
     [0x7E, 0x2D, 0x58, 0xD8, 0xB3, 0xBC, 0xDF, 0x1A,
      0xBA, 0xDE, 0xC7, 0x82, 0x90, 0x54, 0xF9, 0x0D,
      0xDA, 0x98, 0x05, 0xAA, 0xB5, 0x6C, 0x77, 0x33,
      0x30, 0x24, 0xB9, 0xD0, 0xA5, 0x08, 0xB7, 0x5C])"

definition debug_vector_4 :: "bytes \<times> bytes \<times> bytes" where
  "debug_vector_4 =
    ([0x0B, 0x43, 0x2B, 0x26, 0x77, 0x93, 0x73, 0x81,
      0xAE, 0xF0, 0x5B, 0xB0, 0x2A, 0x66, 0xEC, 0xD0,
      0x12, 0x77, 0x30, 0x62, 0xCF, 0x3F, 0xA2, 0x54,
      0x9E, 0x44, 0xF5, 0x8E, 0xD2, 0x40, 0x17, 0x10],
     replicate 32 0xFF,
     replicate 32 0xFF)"

text \<open>The signature buffer of 72 bytes holds the randomness first, then the signature. The call of
  \<open>cx_ecschnorr_sign\<close> is recorded with its key and message.\<close>

definition log_test :: "bytes \<Rightarrow> bytes \<Rightarrow> app \<Rightarrow> app" where
  "log_test key msg s = s\<lparr>test_log := test_log s @ [(key, msg)]\<rparr>"

definition debug_test_case :: "env \<Rightarrow> bytes \<times> bytes \<times> bytes \<Rightarrow> bytes \<Rightarrow> app \<Rightarrow> (bytes \<times> app) option" where
  "debug_test_case E v sig s = (case v of (private_key_data, aux_rand, msg) \<Rightarrow> do {
     sig \<leftarrow> mem_write sig 0 aux_rand;
     Some (cx_ecschnorr_sign (sdk_crypto E) private_key_data msg sig, log_test private_key_data msg s)
   })"

definition debug_send_response_sig :: "env \<Rightarrow> bytes \<Rightarrow> app \<Rightarrow> (int \<times> app) option" where
  "debug_send_response_sig E sig s = do {
     let resp = zeros 66;
     resp \<leftarrow> arr_put resp 0 64;
     d \<leftarrow> mem_read sig 0 64;
     resp \<leftarrow> mem_write resp 1 d;
     d \<leftarrow> mem_read resp 0 65;
     Some (io_send_response_pointer E d SW_OK s)
   }"

definition debug_vector :: "nat \<Rightarrow> bytes \<times> bytes \<times> bytes" where
  "debug_vector test_case =
     (if test_case = 1 then debug_vector_1 else if test_case = 2 then debug_vector_2
      else if test_case = 3 then debug_vector_3 else if test_case = 4 then debug_vector_4
      else debug_vector_1)"

definition handler_debug :: "env \<Rightarrow> nat \<Rightarrow> app \<Rightarrow> (int \<times> app) option" where
  "handler_debug E test_case s = do {
     (sig, s) \<leftarrow> debug_test_case E (debug_vector test_case) (zeros 72) s;
     debug_send_response_sig E sig s
   }"

section \<open>handler/get_public_key.c\<close>

definition reset_ctx :: "request_type_e \<Rightarrow> app \<Rightarrow> app" where
  "reset_ctx r s = set_ctx (zero_ctx\<lparr>req_type := r, state := STATE_NONE\<rparr>) s"

definition handler_get_public_key :: "env \<Rightarrow> buffer_t \<Rightarrow> bool \<Rightarrow> app \<Rightarrow> (int \<times> app) option" where
  "handler_get_public_key E cdata display s = do {
     let s = reset_ctx CONFIRM_ADDRESS s;
     let (ok, n, cdata) = buffer_read_u8 (sdk_buffer E) cdata (bip32_path_len (G_context s));
     let s = set_ctx ((G_context s)\<lparr>bip32_path_len := n\<rparr>) s;
     if \<not> ok then Some (io_send_sw E SW_WRONG_DATA_LENGTH s)
     else do {
       let (ok, ws, cdata) = buffer_read_bip32_path (sdk_buffer E) cdata (unat n);
       path \<leftarrow> mem_write (bip32_path (G_context s)) 0 ws;
       let c = (G_context s)\<lparr>bip32_path := path\<rparr>;
       let s = set_ctx c s;
       if \<not> ok then Some (io_send_sw E SW_WRONG_DATA_LENGTH s)
       else if bip32_path_len c < 2 \<or> bip32_path_len c > 5
       then Some (io_send_sw E SW_WRONG_BIP32_PATH_LEN s)
       else if path ! 0 \<noteq> 0x8000002c then Some (io_send_sw E SW_WRONG_BIP32_PURPOSE s)
       else if path ! 1 \<noteq> 0x8001b207 then Some (io_send_sw E SW_WRONG_BIP32_COIN_TYPE s)
       else do {
         p \<leftarrow> mem_read path 0 (unat (bip32_path_len c));
         pk \<leftarrow> pk_info (member c);
         let (error, raw_pubkey, chain) = bip32_derive_get_pubkey_256 (sdk_crypto E) p;
         let pk = pk\<lparr>chain_code := chain\<rparr>;
         let s = set_member (Pk_info pk) s;
         if error \<noteq> 0 then Some (io_send_sw E error s)
         else do {
           d \<leftarrow> mem_read raw_pubkey 1 64;
           r \<leftarrow> mem_write (raw_public_key pk) 0 d;
           let s = set_member (Pk_info (pk\<lparr>raw_public_key := r\<rparr>)) s;
           if display then ui_display_address E s else helper_send_response_pubkey E s
         }
       }
     }
   }"

section \<open>handler/sign_msg.c\<close>

definition handler_sign_msg :: "env \<Rightarrow> buffer_t \<Rightarrow> app \<Rightarrow> (int \<times> app) option" where
  "handler_sign_msg E cdata s = do {
     let s = reset_ctx CONFIRM_MESSAGE s;
     let put = (\<lambda>m. set_member (Msg_info m) s);
     let m = zero_msg;
     let (ok, v, cdata) = buffer_read_u8 (sdk_buffer E) cdata (msg_address_type m);
     let m = m\<lparr>msg_address_type := v\<rparr>;
     if \<not> ok then Some (io_send_sw E SW_MESSAGE_ADDRESS_TYPE_FAIL (put m))
     else if msg_address_type m \<noteq> 0 \<and> msg_address_type m \<noteq> 1
     then Some (io_send_sw E SW_MESSAGE_ADDRESS_TYPE_FAIL (put m))
     else do {
       let (ok, v, cdata) = buffer_read_u32 (sdk_buffer E) cdata (msg_address_index m) BE;
       let m = m\<lparr>msg_address_index := v\<rparr>;
       if \<not> ok then Some (io_send_sw E SW_MESSAGE_ADDRESS_TYPE_FAIL (put m))
       else do {
         let (ok, v, cdata) = buffer_read_u32 (sdk_buffer E) cdata (msg_account m) BE;
         let m = m\<lparr>msg_account := v\<rparr>;
         if \<not> ok then Some (io_send_sw E SW_MESSAGE_ADDRESS_TYPE_FAIL (put m))
         else if msg_account m < 0x80000000
         then Some (io_send_sw E SW_MESSAGE_ADDRESS_TYPE_FAIL (put m))
         else do {
           let (ok, len, cdata) = buffer_read_u8 (sdk_buffer E) cdata 0;
           if \<not> ok then Some (io_send_sw E SW_MESSAGE_LEN_PARSING_FAIL (put m))
           else if len = 0 then Some (io_send_sw E SW_MESSAGE_TOO_SHORT (put m))
           else if unat len > MAX_MESSAGE_LEN E then Some (io_send_sw E SW_MESSAGE_TOO_LONG (put m))
           else do {
             let m = m\<lparr>message_len := unat len\<rparr>;
             if \<not> buffer_can_read (sdk_buffer E) cdata (message_len m)
             then Some (io_send_sw E SW_MESSAGE_PARSING_FAIL (put m))
             else do {
               d \<leftarrow> mem_read (ptr cdata) (offset cdata) (message_len m);
               bs \<leftarrow> mem_write (message m) 0 d;
               let m = m\<lparr>message := bs\<rparr>;
               let (ok, cdata) = buffer_seek_cur (sdk_buffer E) cdata (message_len m);
               if \<not> ok then Some (io_send_sw E SW_MESSAGE_UNEXPECTED (put m))
               else do {
                 let s = put m;
                 path \<leftarrow> put_path (bip32_path (G_context s)) (msg_account m)
                           (ucast (msg_address_type m)) (msg_address_index m);
                 let s = set_ctx ((G_context s)\<lparr>bip32_path := path, bip32_path_len := 5\<rparr>) s;
                 ui_display_message E s
               }
             }
           }
         }
       }
     }
   }"

section \<open>handler/sign_tx.c\<close>

definition sign_input_and_send :: "env \<Rightarrow> app \<Rightarrow> (int \<times> app) option" where
  "sign_input_and_send E s = do {
     (error, s) \<leftarrow> crypto_sign_transaction E s;
     if error \<noteq> 0 then Some (error, snd (io_send_sw E error (set_state STATE_NONE s)))
     else do {
       (_, s) \<leftarrow> helper_send_response_sig E s;
       t \<leftarrow> tx_info (MAX_INPUT_COUNT E) (member (G_context s));
       Some (error, set_member (Tx_info (t\<lparr>signing_input_index := signing_input_index t + 1\<rparr>)) s)
     }
   }"

text \<open>The three parts of the handler: header, transaction data, next signature.\<close>

definition sign_tx_header :: "env \<Rightarrow> buffer_t \<Rightarrow> app \<Rightarrow> (int \<times> app) option" where
  "sign_tx_header E cdata s = do {
     let s = reset_ctx CONFIRM_TRANSACTION s;
     t \<leftarrow> tx_info (MAX_INPUT_COUNT E) (member (G_context s));
     (status, _, tx, path) \<leftarrow> transaction_deserialize (sdk_buffer E) (MAX_INPUT_COUNT E) cdata
        (transaction t) (bip32_path (G_context s));
     let s = set_ctx ((G_context s)\<lparr>member := Tx_info (t\<lparr>transaction := tx\<rparr>), bip32_path := path\<rparr>) s;
     if status \<noteq> PARSING_OK then Some (io_send_sw E SW_TX_PARSING_FAIL s)
     else Some (io_send_sw E SW_OK s)
   }"

text \<open>Parsing one output or input: \<open>True\<close> when the handler goes on, else the answer is sent.\<close>

definition sign_tx_output :: "env \<Rightarrow> buffer_t \<Rightarrow> transaction_ctx_t \<Rightarrow> app \<Rightarrow> (bool \<times> int \<times> app) option"
where
  "sign_tx_output E cdata t s =
    (if parsing_output_index t \<ge> word_of_nat MAX_OUTPUT_COUNT \<or>
        parsing_output_index t \<ge> word_of_nat (tx_output_len (transaction t))
     then Some (False, io_send_sw E SW_TX_PARSING_FAIL s)
     else do {
       let i = unat (parsing_output_index t);
       x \<leftarrow> arr_get (tx_outputs (transaction t)) i;
       (err, _, x) \<leftarrow> transaction_output_deserialize (sdk_buffer E) cdata x;
       let t = t\<lparr>transaction := (transaction t)\<lparr>tx_outputs := (tx_outputs (transaction t))[i := x]\<rparr>\<rparr>;
       if err \<noteq> PARSING_OK
       then Some (False, io_send_sw E (status_value err) (set_member (Tx_info t) s))
       else Some (True, 0,
              set_member (Tx_info (t\<lparr>parsing_output_index := parsing_output_index t + 1\<rparr>)) s)
     })"

definition sign_tx_input :: "env \<Rightarrow> buffer_t \<Rightarrow> transaction_ctx_t \<Rightarrow> app \<Rightarrow> (bool \<times> int \<times> app) option"
where
  "sign_tx_input E cdata t s =
    (if parsing_input_index t \<ge> word_of_nat (MAX_INPUT_COUNT E) \<or>
        parsing_input_index t \<ge> word_of_nat (tx_input_len (transaction t))
     then Some (False, io_send_sw E SW_TX_PARSING_FAIL s)
     else do {
       let i = unat (parsing_input_index t);
       x \<leftarrow> arr_get (tx_inputs (transaction t)) i;
       (err, _, x) \<leftarrow> transaction_input_deserialize (sdk_buffer E) cdata x;
       let t = t\<lparr>transaction := (transaction t)\<lparr>tx_inputs := (tx_inputs (transaction t))[i := x]\<rparr>\<rparr>;
       if status_value err < 0
       then Some (False, io_send_sw E SW_TX_PARSING_FAIL (set_member (Tx_info t) s))
       else Some (True, 0,
              set_member (Tx_info (t\<lparr>parsing_input_index := parsing_input_index t + 1\<rparr>)) s)
     })"

definition sign_tx_data :: "env \<Rightarrow> buffer_t \<Rightarrow> u8 \<Rightarrow> bool \<Rightarrow> app \<Rightarrow> (int \<times> app) option" where
  "sign_tx_data E cdata ty has_more s =
    (if req_type (G_context s) \<noteq> CONFIRM_TRANSACTION then Some (io_send_sw E SW_BAD_STATE s)
     else do {
       t \<leftarrow> tx_info (MAX_INPUT_COUNT E) (member (G_context s));
       (go_on, r, s) \<leftarrow>
         (if ty = P1_OUTPUTS then sign_tx_output E cdata t s
          else if ty = P1_INPUTS then sign_tx_input E cdata t s
          else Some (False, io_send_sw E SW_WRONG_P1P2 s));
       if \<not> go_on then Some (r, s)
       else if has_more then Some (io_send_sw E SW_OK s)
       else do {
         t \<leftarrow> tx_info (MAX_INPUT_COUNT E) (member (G_context s));
         (valid, s) \<leftarrow> tx_validate_parsed_transaction E (transaction t) s;
         if \<not> valid then Some (io_send_sw E SW_TX_PARSING_FAIL s)
         else ui_display_transaction E (set_state STATE_PARSED s)
       }
     })"

definition handler_sign_tx :: "env \<Rightarrow> buffer_t \<Rightarrow> u8 \<Rightarrow> bool \<Rightarrow> app \<Rightarrow> (int \<times> app) option" where
  "handler_sign_tx E cdata ty has_more s =
    (if ty = 0 then sign_tx_header E cdata s
     else if ty = 1 \<or> ty = 2 then sign_tx_data E cdata ty has_more s
     else if ty = 3 then
       (if req_type (G_context s) \<noteq> CONFIRM_TRANSACTION \<or> state (G_context s) \<noteq> STATE_APPROVED
        then Some (io_send_sw E SW_BAD_STATE (set_ctx (zero_ctx\<lparr>state := STATE_NONE\<rparr>) s))
        else do {
          (_, s) \<leftarrow> sign_input_and_send E s;
          Some (0, s)
        })
     else Some (io_send_sw E SW_WRONG_P1P2 (set_ctx (zero_ctx\<lparr>state := STATE_NONE\<rparr>) s)))"

section \<open>ui/action/validate.c\<close>

definition validate_pubkey :: "env \<Rightarrow> bool \<Rightarrow> app \<Rightarrow> app option" where
  "validate_pubkey E choice s =
     (if choice then do { (_, s) \<leftarrow> helper_send_response_pubkey E s; Some s }
      else Some (snd (io_send_sw E SW_DENY s)))"

definition validate_transaction :: "env \<Rightarrow> bool \<Rightarrow> app \<Rightarrow> app option" where
  "validate_transaction E choice s =
     (if choice then do {
        let s = set_state STATE_APPROVED s;
        (error, s) \<leftarrow> crypto_sign_transaction E s;
        if error \<noteq> 0 then Some (snd (io_send_sw E error (set_state STATE_NONE s)))
        else do {
          (_, s) \<leftarrow> helper_send_response_sig E s;
          t \<leftarrow> tx_info (MAX_INPUT_COUNT E) (member (G_context s));
          Some (set_member (Tx_info (t\<lparr>signing_input_index := signing_input_index t + 1\<rparr>)) s)
        }
      } else Some (snd (io_send_sw E SW_DENY (set_state STATE_NONE s))))"

definition validate_message :: "env \<Rightarrow> bool \<Rightarrow> app \<Rightarrow> app option" where
  "validate_message E choice s =
     (if choice then do {
        let s = set_state STATE_APPROVED s;
        (error, s) \<leftarrow> crypto_sign_personal_message E s;
        if error \<noteq> 0 then Some (snd (io_send_sw E error (set_state STATE_NONE s)))
        else do {
          (_, s) \<leftarrow> helper_send_response_personal_message_sig E s;
          Some s
        }
      } else Some (snd (io_send_sw E SW_DENY (set_state STATE_NONE s))))"

text \<open>The callbacks of the screens: the decision, then back to the menu.\<close>

definition review_choice :: "env \<Rightarrow> review_e \<Rightarrow> bool \<Rightarrow> app \<Rightarrow> app option" where
  "review_choice E r choice s =
     (let s = s\<lparr>pending := None\<rparr>
      in case r of
           Review_Address \<Rightarrow> validate_pubkey E choice s
         | Review_Transaction \<Rightarrow> validate_transaction E choice s
         | Review_Message \<Rightarrow> validate_message E choice s)"

section \<open>apdu/dispatcher.c and app_main.c\<close>

definition cmd_buffer :: "command_t \<Rightarrow> buffer_t" where
  "cmd_buffer cmd = \<lparr>ptr = (case data cmd of Some d \<Rightarrow> d | None \<Rightarrow> []), bsize = unat (lc cmd), offset = 0\<rparr>"

definition apdu_dispatcher :: "env \<Rightarrow> command_t \<Rightarrow> app \<Rightarrow> (int \<times> app) option" where
  "apdu_dispatcher E cmd s =
    (if cla cmd \<noteq> CLA then Some (io_send_sw E SW_CLA_NOT_SUPPORTED s)
     else if ins cmd = command_value GET_VERSION then
       (if p1 cmd \<noteq> 0 \<or> p2 cmd \<noteq> 0 then Some (io_send_sw E SW_WRONG_P1P2 s)
        else handler_get_version E s)
     else if ins cmd = command_value GET_APP_NAME then
       (if p1 cmd \<noteq> 0 \<or> p2 cmd \<noteq> 0 then Some (io_send_sw E SW_WRONG_P1P2 s)
        else handler_get_app_name E s)
     else if ins cmd = command_value GET_PUBLIC_KEY then
       (if p1 cmd > 1 \<or> p2 cmd > 0 then Some (io_send_sw E SW_WRONG_P1P2 s)
        else if data cmd = None then Some (io_send_sw E SW_WRONG_DATA_LENGTH s)
        else handler_get_public_key E (cmd_buffer cmd) (p1 cmd \<noteq> 0) s)
     else if ins cmd = command_value SIGN_TX then
       (if p1 cmd = P1_START \<and> p2 cmd \<noteq> P2_MORE \<or> p1 cmd = P1_OUTPUTS \<and> p2 cmd \<noteq> P2_MORE \<or>
           p1 cmd \<noteq> P1_START \<and> p1 cmd \<noteq> P1_OUTPUTS \<and> p1 cmd \<noteq> P1_INPUTS \<and>
             p1 cmd \<noteq> P1_NEXT_SIGNATURE \<or>
           p2 cmd \<noteq> P2_LAST \<and> p2 cmd \<noteq> P2_MORE
        then Some (io_send_sw E SW_WRONG_P1P2 s)
        else if data cmd = None \<and> p1 cmd \<noteq> P1_NEXT_SIGNATURE
        then Some (io_send_sw E SW_WRONG_DATA_LENGTH s)
        else handler_sign_tx E (cmd_buffer cmd) (p1 cmd) (p2 cmd AND P2_MORE \<noteq> 0) s)
     else if ins cmd = command_value SIGN_MESSAGE then handler_sign_msg E (cmd_buffer cmd) s
     else if HAVE_DEBUG_APDU E \<and> ins cmd = command_value DEBUG_APDU
       then handler_debug E (unat (p1 cmd)) s
     else Some (io_send_sw E SW_INS_NOT_SUPPORTED s))"

text \<open>The start of \<open>app_main\<close>, and one round of its loop on the received bytes.\<close>

definition app_main_start :: app where
  "app_main_start = \<lparr>G_context = zero_ctx, pending = None, responses = [], sign_log = [], test_log = [], running = True\<rparr>"

definition app_main_round :: "env \<Rightarrow> bytes \<Rightarrow> app \<Rightarrow> app option" where
  "app_main_round E bs s =
    (case apdu_parser E bs of
       None \<Rightarrow> Some (snd (io_send_sw E SW_WRONG_DATA_LENGTH s))
     | Some cmd \<Rightarrow> do {
         (r, s) \<leftarrow> apdu_dispatcher E cmd s;
         if r < 0 then Some (s\<lparr>running := False\<rparr>) else Some s
       })"

end
