(* ===== verification/App.thy ===== *)
theory App
  imports Handlers
begin

text \<open>
  The application as a state machine: the events are a received command, a failure to
  receive and the user's choice; commands are only received while no request is on the screen
  (the SDK answers the pending one first). A step exists where the code is defined; the
  invariant and the safety properties hold in all states such steps reach.
\<close>

section \<open>Partial correctness\<close>

definition yields :: "'a option \<Rightarrow> ('a \<Rightarrow> bool) \<Rightarrow> bool" where
  "yields m Q \<longleftrightarrow> (\<forall>x. m = Some x \<longrightarrow> Q x)"

lemma yields_Some [simp]: "yields (Some x) Q \<longleftrightarrow> Q x"
  by (simp add: yields_def)

lemma yields_None [simp]: "yields None Q"
  by (simp add: yields_def)

lemma yields_bind: "yields m (\<lambda>x. yields (f x) Q) \<Longrightarrow> yields (Option.bind m f) Q"
  by (cases m) (auto simp: yields_def)

lemma yields_bind_any: "(\<And>x. m = Some x \<Longrightarrow> yields (f x) Q) \<Longrightarrow> yields (Option.bind m f) Q"
  by (cases m) auto

lemma yields_mono: "yields m P \<Longrightarrow> (\<And>x. P x \<Longrightarrow> Q x) \<Longrightarrow> yields m Q"
  by (auto simp: yields_def)

lemma yields_if:
  "(c \<Longrightarrow> yields a Q) \<Longrightarrow> (\<not> c \<Longrightarrow> yields b Q) \<Longrightarrow> yields (if c then a else b) Q"
  by simp

lemma yieldsD: "yields m Q \<Longrightarrow> m = Some x \<Longrightarrow> Q x"
  by (simp add: yields_def)

section \<open>Steps\<close>

datatype event = Received bytes | Receive_failed | Chosen bool

inductive app_step :: "env \<Rightarrow> app \<Rightarrow> event \<Rightarrow> app \<Rightarrow> bool" for E where
  received: "running s \<Longrightarrow> pending s = None \<Longrightarrow> app_main_round E bs s = Some s' \<Longrightarrow>
    app_step E s (Received bs) s'"
| failed: "running s \<Longrightarrow> pending s = None \<Longrightarrow> app_step E s Receive_failed (s\<lparr>running := False\<rparr>)"
| chosen: "running s \<Longrightarrow> pending s = Some (r, texts) \<Longrightarrow> review_choice E r choice s = Some s' \<Longrightarrow>
    app_step E s (Chosen choice) s'"

inductive_cases received_cases: "app_step E s (Received bs) s'"
inductive_cases chosen_cases: "app_step E s (Chosen choice) s'"
inductive_cases step_cases: "app_step E s e s'"

section \<open>Sending and showing\<close>

lemma io_send_eq:
  "io_send_response_pointer E d sw s =
     (sdk_io E (responses s @ [(d, word_of_int sw)]), s\<lparr>responses := responses s @ [(d, word_of_int sw)]\<rparr>)"
  by (simp add: io_send_response_pointer_def Let_def)

lemma io_send_sw_eq:
  "io_send_sw E sw s =
     (sdk_io E (responses s @ [([], word_of_int sw)]), s\<lparr>responses := responses s @ [([], word_of_int sw)]\<rparr>)"
  by (simp add: io_send_sw_def io_send_eq)

lemmas io_simps = io_send_eq io_send_sw_eq

text \<open>
  \<open>calm s s'\<close>: no signature was made between the two states, an approval can only be lost,
  and the program still runs.
\<close>

definition calm :: "app \<Rightarrow> app \<Rightarrow> bool" where
  "calm s s' \<longleftrightarrow> sign_log s' = sign_log s \<and> test_log s' = test_log s \<and> running s' = running s \<and>
     (state (G_context s') = STATE_APPROVED \<longrightarrow>
        state (G_context s) = STATE_APPROVED \<and> req_type (G_context s') = req_type (G_context s))"

lemma calm_refl [simp]: "calm s s"
  by (simp add: calm_def)

lemma calm_trans: "calm s s' \<Longrightarrow> calm s' s'' \<Longrightarrow> calm s s''"
  by (simp add: calm_def)

lemma calm_io [simp]:
  "calm s (snd (io_send_response_pointer E d sw s')) \<longleftrightarrow> calm s s'"
  "calm s (snd (io_send_sw E sw s')) \<longleftrightarrow> calm s s'"
  by (simp_all add: io_simps calm_def)

lemma calm_updates [simp]:
  "calm s (set_state STATE_NONE s')  \<longleftrightarrow>
     sign_log s' = sign_log s \<and> test_log s' = test_log s \<and> running s' = running s"
  "calm s (set_state STATE_PARSED s')  \<longleftrightarrow>
     sign_log s' = sign_log s \<and> test_log s' = test_log s \<and> running s' = running s"
  "calm s (set_member u s') \<longleftrightarrow> calm s s'"
  "calm s (s'\<lparr>pending := p\<rparr>) \<longleftrightarrow> calm s s'"
  "calm s (reset_ctx r s') \<longleftrightarrow>
     sign_log s' = sign_log s \<and> test_log s' = test_log s \<and> running s' = running s"
  by (auto simp: calm_def set_defs reset_ctx_def zero_ctx_def)

lemma calm_path [simp]:
  "calm s (set_ctx (c\<lparr>bip32_path := p\<rparr>) s') \<longleftrightarrow> calm s (set_ctx c s')"
  "calm s (set_ctx (c\<lparr>bip32_path_len := n\<rparr>) s') \<longleftrightarrow> calm s (set_ctx c s')"
  "calm s (set_ctx (c\<lparr>member := u\<rparr>) s') \<longleftrightarrow> calm s (set_ctx c s')"
  "calm s (set_ctx (G_context s') s') \<longleftrightarrow> calm s s'"
  by (auto simp: calm_def set_defs)

definition calmly :: "app \<Rightarrow> (int \<times> app) option \<Rightarrow> bool" where
  "calmly s m \<longleftrightarrow> yields m (\<lambda>(r, s'). calm s s')"

lemma calmly_simps [simp]:
  "calmly s (Some x) \<longleftrightarrow> calm s (snd x)" "calmly s None"
  by (auto simp: calmly_def yields_def split: prod.splits)

lemma calmly_bind: "(\<And>x. m = Some x \<Longrightarrow> calmly s (f x)) \<Longrightarrow> calmly s (Option.bind m f)"
  by (cases m) auto

lemma calmly_if: "(c \<Longrightarrow> calmly s a) \<Longrightarrow> (\<not> c \<Longrightarrow> calmly s b) \<Longrightarrow> calmly s (if c then a else b)"
  by simp

lemma calmly_prod: "(\<And>a b. x = (a, b) \<Longrightarrow> calmly s (f a b)) \<Longrightarrow> calmly s (case x of (a, b) \<Rightarrow> f a b)"
  by (cases x) simp

lemmas calmly_intros = calmly_bind calmly_if calmly_prod

lemma bad_state_calm: "calm s s' \<Longrightarrow> calmly s (bad_state E s')"
  by (simp add: bad_state_def calm_def io_simps set_defs)

lemma show_review_calm: "calm s s' \<Longrightarrow> calmly s (show_review r g ps s')"
  unfolding show_review_def by (rule calmly_bind) simp

lemma display_calm:
  assumes "calm s s'"
  shows "calmly s (ui_display_address E s')" "calmly s (ui_display_message E s')"
    "calmly s (ui_display_transaction E s')"
  using assms unfolding ui_display_address_def ui_display_message_def ui_display_transaction_def
    bagl_ui_display_address_def bagl_ui_display_message_def bagl_ui_display_transaction_def
    nbgl_ui_display_address_def nbgl_ui_display_message_def nbgl_ui_display_transaction_def Let_def
  by (intro calmly_intros bad_state_calm show_review_calm | simp)+

lemma response_calm: "calm s s' \<Longrightarrow> calmly s (helper_send_response_pubkey E s')"
  unfolding helper_send_response_pubkey_def Let_def by (intro calmly_intros | simp)+

section \<open>Commands that never sign\<close>

lemma plain_calm:
  "calmly s (handler_get_version E s)" "calmly s (handler_get_app_name E s)"
  unfolding handler_get_version_def handler_get_app_name_def by simp_all

lemma get_public_key_calm: "calmly s (handler_get_public_key E b d s)"
  unfolding handler_get_public_key_def Let_def
  by (intro calmly_intros display_calm response_calm | simp)+

lemma sign_msg_calm: "calmly s (handler_sign_msg E b s)"
  unfolding handler_sign_msg_def Let_def
  by (intro calmly_intros display_calm | simp)+

lemma sign_tx_header_calm: "calmly s (sign_tx_header E b s)"
  unfolding sign_tx_header_def Let_def by (intro calmly_intros | simp)+

lemma sign_tx_parse_calm:
  "yields (sign_tx_output E b t s) (\<lambda>(g, r, s'). calm s s')"
  "yields (sign_tx_input E b t s) (\<lambda>(g, r, s'). calm s s')"
  unfolding sign_tx_output_def sign_tx_input_def Let_def
  by (auto intro!: yields_bind_any simp: io_simps calm_def set_defs)

lemma tx_validate_calm: "yields (tx_validate_parsed_transaction E tx s) (\<lambda>(ok, s'). calm s s')"
  unfolding tx_validate_parsed_transaction_def Let_def
  by (auto intro!: yields_bind_any simp: calm_def set_defs bind_eq_Some_conv split: if_splits)

lemma sign_tx_data_calm: "calmly s (sign_tx_data E b ty m s)"
proof -
  have parse: "calm s s'" if "(if ty = P1_OUTPUTS then sign_tx_output E b t s
      else if ty = P1_INPUTS then sign_tx_input E b t s
      else Some (False, io_send_sw E SW_WRONG_P1P2 s)) = Some (g, r, s')" for t g r s'
    using that yieldsD [OF sign_tx_parse_calm(1)] yieldsD [OF sign_tx_parse_calm(2)]
    by (auto split: if_splits simp: io_simps calm_def)
  have val: "calm s' s''" if "tx_validate_parsed_transaction E tx s' = Some (ok, s'')" for tx s' ok s''
    using yieldsD [OF tx_validate_calm that] by simp
  have rest: "calmly s (do {
         t \<leftarrow> tx_info (MAX_INPUT_COUNT E) (member (G_context s'));
         (valid, s) \<leftarrow> tx_validate_parsed_transaction E (transaction t) s';
         if \<not> valid then Some (io_send_sw E SW_TX_PARSING_FAIL s)
         else ui_display_transaction E (set_state STATE_PARSED s)
       })" if c: "calm s s'" for s'
  proof (rule calmly_bind, rule calmly_bind, rule calmly_prod)
    fix t x ok s''
    assume "tx_validate_parsed_transaction E (transaction t) s' = Some x" and "x = (ok, s'')"
    then have "calm s s''" using calm_trans [OF c val] by simp
    then show "calmly s (if \<not> ok then Some (io_send_sw E SW_TX_PARSING_FAIL s'')
        else ui_display_transaction E (set_state STATE_PARSED s''))"
      by (auto intro!: display_calm simp: calm_def set_defs io_simps)
  qed
  show ?thesis unfolding sign_tx_data_def
  proof (rule calmly_if, simp, rule calmly_bind, rule calmly_bind, rule calmly_prod, rule calmly_prod)
    fix t x g y r s'
    assume "(if ty = P1_OUTPUTS then sign_tx_output E b t s
      else if ty = P1_INPUTS then sign_tx_input E b t s
      else Some (False, io_send_sw E SW_WRONG_P1P2 s)) = Some x" and "x = (g, y)" and "y = (r, s')"
    then have c: "calm s s'" using parse by blast
    show "calmly s (if \<not> g then Some (r, s')
        else if m then Some (io_send_sw E SW_OK s')
        else do {
         t \<leftarrow> tx_info (MAX_INPUT_COUNT E) (member (G_context s'));
         (valid, s) \<leftarrow> tx_validate_parsed_transaction E (transaction t) s';
         if \<not> valid then Some (io_send_sw E SW_TX_PARSING_FAIL s)
         else ui_display_transaction E (set_state STATE_PARSED s)
       })"
      by (rule calmly_if, simp add: c, rule calmly_if, simp add: c, rule rest [OF c])
  qed
qed

section \<open>Signing\<close>

text \<open>
  What a signing call of the transaction logic signs with and signs: the key of the path of
  the selected input, derived without an error, and the digest that \<open>calc_sighash\<close> computes
  for it.
\<close>

definition signs_input :: "env \<Rightarrow> transaction_t \<Rightarrow> nat \<Rightarrow> bytes \<times> bytes \<Rightarrow> bool" where
  "signs_input E tx i kh \<longleftrightarrow>
     (let txin = tx_inputs tx ! i;
          path = header_path (account tx) (ucast (in_address_type txin)) (in_address_index txin);
          key = snd (bip32_derive_init_privkey_256 (sdk_crypto E) path)
      in i < length (tx_inputs tx) \<and> fst (bip32_derive_init_privkey_256 (sdk_crypto E) path) = 0 \<and>
         fst kh = key \<and>
         calc_sighash (sdk_write E) tx txin
           (drop 1 (snd (cx_ecfp_generate_pair_no_throw (sdk_crypto E) key))) (zeros 32) 32 =
         Some (True, snd kh))"

definition same_request :: "app \<Rightarrow> app \<Rightarrow> bool" where
  "same_request s s' \<longleftrightarrow> running s' = running s \<and> pending s' = pending s \<and> test_log s' = test_log s \<and>
     state (G_context s') = state (G_context s) \<and> req_type (G_context s') = req_type (G_context s)"

lemma crypto_sign_transaction_signs:
  assumes "length (bip32_path (G_context s)) = 5"
  shows "yields (crypto_sign_transaction E s) (\<lambda>(err, s'). same_request s s' \<and>
    (\<exists>t. tx_info (MAX_INPUT_COUNT E) (member (G_context s)) = Some t \<and>
       (sign_log s' = sign_log s \<and> err \<noteq> 0 \<or>
        (\<exists>kh. sign_log s' = sign_log s @ [kh] \<and>
           signs_input E (transaction t) (unat (signing_input_index t)) kh))))"
proof -
  have "mem_read (header_path a b c) 0 5 = Some (header_path a b c)" for a b c
    by (simp add: mem_read_Some header_path_def)
  then show ?thesis
    unfolding crypto_sign_transaction_def Let_def
    by (auto intro!: yields_bind_any simp: put_path_eq assms same_request_def set_defs log_sign_def
        signs_input_def arr_get_eq_Some split: prod.splits)
qed

text \<open>Sending a response changes nothing else, as far as the user's keys are concerned.\<close>

definition only_sends :: "app \<Rightarrow> app \<Rightarrow> bool" where
  "only_sends s s' \<longleftrightarrow> G_context s' = G_context s \<and> pending s' = pending s \<and>
     sign_log s' = sign_log s \<and> running s' = running s"

lemma response_only_sends:
  "yields (helper_send_response_pubkey E s) (\<lambda>(r, s'). only_sends s s')"
  "yields (helper_send_response_sig E s) (\<lambda>(r, s'). only_sends s s')"
  "yields (helper_send_response_personal_message_sig E s) (\<lambda>(r, s'). only_sends s s')"
  unfolding helper_send_response_pubkey_def helper_send_response_sig_def
    helper_send_response_personal_message_sig_def Let_def
  by (auto intro!: yields_bind_any simp: io_simps only_sends_def)

lemma response_tests:
  "yields (helper_send_response_pubkey E s) (\<lambda>(r, s'). only_sends s s' \<and> test_log s' = test_log s)"
  "yields (helper_send_response_sig E s) (\<lambda>(r, s'). only_sends s s' \<and> test_log s' = test_log s)"
  "yields (helper_send_response_personal_message_sig E s) (\<lambda>(r, s'). only_sends s s' \<and> test_log s' = test_log s)"
  unfolding helper_send_response_pubkey_def helper_send_response_sig_def
    helper_send_response_personal_message_sig_def Let_def
  by (auto intro!: yields_bind_any simp: io_simps only_sends_def)

definition one_signature :: "env \<Rightarrow> app \<Rightarrow> app \<Rightarrow> bool" where
  "one_signature E s s' \<longleftrightarrow> sign_log s' = sign_log s \<or>
     (\<exists>t kh. tx_info (MAX_INPUT_COUNT E) (member (G_context s)) = Some t \<and>
        sign_log s' = sign_log s @ [kh] \<and>
        signs_input E (transaction t) (unat (signing_input_index t)) kh)"

text \<open>An approval signs the first input the way a later command signs the next one.\<close>

lemma validate_transaction_eq:
  "validate_transaction E True s =
     do { (_, s) \<leftarrow> sign_input_and_send E (set_state STATE_APPROVED s); Some s }"
  by (auto simp: validate_transaction_def sign_input_and_send_def Let_def
      split: Option.bind_splits prod.splits)

lemma sign_and_answer:
  assumes "length (bip32_path (G_context s)) = 5"
  shows "yields (sign_input_and_send E s) (\<lambda>(r, s'). one_signature E s s' \<and> running s' = running s \<and> pending s' = pending s \<and>
      test_log s' = test_log s \<and> (state (G_context s') = STATE_APPROVED \<longrightarrow> state (G_context s) = STATE_APPROVED \<and>
        req_type (G_context s') = req_type (G_context s)))"
  unfolding sign_input_and_send_def
proof (rule yields_bind_any, clarify)
  fix err s1 assume c: "crypto_sign_transaction E s = Some (err, s1)"
  have s1: "same_request s s1" "one_signature E s s1"
    using yieldsD [OF crypto_sign_transaction_signs [OF assms] c] by (auto simp: one_signature_def)
  have "only_sends s1 s2 \<and> test_log s2 = test_log s1" if "helper_send_response_sig E s1 = Some (r, s2)" for r s2
    using yieldsD [OF response_tests(2) that] by simp
  then show "yields (if err \<noteq> 0 then Some (err, snd (io_send_sw E err (set_state STATE_NONE s1)))
      else do {
        (_, s) \<leftarrow> helper_send_response_sig E s1;
        t \<leftarrow> tx_info (MAX_INPUT_COUNT E) (member (G_context s));
        Some (err, set_member (Tx_info (t\<lparr>signing_input_index := signing_input_index t + 1\<rparr>)) s)
      }) (\<lambda>(r, s'). one_signature E s s' \<and> running s' = running s \<and> pending s' = pending s \<and>
      test_log s' = test_log s \<and> (state (G_context s') = STATE_APPROVED \<longrightarrow> state (G_context s) = STATE_APPROVED \<and>
        req_type (G_context s') = req_type (G_context s)))"
    using s1
    by (fastforce intro!: yields_bind_any simp: io_simps set_defs only_sends_def same_request_def one_signature_def)
qed

text \<open>A command that may sign: asked for the next signature of an approved transaction.\<close>

definition next_signature :: "env \<Rightarrow> u8 \<Rightarrow> app \<Rightarrow> app \<Rightarrow> bool" where
  "next_signature E ty s s' \<longleftrightarrow> ty = P1_NEXT_SIGNATURE \<and>
     state (G_context s) = STATE_APPROVED \<and> req_type (G_context s) = CONFIRM_TRANSACTION \<and>
     one_signature E s s' \<and> test_log s' = test_log s \<and> running s' = running s \<and>
     (state (G_context s') = STATE_APPROVED \<longrightarrow> req_type (G_context s') = CONFIRM_TRANSACTION)"

text \<open>The debug command: one call with the key and message of a test case, and nothing else.\<close>

definition test_call :: "nat \<Rightarrow> bytes \<times> bytes" where
  "test_call n = (case debug_vector n of (private_key_data, aux_rand, msg) \<Rightarrow> (private_key_data, msg))"

definition test_signature :: "nat \<Rightarrow> app \<Rightarrow> app \<Rightarrow> bool" where
  "test_signature n s s' \<longleftrightarrow> only_sends s s' \<and> test_log s' = test_log s @ [test_call n]"

lemma debug_test: "yields (handler_debug E n s) (\<lambda>(r, s'). test_signature n s s')"
  unfolding handler_debug_def debug_test_case_def debug_send_response_sig_def Let_def
  by (auto intro!: yields_bind_any simp: io_simps only_sends_def test_signature_def test_call_def log_test_def
      split: prod.splits)

lemma calmly_yields: "calmly s m \<Longrightarrow> yields m (\<lambda>(r, s'). calm s s' \<or> N s')"
  unfolding calmly_def by (erule yields_mono) auto

lemma handler_sign_tx_gate:
  assumes "length (bip32_path (G_context s)) = 5"
  shows "yields (handler_sign_tx E b ty m s) (\<lambda>(r, s'). calm s s' \<or> next_signature E ty s s')"
  unfolding handler_sign_tx_def
proof (intro yields_if)
  show "yields (sign_tx_header E b s) (\<lambda>(r, s'). calm s s' \<or> next_signature E ty s s')"
    by (rule calmly_yields [OF sign_tx_header_calm])
  show "yields (sign_tx_data E b ty m s) (\<lambda>(r, s'). calm s s' \<or> next_signature E ty s s')"
    by (rule calmly_yields [OF sign_tx_data_calm])
next
  assume ok: "ty = 3" "\<not> (req_type (G_context s) \<noteq> CONFIRM_TRANSACTION \<or> state (G_context s) \<noteq> STATE_APPROVED)"
  show "yields (do { (_, s) \<leftarrow> sign_input_and_send E s; Some (0, s) })
      (\<lambda>(r, s'). calm s s' \<or> next_signature E ty s s')"
    by (rule yields_bind, rule yields_mono [OF sign_and_answer [OF assms]])
      (use ok in \<open>auto simp: next_signature_def apdu_consts\<close>)
qed (simp_all add: io_simps calm_def set_defs zero_ctx_def)

lemma dispatcher_gate:
  assumes "length (bip32_path (G_context s)) = 5"
  shows "yields (apdu_dispatcher E cmd s) (\<lambda>(r, s'). calm s s' \<or>
    ins cmd = command_value SIGN_TX \<and> next_signature E (p1 cmd) s s' \<or>
    HAVE_DEBUG_APDU E \<and> ins cmd = command_value DEBUG_APDU \<and> test_signature (unat (p1 cmd)) s s')"
  unfolding apdu_dispatcher_def
proof (intro yields_if)
  assume "ins cmd = command_value SIGN_TX"
  then show "yields (handler_sign_tx E (cmd_buffer cmd) (p1 cmd) (p2 cmd AND P2_MORE \<noteq> 0) s)
      (\<lambda>(r, s'). calm s s' \<or> ins cmd = command_value SIGN_TX \<and> next_signature E (p1 cmd) s s' \<or>
        HAVE_DEBUG_APDU E \<and> ins cmd = command_value DEBUG_APDU \<and> test_signature (unat (p1 cmd)) s s')"
    by (intro yields_mono [OF handler_sign_tx_gate [OF assms]]) auto
next
  assume "HAVE_DEBUG_APDU E \<and> ins cmd = command_value DEBUG_APDU"
  then show "yields (handler_debug E (unat (p1 cmd)) s)
      (\<lambda>(r, s'). calm s s' \<or> ins cmd = command_value SIGN_TX \<and> next_signature E (p1 cmd) s s' \<or>
        HAVE_DEBUG_APDU E \<and> ins cmd = command_value DEBUG_APDU \<and> test_signature (unat (p1 cmd)) s s')"
    by (intro yields_mono [OF debug_test]) auto
qed (rule calmly_yields plain_calm get_public_key_calm sign_msg_calm | simp add: io_simps calm_def)+

section \<open>The user's choice\<close>

definition message_signature :: "env \<Rightarrow> app \<Rightarrow> app \<Rightarrow> bool" where
  "message_signature E s s' \<longleftrightarrow>
     (\<exists>m p h. msg_info (member (G_context s)) = Some m \<and>
        mem_read (bip32_path (G_context s)) 0 (unat (bip32_path_len (G_context s))) = Some p \<and>
        hash_personal_message (message m) (message_len m) (message_hash m) (length (message_hash m)) =
          Some (True, h) \<and>
        sign_log s' = sign_log s @ [(snd (bip32_derive_init_privkey_256 (sdk_crypto E) p), h)])"

lemma crypto_sign_message_signs:
  "yields (crypto_sign_personal_message E s) (\<lambda>(err, s'). same_request s s' \<and>
     (sign_log s' = sign_log s \<and> err \<noteq> 0 \<or> message_signature E s s'))"
  unfolding crypto_sign_personal_message_def Let_def
  by (auto intro!: yields_bind_any simp: same_request_def set_defs log_sign_def message_signature_def
      split: prod.splits)

lemma validate_message_gate:
  "yields (validate_message E choice s) (\<lambda>s'. running s' = running s \<and> pending s' = pending s \<and>
     test_log s' = test_log s \<and> (sign_log s' = sign_log s \<or> choice \<and> message_signature E s s') \<and>
     (state (G_context s') = STATE_APPROVED \<longrightarrow> choice))"
proof (cases choice)
  case True
  show ?thesis unfolding validate_message_def if_P [OF True] Let_def
  proof (rule yields_bind_any, clarify)
    fix err s1 assume c: "crypto_sign_personal_message E (set_state STATE_APPROVED s) = Some (err, s1)"
    have s1: "running s1 = running s" "pending s1 = pending s" "test_log s1 = test_log s"
      "sign_log s1 = sign_log s \<or> message_signature E s s1"
      using yieldsD [OF crypto_sign_message_signs c]
      by (auto simp: same_request_def set_defs message_signature_def)
    have "only_sends s1 s2 \<and> test_log s2 = test_log s1"
      if "helper_send_response_personal_message_sig E s1 = Some (r, s2)" for r s2
      using yieldsD [OF response_tests(3) that] by simp
    then show "yields (if err \<noteq> 0 then Some (snd (io_send_sw E err (set_state STATE_NONE s1)))
        else do { (_, s) \<leftarrow> helper_send_response_personal_message_sig E s1; Some s })
      (\<lambda>s'. running s' = running s \<and> pending s' = pending s \<and>
        test_log s' = test_log s \<and> (sign_log s' = sign_log s \<or> choice \<and> message_signature E s s') \<and>
        (state (G_context s') = STATE_APPROVED \<longrightarrow> choice))"
      using s1 True
      by (auto intro!: yields_bind_any simp: io_simps set_defs only_sends_def message_signature_def)
  qed
qed (simp add: validate_message_def io_simps set_defs)

lemma validate_transaction_gate:
  assumes "length (bip32_path (G_context s)) = 5"
  shows "yields (validate_transaction E choice s) (\<lambda>s'. running s' = running s \<and> pending s' = pending s \<and>
     test_log s' = test_log s \<and> (sign_log s' = sign_log s \<or> choice \<and> one_signature E s s') \<and>
     (state (G_context s') = STATE_APPROVED \<longrightarrow> choice))"
proof (cases choice)
  case True
  have len: "length (bip32_path (G_context (set_state STATE_APPROVED s))) = 5"
    using assms by (simp add: set_defs)
  show ?thesis
    by (simp only: True validate_transaction_eq, rule yields_bind,
        rule yields_mono [OF sign_and_answer [OF len]])
      (auto simp: set_defs one_signature_def)
qed (simp add: validate_transaction_def io_simps set_defs)

lemma review_choice_gate:
  assumes "length (bip32_path (G_context s)) = 5"
  shows "yields (review_choice E r choice s) (\<lambda>s'. running s' = running s \<and> pending s' = None \<and>
     test_log s' = test_log s \<and> (sign_log s' = sign_log s \<or> choice \<and> r = Review_Transaction \<and> one_signature E s s' \<or>
        choice \<and> r = Review_Message \<and> message_signature E s s') \<and>
     (state (G_context s') = STATE_APPROVED \<longrightarrow>
        choice \<and> r \<noteq> Review_Address \<or> state (G_context s) = STATE_APPROVED \<and> r = Review_Address))"
proof -
  let ?s = "s\<lparr>pending := None\<rparr>"
  have len: "length (bip32_path (G_context ?s)) = 5" using assms by simp
  have pk: "yields (validate_pubkey E choice ?s) (\<lambda>s'. only_sends ?s s' \<and> test_log s' = test_log s)"
    unfolding validate_pubkey_def
    by (intro yields_if yields_bind_any)
      (auto simp: io_simps only_sends_def dest!: yieldsD [OF response_tests(1)])
  show ?thesis
  proof (cases r)
    case Review_Address
    show ?thesis unfolding review_choice_def Let_def Review_Address review_e.case
      by (rule yields_mono [OF pk]) (auto simp: only_sends_def)
  next
    case Review_Transaction
    show ?thesis unfolding review_choice_def Let_def Review_Transaction review_e.case
      by (rule yields_mono [OF validate_transaction_gate [OF len]]) (auto simp: one_signature_def)
  next
    case Review_Message
    show ?thesis unfolding review_choice_def Let_def Review_Message review_e.case
      by (rule yields_mono [OF validate_message_gate]) (auto simp: message_signature_def)
  qed
qed

end
