(* ===== verification/Transition.thy ===== *)
theory Transition
  imports Main
begin

text \<open>
  Runs of a labelled transition system from its start state, with the list of events taken,
  and the rules for invariants: of the states a run reaches, of the steps from them, and of
  the states together with the events that led there.
\<close>

inductive run :: "('s \<Rightarrow> 'e \<Rightarrow> 's \<Rightarrow> bool) \<Rightarrow> 's \<Rightarrow> 'e list \<Rightarrow> 's \<Rightarrow> bool" for step s0 where
  run_start: "run step s0 [] s0"
| run_step: "run step s0 es s \<Longrightarrow> step s e s' \<Longrightarrow> run step s0 (es @ [e]) s'"

inductive_cases run_snoc_cases: "run step s0 (es @ [e]) s'"

lemma run_one: "step s0 e s \<Longrightarrow> run step s0 [e] s"
  using run_step [OF run_start, of step s0 e s] by simp

lemma run_two: "step s0 e s \<Longrightarrow> step s e' s' \<Longrightarrow> run step s0 [e, e'] s'"
  using run_step [OF run_one, of step s0 e s e' s'] by simp

locale invariant_system =
  fixes step :: "'s \<Rightarrow> 'e \<Rightarrow> 's \<Rightarrow> bool"
    and start :: 's
    and inv :: "'s \<Rightarrow> bool"
  assumes inv_start: "inv start"
    and inv_step: "step s e s' \<Longrightarrow> inv s \<Longrightarrow> inv s'"
begin

lemma run_inv: "run step start es s \<Longrightarrow> inv s"
  by (induction rule: run.induct) (auto intro: inv_start inv_step)

text \<open>A fact about the events so far and the state, for steps from states with the invariant.\<close>

lemma run_history:
  assumes "run step start es s" and "P [] start"
    and "\<And>es s e s'. inv s \<Longrightarrow> P es s \<Longrightarrow> step s e s' \<Longrightarrow> P (es @ [e]) s'"
  shows "P es s"
  using assms(1)
proof (induction rule: run.induct)
  case run_start
  then show ?case by (rule assms(2))
next
  case (run_step es s e s')
  then show ?case using assms(3) run_inv by blast
qed

end

text \<open>
  A system whose steps are, seen through an abstraction of its states, steps of another system
  or none: its runs are runs of the other, whose events come from its own.
\<close>

locale simulation =
  fixes cstep :: "'c \<Rightarrow> 'f \<Rightarrow> 'c \<Rightarrow> bool"
    and cstart :: 'c
    and step :: "'s \<Rightarrow> 'e \<Rightarrow> 's \<Rightarrow> bool"
    and start :: 's
    and abs_state :: "'c \<Rightarrow> 's"
    and label :: "'c \<Rightarrow> 'f \<Rightarrow> 'e option"
  assumes sim_start: "abs_state cstart = start"
    and sim_none: "cstep c f c' \<Longrightarrow> label c f = None \<Longrightarrow> abs_state c' = abs_state c"
    and sim_some: "cstep c f c' \<Longrightarrow> label c f = Some e \<Longrightarrow> step (abs_state c) e (abs_state c')"
begin

lemma sim_run:
  assumes "run cstep cstart fs c"
  shows "\<exists>es. run step start es (abs_state c) \<and> length es \<le> length fs \<and>
    (\<forall>e\<in>set es. \<exists>fs1 f fs2 c1. fs = fs1 @ f # fs2 \<and> run cstep cstart fs1 c1 \<and> label c1 f = Some e)"
  using assms
proof (induction rule: run.induct)
  case run_start
  have "run step start [] (abs_state cstart)" unfolding sim_start by (rule run.run_start)
  then show ?case by (intro exI [of _ "[]"]) simp
next
  case (run_step fs c f c')
  then obtain es where es: "run step start es (abs_state c)" "length es \<le> length fs"
    "\<forall>e\<in>set es. \<exists>fs1 f fs2 c1. fs = fs1 @ f # fs2 \<and> run cstep cstart fs1 c1 \<and> label c1 f = Some e"
    by blast
  have old: "\<exists>fs1 f' fs2 c1. fs @ [f] = fs1 @ f' # fs2 \<and> run cstep cstart fs1 c1 \<and> label c1 f' = Some e"
    if "e \<in> set es" for e
    using es(3) that by (metis append_Cons append_assoc)
  show ?case
  proof (cases "label c f")
    case None
    then have "run step start es (abs_state c')" using es(1) sim_none run_step.hyps(2) by simp
    with es(2) old show ?thesis by (intro exI [of _ es]) simp
  next
    case (Some e)
    then have "run step start (es @ [e]) (abs_state c')"
      using es(1) sim_some run_step.hyps(2) run.run_step by metis
    with es(2) old Some run_step.hyps(1) show ?thesis by (intro exI [of _ "es @ [e]"]) auto
  qed
qed

end

text \<open>
  A refinement mapping: with the invariant, every step is the step of another system for the
  event it stands for, so runs are runs of the other, event by event.
\<close>

locale refinement_mapping = invariant_system cstep cstart inv
  for cstep :: "'c \<Rightarrow> 'f \<Rightarrow> 'c \<Rightarrow> bool" and cstart :: 'c and inv :: "'c \<Rightarrow> bool" +
  fixes step :: "'s \<Rightarrow> 'e \<Rightarrow> 's \<Rightarrow> bool"
    and start0 :: 's
    and abs_state :: "'c \<Rightarrow> 's"
    and abs_event :: "'f \<Rightarrow> 'e"
  assumes map_start: "abs_state cstart = start0"
    and map_step: "inv c \<Longrightarrow> cstep c f c' \<Longrightarrow> step (abs_state c) (abs_event f) (abs_state c')"
begin

lemma map_run: "run cstep cstart fs c \<Longrightarrow> run step start0 (map abs_event fs) (abs_state c)"
proof (induction rule: run.induct)
  case run_start
  show ?case unfolding map_start list.map by (rule run.run_start)
next
  case (run_step fs c f c')
  from run.run_step [OF run_step.IH map_step [OF run_inv [OF run_step.hyps(1)] run_step.hyps(2)]]
  show ?case by simp
qed

end

end
