(* ===== verification/App_Invariant.thy ===== *)
theory App_Invariant
  imports App Transition
begin

text \<open>
  The invariant of the application: the structures have their sizes, the union holds the
  member of the current request, and a request on the screen is the one in the context, with
  the texts of its data and the checks passed. It is kept by every handler, so it holds in
  every reachable state.
\<close>

section \<open>What a screen shows\<close>

definition amount_text :: "env \<Rightarrow> u64 \<Rightarrow> bytes" where
  "amount_text E v = cstr (snprintf_buf 30 (c_bytes ''KAS '' @
     prec_str 30 (snd (format_fpu64_trimmed (sdk_text E) 30 v EXPONENT_SMALLEST_UNIT))))"

definition script_text :: "bytes \<Rightarrow> bytes" where
  "script_text s =
     (case script_public_key_to_address (zeros ECDSA_ADDRESS_LEN) ECDSA_ADDRESS_LEN s
             SCRIPT_PUBLIC_KEY_BUFFER_LEN of
        Some (_, a) \<Rightarrow> cstr (snprintf_buf (ECDSA_ADDRESS_LEN + 6) (prec_str ECDSA_ADDRESS_LEN a))
      | None \<Rightarrow> [])"

definition shows_transaction :: "env \<Rightarrow> transaction_t \<Rightarrow> (string \<times> bytes) list \<Rightarrow> bool" where
  "shows_transaction E tx texts \<longleftrightarrow>
     (\<exists>f. calc_fees (tx_inputs tx) (tx_input_len tx) (tx_outputs tx) (tx_output_len tx) = Some f \<and>
        (let a = script_text (out_script_public_key (tx_outputs tx ! 0));
             v = amount_text E (out_value (tx_outputs tx ! 0))
         in texts = [(''Address'', a), (''Amount'', v), (''Fees'', amount_text E f)] \<or>
            texts = [(''Amount'', v), (''To'', a), (''Fees'', amount_text E f)]))"

definition shows_message :: "env \<Rightarrow> message_sign_ctx_t \<Rightarrow> (string \<times> bytes) list \<Rightarrow> bool" where
  "shows_message E m texts \<longleftrightarrow>
     (\<exists>n title g path. n \<in> {MAX_MESSAGE_LEN E, MAX_MESSAGE_LEN E + 6} \<and>
        format_message_to_sign (zeros n) n (message m) (message_len m) = Some g \<and>
        texts = [(title, path), (''Message'', cstr g)])"

text \<open>
  What \<open>tx_validate_parsed_transaction\<close> has checked: the counts, that a second output pays
  to the key derived at a path of the transaction's account, and the order of the two totals,
  which are added up modulo 2^64 here as in the code.
\<close>

definition pays_change :: "env \<Rightarrow> transaction_t \<Rightarrow> bool" where
  "pays_change E tx \<longleftrightarrow>
     (\<exists>ty idx raw chain. bip32_derive_get_pubkey_256 (sdk_crypto E) (header_path (account tx) ty idx) =
          (0, raw, chain) \<and>
        (let s = out_script_public_key (tx_outputs tx ! 1)
         in s ! 0 = 0x20 \<and> take 32 (drop 1 s) = take 32 (drop 1 raw)))"

definition tx_checked :: "env \<Rightarrow> transaction_t \<Rightarrow> bool" where
  "tx_checked E tx \<longleftrightarrow> tx_output_len tx \<in> {1, 2} \<and> 1 \<le> tx_input_len tx \<and>
     tx_input_len tx \<le> length (tx_inputs tx) \<and> (tx_output_len tx = 2 \<longrightarrow> pays_change E tx) \<and>
     sum_list (map out_value (take (tx_output_len tx) (tx_outputs tx))) \<le>
       sum_list (map in_value (take (tx_input_len tx) (tx_inputs tx)))"

text \<open>The totals as integers: with outputs below 2^64, the comparison is one of integers.\<close>

definition output_total :: "transaction_t \<Rightarrow> nat" where
  "output_total tx = sum_list (map (\<lambda>x. unat (out_value x)) (take (tx_output_len tx) (tx_outputs tx)))"

definition input_total :: "transaction_t \<Rightarrow> nat" where
  "input_total tx = sum_list (map (\<lambda>i. unat (in_value i)) (take (tx_input_len tx) (tx_inputs tx)))"

lemma unat_sum_list: "unat (sum_list (map f xs) :: u64) = sum_list (map (\<lambda>x. unat (f x)) xs) mod 2 ^ 64"
  by (induction xs) (simp_all add: unat_word_ariths mod_simps)

lemma tx_checked_covers:
  assumes "tx_checked E tx"
  shows "output_total tx < 2 ^ 64 \<longrightarrow> output_total tx \<le> input_total tx"
proof
  assume o: "output_total tx < 2 ^ 64"
  have "output_total tx mod 2 ^ 64 \<le> input_total tx mod 2 ^ 64"
    using assms by (simp add: tx_checked_def output_total_def input_total_def unat_sum_list word_le_nat_alt
        del: exp_mod_exp)
  also have "\<dots> \<le> input_total tx" by simp
  finally show "output_total tx \<le> input_total tx" using o by simp
qed

section \<open>The invariant\<close>

definition member_fits :: "global_ctx_t \<Rightarrow> bool" where
  "member_fits c \<longleftrightarrow>
     (case member c of
        Zeroed \<Rightarrow> True
      | Pk_info _ \<Rightarrow> req_type c = CONFIRM_ADDRESS
      | Tx_info _ \<Rightarrow> req_type c = CONFIRM_TRANSACTION
      | Msg_info _ \<Rightarrow> req_type c = CONFIRM_MESSAGE)"

definition ctx_inv :: "env \<Rightarrow> global_ctx_t \<Rightarrow> bool" where
  "ctx_inv E c \<longleftrightarrow> wf_ctx (MAX_INPUT_COUNT E) c \<and> member_fits c"

definition msg_ready :: "global_ctx_t \<Rightarrow> message_sign_ctx_t \<Rightarrow> bool" where
  "msg_ready c m \<longleftrightarrow> member c = Msg_info m \<and> bip32_path_len c = 5 \<and>
     0x80000000 \<le> msg_account m \<and> msg_address_type m \<in> {0, 1} \<and>
     1 \<le> message_len m \<and> message_len m \<le> 128 \<and>
     bip32_path c = header_path (msg_account m) (ucast (msg_address_type m)) (msg_address_index m)"

definition pending_fits :: "env \<Rightarrow> global_ctx_t \<Rightarrow> review_e \<times> (string \<times> bytes) list \<Rightarrow> bool" where
  "pending_fits E c p = (case p of (r, texts) \<Rightarrow>
     (case r of
        Review_Address \<Rightarrow> req_type c = CONFIRM_ADDRESS \<and> state c = STATE_NONE
      | Review_Transaction \<Rightarrow> req_type c = CONFIRM_TRANSACTION \<and> state c = STATE_PARSED \<and>
          (\<exists>t. member c = Tx_info t \<and> shows_transaction E (transaction t) texts \<and>
             tx_checked E (transaction t))
      | Review_Message \<Rightarrow> req_type c = CONFIRM_MESSAGE \<and> state c = STATE_NONE \<and>
          (\<exists>m. msg_ready c m \<and> shows_message E m texts)))"

definition app_inv :: "env \<Rightarrow> app \<Rightarrow> bool" where
  "app_inv E s \<longleftrightarrow> ctx_inv E (G_context s) \<and>
     (case pending s of None \<Rightarrow> True | Some p \<Rightarrow> pending_fits E (G_context s) p)"

definition idle :: "env \<Rightarrow> app \<Rightarrow> bool" where
  "idle E s \<longleftrightarrow> pending s = None \<and> ctx_inv E (G_context s)"

definition keeps :: "env \<Rightarrow> (int \<times> app) option \<Rightarrow> bool" where
  "keeps E m \<longleftrightarrow> yields m (\<lambda>(r, s'). app_inv E s')"

lemma idle_app_inv: "idle E s \<Longrightarrow> app_inv E s"
  by (simp add: idle_def app_inv_def)

lemma idle_iff:
  "idle E s \<longleftrightarrow> pending s = None \<and> length (bip32_path (G_context s)) = 5 \<and>
     wf_member (MAX_INPUT_COUNT E) (member (G_context s)) \<and> member_fits (G_context s)"
  by (auto simp: idle_def ctx_inv_def wf_ctx_def)

lemma keeps_simps [simp]: "keeps E (Some x) \<longleftrightarrow> app_inv E (snd x)" "keeps E None"
  by (auto simp: keeps_def split: prod.splits)

lemma keeps_bind: "(\<And>x. m = Some x \<Longrightarrow> keeps E (f x)) \<Longrightarrow> keeps E (Option.bind m f)"
  by (cases m) auto

lemma keeps_if: "(c \<Longrightarrow> keeps E a) \<Longrightarrow> (\<not> c \<Longrightarrow> keeps E b) \<Longrightarrow> keeps E (if c then a else b)"
  by simp

lemma keeps_prod: "(\<And>a b. x = (a, b) \<Longrightarrow> keeps E (f a b)) \<Longrightarrow> keeps E (case x of (a, b) \<Rightarrow> f a b)"
  by (cases x) simp

lemmas keeps_intros = keeps_bind keeps_if keeps_prod

lemma inv_io [simp]:
  "app_inv E (snd (io_send_response_pointer E d sw s)) \<longleftrightarrow> app_inv E s"
  "app_inv E (snd (io_send_sw E sw s)) \<longleftrightarrow> app_inv E s"
  by (auto simp: io_simps app_inv_def split: option.splits)

lemma idle_app [simp]: "idle E s \<Longrightarrow> app_inv E (snd (io_send_sw E sw s))"
  by (simp add: idle_app_inv)

lemma idle_zero: "pending s = None \<Longrightarrow> idle E (set_ctx (zero_ctx\<lparr>req_type := r, state := st\<rparr>) s)"
  by (simp add: idle_def ctx_inv_def member_fits_def set_defs wf_ctx_def zero_ctx_def size_consts)

lemma idle_reset: "pending s = None \<Longrightarrow> idle E (reset_ctx r s)"
  unfolding reset_ctx_def by (rule idle_zero)

lemma idle_set_state: "idle E s \<Longrightarrow> idle E (set_state st s)"
  by (simp add: idle_def ctx_inv_def member_fits_def set_defs wf_ctx_def split: ctx_union.splits)

section \<open>The screens\<close>

lemma bad_state_keeps: "idle E s \<Longrightarrow> keeps E (bad_state E s)"
  by (simp add: bad_state_def idle_app_inv idle_set_state)

lemma display_address_keeps:
  assumes "idle E s"
  shows "keeps E (ui_display_address E s)"
proof -
  have inv: "app_inv E (s\<lparr>pending := Some (Review_Address, texts)\<rparr>)"
    if "req_type (G_context s) = CONFIRM_ADDRESS" "state (G_context s) = STATE_NONE" for texts
    using that assms by (auto simp: app_inv_def idle_def pending_fits_def)
  show ?thesis
    using assms unfolding ui_display_address_def bagl_ui_display_address_def
      nbgl_ui_display_address_def Let_def show_review_def
    by (intro keeps_intros bad_state_keeps) (auto intro!: inv simp: idle_app_inv)
qed

lemma shows_messageI:
  "format_message_to_sign (zeros n) n (message m) (message_len m) = Some g \<Longrightarrow>
   n = MAX_MESSAGE_LEN E \<or> n = MAX_MESSAGE_LEN E + 6 \<Longrightarrow>
   shows_message E m [(title, path), (''Message'', cstr g)]"
  by (auto simp: shows_message_def)

lemma display_transaction_keeps:
  assumes "idle E s" and "\<And>t. member (G_context s) = Tx_info t \<Longrightarrow> tx_checked E (transaction t)"
    and "member (G_context s) \<noteq> Zeroed"
  shows "keeps E (ui_display_transaction E s)"
proof -
  have scr: "shows_transaction E tx texts"
    if "arr_get (tx_outputs tx) 0 = Some x"
      "format_fpu64_trimmed (sdk_text E) 30 (out_value x) EXPONENT_SMALLEST_UNIT = (ok, amount)"
      "calc_fees (tx_inputs tx) (tx_input_len tx) (tx_outputs tx) (tx_output_len tx) = Some f"
      "format_fpu64_trimmed (sdk_text E) 30 f EXPONENT_SMALLEST_UNIT = (ok', fees)"
      "script_public_key_to_address (zeros ECDSA_ADDRESS_LEN) ECDSA_ADDRESS_LEN
        (out_script_public_key x) SCRIPT_PUBLIC_KEY_BUFFER_LEN = Some (b, address)"
      "texts = [(''Address'', cstr (snprintf_buf (ECDSA_ADDRESS_LEN + 6) (prec_str ECDSA_ADDRESS_LEN address))),
        (''Amount'', cstr (snprintf_buf 30 (c_bytes ''KAS '' @ prec_str 30 amount))),
        (''Fees'', cstr (snprintf_buf 30 (c_bytes ''KAS '' @ prec_str 30 fees)))] \<or>
       texts = [(''Amount'', cstr (snprintf_buf 30 (c_bytes ''KAS '' @ prec_str 30 amount))),
        (''To'', cstr (snprintf_buf (ECDSA_ADDRESS_LEN + 6) (prec_str ECDSA_ADDRESS_LEN address))),
        (''Fees'', cstr (snprintf_buf 30 (c_bytes ''KAS '' @ prec_str 30 fees)))]"
    for tx x ok amount f ok' fees b address texts
    using that by (auto simp: shows_transaction_def amount_text_def script_text_def arr_get_eq_Some Let_def)
  have inv: "app_inv E (s\<lparr>pending := Some (Review_Transaction, texts)\<rparr>)"
    if "req_type (G_context s) = CONFIRM_TRANSACTION" "state (G_context s) = STATE_PARSED"
      "tx_info (MAX_INPUT_COUNT E) (member (G_context s)) = Some t" "shows_transaction E (transaction t) texts"
    for t texts
    using that assms by (cases "member (G_context s)") (auto simp: app_inv_def idle_def pending_fits_def)
  show ?thesis
    using assms(1) unfolding ui_display_transaction_def bagl_ui_display_transaction_def
      nbgl_ui_display_transaction_def Let_def show_review_def
    by (intro keeps_intros bad_state_keeps) (auto intro!: inv scr simp: idle_app_inv)
qed

lemma display_message_keeps:
  assumes "idle E s" and "\<exists>m. msg_ready (G_context s) m"
  shows "keeps E (ui_display_message E s)"
proof -
  obtain m where m: "msg_ready (G_context s) m" "member (G_context s) = Msg_info m"
    using assms(2) by (auto simp: msg_ready_def)
  have inv: "app_inv E (s\<lparr>pending := Some (Review_Message, texts)\<rparr>)"
    if "req_type (G_context s) = CONFIRM_MESSAGE" "state (G_context s) = STATE_NONE"
      "shows_message E m texts" for texts
    using that assms(1) m by (auto simp: app_inv_def idle_def pending_fits_def)
  show ?thesis
    using assms(1) m unfolding ui_display_message_def bagl_ui_display_message_def
      nbgl_ui_display_message_def Let_def show_review_def
    by (intro keeps_intros bad_state_keeps) (auto intro!: inv shows_messageI simp: idle_app_inv)
qed

section \<open>Commands\<close>

lemma idle_set_member:
  assumes "idle E s" and "wf_member (MAX_INPUT_COUNT E) u"
    and "member_fits ((G_context s)\<lparr>member := u\<rparr>)"
  shows "idle E (set_member u s)"
  using assms by (simp add: idle_def ctx_inv_def set_defs wf_ctx_def)

lemma idle_tx_member:
  assumes "idle E s" and "wf_tx_ctx (MAX_INPUT_COUNT E) t" and "req_type (G_context s) = CONFIRM_TRANSACTION"
  shows "idle E (set_member (Tx_info t) s)"
  using assms by (intro idle_set_member) (simp_all add: member_fits_def)

lemma plain_keeps:
  assumes "idle E s"
  shows "keeps E (handler_get_version E s)" "keeps E (handler_get_app_name E s)"
    "keeps E (handler_debug E n s)"
proof -
  have "idle E (log_test k h s)" for k h using assms by (simp add: idle_iff log_test_def)
  then show "keeps E (handler_get_version E s)" "keeps E (handler_get_app_name E s)"
    "keeps E (handler_debug E n s)"
    using assms unfolding handler_get_version_def handler_get_app_name_def handler_debug_def
      debug_test_case_def debug_send_response_sig_def Let_def
    by (auto intro!: keeps_intros simp: idle_app_inv split: prod.splits)
qed

lemma response_pubkey_keeps: "idle E s \<Longrightarrow> keeps E (helper_send_response_pubkey E s)"
  unfolding helper_send_response_pubkey_def Let_def by (intro keeps_intros | simp add: idle_app_inv)+

lemma set_simps [simp]:
  "G_context (set_ctx c s) = c" "G_context (set_state st s) = (G_context s)\<lparr>state := st\<rparr>"
  "G_context (set_member u s) = (G_context s)\<lparr>member := u\<rparr>"
  "pending (set_ctx c s) = pending s" "pending (set_state st s) = pending s"
  "pending (set_member u s) = pending s"
  by (simp_all add: set_defs)

lemma sum_list_foldl: "foldl (\<lambda>t i. t + f i) a xs = a + sum_list (map f xs)" for f :: "'a \<Rightarrow> 'b::monoid_add"
  by (induction xs arbitrary: a) (simp_all add: add.assoc)

lemma put_account_path:
  "length p = 5 \<Longrightarrow> p[0 := 0x8000002C, Suc 0 := 0x8001b207, 2 := a] = header_path a (p ! 3) (p ! 4)"
  by (auto simp: header_path_def numeral_eq_Suc length_Suc_conv)

lemma tx_validate_checks:
  assumes "idle E s" and "wf_transaction (MAX_INPUT_COUNT E) tx"
  shows "yields (tx_validate_parsed_transaction E tx s) (\<lambda>(ok, s'). idle E s' \<and>
    member (G_context s') = member (G_context s) \<and> (ok \<longrightarrow> tx_checked E tx))"
proof -
  have p: "length (bip32_path (G_context s)) = 5" using assms(1) by (simp add: idle_iff)
  have n: "length (tx_outputs tx) = 2" using assms(2) by (simp add: wf_transaction_def size_consts)
  have mr: "mem_read (header_path a b c) 0 5 = Some (header_path a b c)" for a b c
    by (simp add: mem_read_Some)
  have ch: "pays_change E tx" if
    "arr_get (out_script_public_key (tx_outputs tx ! 1)) 0 = Some 0x20"
    "mem_read (out_script_public_key (tx_outputs tx ! 1)) 1 32 = Some pk"
    "crypto_validate_public_key E (header_path (account tx) ty idx) 5 pk = Some True" for pk ty idx
    using that mem_read_length [OF that(2)]
    by (auto simp: pays_change_def crypto_validate_public_key_def mr mem_read_def arr_get_def
        split: prod.splits if_splits intro!: exI)
  have two: "tx_output_len tx \<in> {1, 2} \<longleftrightarrow> \<not> (2 < tx_output_len tx \<or> tx_output_len tx < 1)" by auto
  have idle: "idle E (set_ctx ((G_context s)\<lparr>bip32_path := header_path a b c, bip32_path_len := 5\<rparr>) s)" for a b c
    using assms(1) by (simp add: idle_iff set_simps member_fits_def split: ctx_union.splits)
  show ?thesis unfolding tx_validate_parsed_transaction_def Let_def
  proof (intro yields_if yields_bind_any)
    fix x
    assume o: "\<not> (2 < tx_output_len tx \<or> tx_output_len tx < 1)" and "\<not> tx_input_len tx < 1"
      and x: "(if tx_output_len tx = 2 then do {
            change_output \<leftarrow> arr_get (tx_outputs tx) 1;
            b \<leftarrow> arr_get (out_script_public_key change_output) 0;
            if b \<noteq> 0x20 then Some (False, s)
            else do {
              change_address_pubkey \<leftarrow> mem_read (out_script_public_key change_output) 1 32;
              path \<leftarrow> arr_put (bip32_path (G_context s)) 0 0x8000002C;
              path \<leftarrow> arr_put path 1 0x8001b207;
              path \<leftarrow> arr_put path 2 (account tx);
              ok \<leftarrow> crypto_validate_public_key E path 5 change_address_pubkey;
              Some (ok, set_ctx ((G_context s)\<lparr>bip32_path := path, bip32_path_len := 5\<rparr>) s)
            }
          } else Some (True, s)) = Some x"
    obtain ok s' where xs: "x = (ok, s')" by (cases x)
    have f: "idle E s'" "member (G_context s') = member (G_context s)"
      "ok \<longrightarrow> tx_output_len tx = 2 \<longrightarrow> pays_change E tx"
      using x xs assms(1) p n idle ch
      by (auto simp: bind_eq_Some_conv arr_put_def put_account_path set_simps arr_get_eq_Some split: if_splits)
    show "yields (case x of (valid, s') \<Rightarrow> if \<not> valid then Some (False, s')
       else do {
         ins \<leftarrow> mem_read (tx_inputs tx) 0 (tx_input_len tx);
         outs \<leftarrow> mem_read (tx_outputs tx) 0 (tx_output_len tx);
         if foldl (\<lambda>total i. total + in_value i) 0 ins < foldl (\<lambda>total x. total + out_value x) 0 outs
         then Some (False, s') else Some (True, s')
       }) (\<lambda>(ok, s'). idle E s' \<and> member (G_context s') = member (G_context s) \<and> (ok \<longrightarrow> tx_checked E tx))"
      using f o \<open>\<not> tx_input_len tx < 1\<close>
      by (auto intro!: yields_bind_any simp: xs sum_list_foldl tx_checked_def mem_read_def split: if_splits)
  qed (simp_all add: assms(1))
qed

lemma yields_prod: "(\<And>a b. x = (a, b) \<Longrightarrow> yields (f a b) Q) \<Longrightarrow> yields (case x of (a, b) \<Rightarrow> f a b) Q"
  by (cases x) simp

text \<open>A digest function leaves a destination of the size it got.\<close>

lemma hash_finalize_length:
  "yields (hash_finalize S out n) (\<lambda>(ok, d). length d = length out)"
  unfolding hash_finalize_def blake2b_final_def Let_def
  by (intro yields_if yields_bind_any yields_prod)
    (auto simp: bind_eq_Some_conv split: if_splits option.splits dest: mem_write_length)

lemma calc_sighash_length:
  "yields (calc_sighash W tx txin pk out n) (\<lambda>(ok, d). length d = length out)"
  unfolding calc_sighash_def Let_def
  by (intro yields_if yields_bind_any yields_prod hash_finalize_length) simp_all

lemma hash_personal_message_length:
  "yields (hash_personal_message msg k out n) (\<lambda>(ok, d). length d = length out)"
  unfolding hash_personal_message_def pm_helpers Let_def
  by (intro yields_if yields_bind_any yields_prod hash_finalize_length) simp_all

context device
begin

lemma get_public_key_keeps:
  assumes "pending s = None"
  shows "keeps E (handler_get_public_key E b d s)"
proof -
  have z: "length (raw_public_key zero_pk) = 64" "length (bip32_path zero_ctx) = 5" "member zero_ctx = Zeroed"
    by (simp_all add: zero_pk_def zero_ctx_def size_consts)
  note facts = idle_iff set_defs member_fits_def reset_ctx_def z io_simps
  show ?thesis unfolding handler_get_public_key_def Let_def
    by (intro keeps_intros display_address_keeps response_pubkey_keeps)
      (auto intro!: idle_app_inv simp: facts assms dest!: pubkey_len dest: mem_write_length)
qed

lemma output_step_keeps:
  assumes "idle E s" and "tx_info (MAX_INPUT_COUNT E) (member (G_context s)) = Some t"
    and "req_type (G_context s) = CONFIRM_TRANSACTION" and "valid_buffer b"
  shows "yields (sign_tx_output E b t s) (\<lambda>(g, r, s'). idle E s' \<and>
    req_type (G_context s') = CONFIRM_TRANSACTION \<and> (g \<longrightarrow> (\<exists>t'. member (G_context s') = Tx_info t')))"
proof -
  have wf: "wf_tx_ctx (MAX_INPUT_COUNT E) t"
    using assms(1,2) by (cases "member (G_context s)") (auto simp: idle_def ctx_inv_def wf_ctx_def)
  show ?thesis
  proof (cases "parsing_output_index t \<ge> word_of_nat MAX_OUTPUT_COUNT \<or>
      parsing_output_index t \<ge> word_of_nat (tx_output_len (transaction t))")
    case True
    then show ?thesis using assms by (simp add: sign_tx_output_def io_simps idle_def)
  next
    case False
    let ?i = "unat (parsing_output_index t)"
    have i: "?i < 2" using False by (simp add: size_consts word_less_nat_alt not_le)
    have len: "length (tx_outputs (transaction t)) = 2" and w: "wf_output (tx_outputs (transaction t) ! ?i)"
      using wf i wf_transaction_nth(2) by (auto simp: wf_tx_ctx_def wf_transaction_def size_consts)
    obtain st b' x where d: "transaction_output_deserialize (sdk_buffer E) b (tx_outputs (transaction t) ! ?i) =
        Some (st, b', x)" and x: "wf_output x"
      using output_deserialize_status [OF assms(4) w] by auto
    define t' where "t' = t\<lparr>transaction := (transaction t)\<lparr>tx_outputs := (tx_outputs (transaction t))[?i := x]\<rparr>\<rparr>"
    have t': "wf_tx_ctx (MAX_INPUT_COUNT E) t'"
      using wf x wf_transaction_update_output by (simp add: t'_def wf_tx_ctx_def)
    have "unat (parsing_output_index t + 1) = ?i + 1"
      using i by (simp add: unat_word_ariths)
    then have t1: "wf_tx_ctx (MAX_INPUT_COUNT E) (t'\<lparr>parsing_output_index := parsing_output_index t + 1\<rparr>)"
      using t' i by (simp add: wf_tx_ctx_def t'_def size_consts)
    show ?thesis
      using False d len i assms(1,3) idle_tx_member [OF assms(1) t' assms(3)] idle_tx_member [OF assms(1) t1 assms(3)]
      by (auto simp: sign_tx_output_def arr_get_Some Let_def io_simps idle_def t'_def)
  qed
qed

lemma input_step_keeps:
  assumes "idle E s" and "tx_info (MAX_INPUT_COUNT E) (member (G_context s)) = Some t"
    and "req_type (G_context s) = CONFIRM_TRANSACTION" and "valid_buffer b"
  shows "yields (sign_tx_input E b t s) (\<lambda>(g, r, s'). idle E s' \<and>
    req_type (G_context s') = CONFIRM_TRANSACTION \<and> (g \<longrightarrow> (\<exists>t'. member (G_context s') = Tx_info t')))"
proof -
  let ?n = "MAX_INPUT_COUNT E"
  have wf: "wf_tx_ctx ?n t"
    using assms(1,2) by (cases "member (G_context s)") (auto simp: idle_iff)
  show ?thesis
  proof (cases "parsing_input_index t \<ge> word_of_nat ?n \<or>
      parsing_input_index t \<ge> word_of_nat (tx_input_len (transaction t))")
    case True
    then show ?thesis using assms by (simp add: sign_tx_input_def io_simps idle_def)
  next
    case False
    let ?i = "unat (parsing_input_index t)"
    have i: "?i < ?n" using False input_count(2)
      by (simp add: word_less_nat_alt not_le unat_of_nat)
    have len: "length (tx_inputs (transaction t)) = ?n" and w: "wf_input (tx_inputs (transaction t) ! ?i)"
      using wf i wf_transaction_nth(1) by (auto simp: wf_tx_ctx_def wf_transaction_def)
    obtain st b' x where d: "transaction_input_deserialize (sdk_buffer E) b (tx_inputs (transaction t) ! ?i) =
        Some (st, b', x)" and x: "wf_input x"
      using input_deserialize_status [OF assms(4) w] by auto
    define t' where "t' = t\<lparr>transaction := (transaction t)\<lparr>tx_inputs := (tx_inputs (transaction t))[?i := x]\<rparr>\<rparr>"
    have t': "wf_tx_ctx ?n t'"
      using wf x wf_transaction_update_input by (simp add: t'_def wf_tx_ctx_def)
    have "unat (parsing_input_index t + 1) = ?i + 1"
      using i input_count(2) by (simp add: unat_word_ariths)
    then have t1: "wf_tx_ctx ?n (t'\<lparr>parsing_input_index := parsing_input_index t + 1\<rparr>)"
      using t' i by (simp add: wf_tx_ctx_def t'_def)
    show ?thesis
      using False d len i assms(1,3) idle_tx_member [OF assms(1) t' assms(3)] idle_tx_member [OF assms(1) t1 assms(3)]
      by (auto simp: sign_tx_input_def arr_get_Some Let_def io_simps idle_def t'_def)
  qed
qed

lemma sign_tx_header_keeps:
  assumes "pending s = None" and "valid_buffer b"
  shows "keeps E (sign_tx_header E b s)"
proof -
  let ?n = "MAX_INPUT_COUNT E"
  have w: "wf_transaction ?n (transaction (zero_tx ?n))" by (simp add: zero_tx_def)
  have z: "length (bip32_path zero_ctx) = 5" "member zero_ctx = Zeroed"
    by (simp_all add: zero_ctx_def size_consts)
  have wz: "wf_tx_ctx ?n ((zero_tx ?n)\<lparr>transaction := tx\<rparr>)" if "wf_transaction ?n tx" for tx
    using that wf_zero_tx [of ?n] by (simp add: wf_tx_ctx_def)
  obtain b' tx' p where "transaction_deserialize (sdk_buffer E) ?n b (transaction (zero_tx ?n))
      (bip32_path zero_ctx) = Some (header_status ?n (rest b), b', tx', p)"
    "wf_transaction ?n tx'" "length p = 5"
    using header_deserialize_status [OF assms(2) z(1) w] by auto
  then show ?thesis using assms(1) wz z unfolding sign_tx_header_def reset_ctx_def
    by (auto intro!: idle_app_inv simp: set_simps idle_iff member_fits_def Let_def)
qed

lemma sign_msg_keeps:
  assumes "pending s = None"
  shows "keeps E (handler_sign_msg E b s)"
proof -
  have z: "length (bip32_path zero_ctx) = 5" "length (message zero_msg) = 128"
    "length (message_hash zero_msg) = 32" "length (msg_signature zero_msg) = 64"
    by (simp_all add: zero_ctx_def zero_msg_def size_consts MAX_DER_SIG_LEN_def)
  have n: "unat len \<le> 128" if "mem_read xs k (unat len) = Some d" "mem_write (message zero_msg) 0 d = Some bs"
    for xs k d bs and len :: u8
    using that z(2) mem_read_length [OF that(1)] by (auto simp: mem_write_def split: if_splits)
  have one: "Suc 0 \<le> unat len" if "len \<noteq> 0" for len :: u8
    using that by (simp add: unat_gt_0 Suc_le_eq)
  note facts = idle_iff set_defs member_fits_def reset_ctx_def io_simps z assms msg_ready_def
  show ?thesis unfolding handler_sign_msg_def Let_def
    by (intro keeps_intros display_message_keeps)
      (auto intro!: idle_app_inv one simp: facts put_path_eq not_less dest: mem_write_length n)
qed

lemma sign_tx_data_keeps:
  assumes "idle E s" and "valid_buffer b"
  shows "keeps E (sign_tx_data E b ty has_more s)"
proof (cases "req_type (G_context s) = CONFIRM_TRANSACTION")
  case False
  then show ?thesis using assms by (simp add: sign_tx_data_def idle_app_inv)
next
  case True
  have parse: "idle E s' \<and> (g \<longrightarrow> (\<exists>t'. member (G_context s') = Tx_info t'))"
    if "tx_info (MAX_INPUT_COUNT E) (member (G_context s)) = Some t"
      "(if ty = P1_OUTPUTS then sign_tx_output E b t s
        else if ty = P1_INPUTS then sign_tx_input E b t s
        else Some (False, io_send_sw E SW_WRONG_P1P2 s)) = Some (g, r, s')" for t g r s'
    using that yieldsD [OF output_step_keeps [OF assms(1) that(1) True assms(2)]]
      yieldsD [OF input_step_keeps [OF assms(1) that(1) True assms(2)]] assms(1)
    by (auto split: if_splits simp: io_simps idle_def)
  have rest: "keeps E (do {
         t \<leftarrow> tx_info (MAX_INPUT_COUNT E) (member (G_context s'));
         (valid, s) \<leftarrow> tx_validate_parsed_transaction E (transaction t) s';
         if \<not> valid then Some (io_send_sw E SW_TX_PARSING_FAIL s)
         else ui_display_transaction E (set_state STATE_PARSED s)
       })" if i: "idle E s'" and "member (G_context s') = Tx_info t'" for s' t'
  proof -
    have wf: "wf_transaction (MAX_INPUT_COUNT E) (transaction t')"
      using that by (simp add: idle_iff wf_tx_ctx_def)
    show ?thesis unfolding that(2) tx_info.simps bind.simps
    proof (rule keeps_bind, clarify)
      fix ok s2 assume v: "tx_validate_parsed_transaction E (transaction t') s' = Some (ok, s2)"
      note r = yieldsD [OF tx_validate_checks [OF i wf] v, simplified]
      show "keeps E (if \<not> ok then Some (io_send_sw E SW_TX_PARSING_FAIL s2)
          else ui_display_transaction E (set_state STATE_PARSED s2))"
        using r that(2) by (intro keeps_if display_transaction_keeps idle_set_state) (auto simp: idle_app_inv)
    qed
  qed
  show ?thesis unfolding sign_tx_data_def
  proof (rule keeps_if, simp add: True, rule keeps_bind, rule keeps_bind, rule keeps_prod, rule keeps_prod)
    fix t x g y r s'
    assume "tx_info (MAX_INPUT_COUNT E) (member (G_context s)) = Some t"
      and "(if ty = P1_OUTPUTS then sign_tx_output E b t s
        else if ty = P1_INPUTS then sign_tx_input E b t s
        else Some (False, io_send_sw E SW_WRONG_P1P2 s)) = Some x" and "x = (g, y)" and "y = (r, s')"
    then have c: "idle E s'" "g \<longrightarrow> (\<exists>t'. member (G_context s') = Tx_info t')" using parse by blast+
    show "keeps E (if \<not> g then Some (r, s')
        else if has_more then Some (io_send_sw E SW_OK s')
        else do {
         t \<leftarrow> tx_info (MAX_INPUT_COUNT E) (member (G_context s'));
         (valid, s) \<leftarrow> tx_validate_parsed_transaction E (transaction t) s';
         if \<not> valid then Some (io_send_sw E SW_TX_PARSING_FAIL s)
         else ui_display_transaction E (set_state STATE_PARSED s)
       })"
    proof (cases g)
      case True
      then obtain t' where "member (G_context s') = Tx_info t'" using c(2) by blast
      then show ?thesis by (intro keeps_if rest [OF c(1)]) (simp_all add: c(1) idle_app_inv)
    qed (simp add: c(1) idle_app_inv)
  qed
qed

lemma sign_transaction_keeps:
  assumes "idle E s" and "req_type (G_context s) = CONFIRM_TRANSACTION"
  shows "yields (crypto_sign_transaction E s) (\<lambda>(err, s'). idle E s' \<and>
    req_type (G_context s') = CONFIRM_TRANSACTION)"
proof -
  have p: "length (bip32_path (G_context s)) = 5" "pending s = None"
    "wf_member (MAX_INPUT_COUNT E) (member (G_context s))" "member_fits (G_context s)"
    using assms by (simp_all add: idle_iff)
  have t: "wf_tx_ctx (MAX_INPUT_COUNT E) t"
    if "tx_info (MAX_INPUT_COUNT E) (member (G_context s)) = Some t" for t
    using that assms by (cases "member (G_context s)") (auto simp: idle_iff member_fits_def)
  have h: "length h = 32" if "calc_sighash W tx txin pk (zeros 32) 32 = Some (ok, h)" for W tx txin pk ok h
    using yieldsD [OF calc_sighash_length that] by simp
  have mr: "mem_read (header_path a b c) 0 5 = Some (header_path a b c)" for a b c
    by (simp add: mem_read_Some)
  have f: "member_fits ((G_context s)\<lparr>bip32_path := a, bip32_path_len := l\<rparr>)" for a l
    using p(4) by (simp add: member_fits_def split: ctx_union.splits)
  note facts = put_path_eq p mr idle_iff set_defs log_sign_def wf_tx_ctx_def MAX_DER_SIG_LEN_def
  show ?thesis unfolding crypto_sign_transaction_def Let_def
    by (intro yields_if yields_bind_any yields_prod)
      (auto simp: facts f assms(2) member_fits_def [of "global_ctx_t.member_update u c" for u c] dest!: t h sig_len)
qed

lemma sign_message_keeps:
  assumes "idle E s" and "req_type (G_context s) = CONFIRM_MESSAGE"
  shows "yields (crypto_sign_personal_message E s) (\<lambda>(err, s'). idle E s')"
proof -
  have m: "length (message m) = 128 \<and> length (message_hash m) = 32 \<and> length (msg_signature m) = 64"
    if "msg_info (member (G_context s)) = Some m" for m
    using that assms by (cases "member (G_context s)")
      (auto simp: idle_iff member_fits_def zero_msg_def MAX_DER_SIG_LEN_def)
  have h: "length h = length out" if "hash_personal_message msg k out n = Some (ok, h)" for msg k out n ok h
    using yieldsD [OF hash_personal_message_length that] by simp
  show ?thesis unfolding crypto_sign_personal_message_def Let_def
    using assms by (intro yields_if yields_bind_any yields_prod)
      (auto simp: idle_iff set_defs log_sign_def member_fits_def dest!: m h sig_len)
qed

lemma idle_sends: "only_sends s s' \<Longrightarrow> idle E s \<Longrightarrow> idle E s'"
  by (simp add: only_sends_def idle_iff)

lemma idle_next_input:
  assumes "idle E s" and "req_type (G_context s) = CONFIRM_TRANSACTION"
    and "tx_info (MAX_INPUT_COUNT E) (member (G_context s)) = Some t"
  shows "idle E (set_member (Tx_info (t\<lparr>signing_input_index := i\<rparr>)) s)"
proof (rule idle_tx_member [OF assms(1) _ assms(2)])
  have "wf_tx_ctx (MAX_INPUT_COUNT E) t"
    using assms(1,3) by (cases "member (G_context s)") (auto simp: idle_iff)
  then show "wf_tx_ctx (MAX_INPUT_COUNT E) (t\<lparr>signing_input_index := i\<rparr>)" by (simp add: wf_tx_ctx_def)
qed

lemma answer_keeps:
  assumes "idle E s" and "req_type (G_context s) = CONFIRM_TRANSACTION"
  shows "keeps E (sign_input_and_send E s)"
  unfolding sign_input_and_send_def
proof (rule keeps_bind, rule keeps_prod, clarify)
  fix err s1 assume "crypto_sign_transaction E s = Some (err, s1)"
  then have s1: "idle E s1" "req_type (G_context s1) = CONFIRM_TRANSACTION"
    using yieldsD [OF sign_transaction_keeps [OF assms]] by auto
  have "idle E s2 \<and> req_type (G_context s2) = CONFIRM_TRANSACTION"
    if "helper_send_response_sig E s1 = Some (r, s2)" for r s2
    using yieldsD [OF response_only_sends(2) that] s1 idle_sends by (auto simp: only_sends_def)
  then show "keeps E (if err \<noteq> 0 then Some (err, snd (io_send_sw E err (set_state STATE_NONE s1)))
      else do {
        (_, s) \<leftarrow> helper_send_response_sig E s1;
        t \<leftarrow> tx_info (MAX_INPUT_COUNT E) (member (G_context s));
        Some (err, set_member (Tx_info (t\<lparr>signing_input_index := signing_input_index t + 1\<rparr>)) s)
      })"
    by (intro keeps_if keeps_bind keeps_prod) (auto simp: s1 idle_app_inv idle_set_state idle_next_input)
qed

lemma handler_sign_tx_keeps:
  assumes "idle E s" and "valid_buffer b"
  shows "keeps E (handler_sign_tx E b ty m s)"
proof -
  have "pending s = None" using assms(1) by (simp add: idle_iff)
  then have z: "idle E (set_ctx (zero_ctx\<lparr>state := STATE_NONE\<rparr>) s)"
    using idle_zero [of s E STATE_NONE CONFIRM_ADDRESS] by (simp add: zero_ctx_def)
  have n: "keeps E (do { (_, s) \<leftarrow> sign_input_and_send E s; Some (0, s) })"
    if "req_type (G_context s) = CONFIRM_TRANSACTION"
    using answer_keeps [OF assms(1) that]
    by (auto simp: keeps_def yields_def bind_eq_Some_conv)
  show ?thesis unfolding handler_sign_tx_def
    using assms \<open>pending s = None\<close> z
    by (intro keeps_if sign_tx_header_keeps sign_tx_data_keeps n) (auto simp: idle_app_inv)
qed

lemma cmd_buffer_valid: "apdu_parser E bs = Some cmd \<Longrightarrow> valid_buffer (cmd_buffer cmd)"
  using parser_data [of bs cmd] by (auto simp: cmd_buffer_def valid_buffer_def split: option.splits)

lemma dispatcher_keeps:
  assumes "idle E s" and "valid_buffer (cmd_buffer cmd)"
  shows "keeps E (apdu_dispatcher E cmd s)"
proof -
  have "pending s = None" using assms(1) by (simp add: idle_iff)
  then show ?thesis unfolding apdu_dispatcher_def
    using assms by (intro keeps_if handler_sign_tx_keeps get_public_key_keeps sign_msg_keeps plain_keeps)
      (auto simp: idle_app_inv)
qed

lemma round_keeps:
  assumes "idle E s"
  shows "yields (app_main_round E bs s) (app_inv E)"
proof (cases "apdu_parser E bs")
  case None
  then show ?thesis using assms by (simp add: app_main_round_def idle_app_inv)
next
  case (Some cmd)
  have "app_inv E (s'\<lparr>running := b\<rparr>)" if "app_inv E s'" for s' b
    using that by (auto simp: app_inv_def split: option.splits prod.splits)
  then show ?thesis
    using dispatcher_keeps [OF assms cmd_buffer_valid [OF Some]] Some
    by (auto simp: app_main_round_def keeps_def yields_def bind_eq_Some_conv split: if_splits)
qed

lemma choice_keeps:
  assumes "app_inv E s" and "pending s = Some (r, texts)"
  shows "yields (review_choice E r choice s) (app_inv E)"
proof -
  let ?s = "s\<lparr>pending := None\<rparr>"
  have i: "idle E ?s" using assms by (simp add: app_inv_def idle_def)
  have i': "idle E (set_state st ?s)" for st using i by (rule idle_set_state)
  show ?thesis
  proof (cases r)
    case Review_Address
    have "idle E s'" if "helper_send_response_pubkey E ?s = Some (n, s')" for n s'
      using yieldsD [OF response_only_sends(1) that] i idle_sends by auto
    then show ?thesis unfolding review_choice_def Let_def Review_Address review_e.case validate_pubkey_def
      by (intro yields_if yields_bind_any) (auto simp: i idle_app_inv)
  next
    case Review_Transaction
    have r: "req_type (G_context (set_state STATE_APPROVED ?s)) = CONFIRM_TRANSACTION"
      using assms Review_Transaction by (simp add: app_inv_def pending_fits_def set_simps)
    have "yields (validate_transaction E True ?s) (app_inv E)"
      unfolding validate_transaction_eq using answer_keeps [OF i' r]
      by (auto simp: keeps_def yields_def bind_eq_Some_conv)
    then show ?thesis
      by (cases choice) (simp_all add: review_choice_def Review_Transaction validate_transaction_def i' idle_app_inv)
  next
    case Review_Message
    have r: "req_type (G_context (set_state STATE_APPROVED ?s)) = CONFIRM_MESSAGE"
      using assms Review_Message by (simp add: app_inv_def pending_fits_def set_simps)
    have "idle E s'" if "crypto_sign_personal_message E (set_state STATE_APPROVED ?s) = Some (n, s')" for n s'
      using yieldsD [OF sign_message_keeps [OF i' r] that] by simp
    moreover have "idle E s'" if "helper_send_response_personal_message_sig E s1 = Some (n, s')" "idle E s1"
      for n s' s1
      using yieldsD [OF response_only_sends(3) that(1)] that(2) idle_sends by auto
    ultimately show ?thesis
      unfolding review_choice_def Let_def Review_Message review_e.case validate_message_def
      by (intro yields_if yields_bind_any yields_prod) (auto simp: i i' idle_app_inv idle_set_state)
  qed
qed

lemma step_keeps:
  assumes "app_step E s e s'" and "app_inv E s"
  shows "app_inv E s'"
  using assms
proof (cases rule: app_step.cases)
  case (received bs)
  then show ?thesis using yieldsD [OF round_keeps, of s bs s'] assms(2)
    by (simp add: idle_def app_inv_def)
next
  case failed
  then show ?thesis using assms(2) by (simp add: app_inv_def)
next
  case (chosen r texts choice)
  then show ?thesis using yieldsD [OF choice_keeps [OF assms(2)]] by simp
qed

lemma start_inv: "app_inv E app_main_start"
  by (simp add: app_inv_def app_main_start_def ctx_inv_def member_fits_def zero_ctx_def wf_ctx_def size_consts)

end

section \<open>The application as a transition system\<close>

sublocale device \<subseteq> app: invariant_system "app_step E" app_main_start "app_inv E"
  by unfold_locales (rule start_inv, rule step_keeps)

interpretation std_app: invariant_system "app_step std_env" app_main_start "app_inv std_env"
  by (rule std_dev.app.invariant_system_axioms)

end
