(* ===== verification/Session.thy ===== *)
theory Session
  imports App_Invariant
begin

text \<open>
  What a signing session does when nothing goes wrong: each signing call succeeds, its answer
  has the documented layout, and the commands after an approval produce the signatures of all
  inputs in their order.
\<close>

section \<open>Executable steps\<close>

definition app_exec :: "env \<Rightarrow> app \<Rightarrow> event \<Rightarrow> app option" where
  "app_exec E s e =
     (if \<not> running s then None
      else case (e, pending s) of
        (Received bs, None) \<Rightarrow> app_main_round E bs s
      | (Receive_failed, None) \<Rightarrow> Some (s\<lparr>running := False\<rparr>)
      | (Chosen choice, Some (r, texts)) \<Rightarrow> review_choice E r choice s
      | _ \<Rightarrow> None)"

lemma app_exec_iff: "app_exec E s e = Some s' \<longleftrightarrow> app_step E s e s'"
  by (auto simp: app_exec_def app_step.simps split: event.splits option.splits)

primrec app_run :: "env \<Rightarrow> app \<Rightarrow> event list \<Rightarrow> app option" where
  "app_run E s [] = Some s"
| "app_run E s (e # es) = do { s \<leftarrow> app_exec E s e; app_run E s es }"

lemma app_run_append: "app_run E s (es @ es') = Option.bind (app_run E s es) (\<lambda>s. app_run E s es')"
  by (induction es arbitrary: s) (auto split: Option.bind_splits)

lemma app_run_iff: "app_run E s es = Some s' \<longleftrightarrow> run (app_step E) s es s'"
proof
  show "run (app_step E) s es s' \<Longrightarrow> app_run E s es = Some s'"
    by (induction rule: run.induct) (auto simp: app_run_append app_exec_iff bind_eq_Some_conv)
next
  show "app_run E s es = Some s' \<Longrightarrow> run (app_step E) s es s'"
  proof (induction es arbitrary: s' rule: rev_induct)
    case Nil
    then show ?case by (auto intro: run_start)
  next
    case (snoc e es)
    then show ?case
      by (auto simp: app_run_append bind_eq_Some_conv app_exec_iff intro: run_step)
  qed
qed

section \<open>One signature\<close>

definition input_path :: "transaction_t \<Rightarrow> nat \<Rightarrow> u32 list" where
  "input_path tx i = (let txin = tx_inputs tx ! i
     in header_path (account tx) (ucast (in_address_type txin)) (in_address_index txin))"

definition input_key :: "env \<Rightarrow> transaction_t \<Rightarrow> nat \<Rightarrow> bytes" where
  "input_key E tx i = snd (bip32_derive_init_privkey_256 (sdk_crypto E) (input_path tx i))"

definition input_digest :: "env \<Rightarrow> transaction_t \<Rightarrow> nat \<Rightarrow> bytes" where
  "input_digest E tx i = H32 (sighash_preimage tx (tx_inputs tx ! i)
     (take 32 (drop 1 (snd (cx_ecfp_generate_pair_no_throw (sdk_crypto E) (input_key E tx i))))))"

text \<open>The answer: signatures left, index, signature and digest with their lengths.\<close>

definition sig_response :: "nat \<Rightarrow> u8 \<Rightarrow> bytes \<Rightarrow> bytes \<Rightarrow> bytes" where
  "sig_response n i sig dig = [word_of_int (int n - int (unat i) - 1), i, 64] @ sig @ [32] @ dig"

text \<open>The calls into the SDK report no error.\<close>

definition crypto_works :: "env \<Rightarrow> bool" where
  "crypto_works E \<longleftrightarrow>
     (\<forall>p. fst (bip32_derive_init_privkey_256 (sdk_crypto E) p) = 0) \<and>
     (\<forall>k. fst (cx_ecfp_generate_pair_no_throw (sdk_crypto E) k) = 0) \<and>
     (\<forall>n k h. fst (cx_ecschnorr_sign_no_throw (sdk_crypto E) n k h) = 0)"

lemma signable_input:
  assumes "signable tx" and "i < tx_input_len tx"
  shows "i < length (tx_inputs tx)" "wf_input (tx_inputs tx ! i)"
  using signable_arrays(1,2) [OF assms] by (auto simp: wf_input_def)

lemma response_sig_eq:
  assumes "tx_info (MAX_INPUT_COUNT E) (member (G_context s)) = Some t"
    and "length (signature t) = 64" and "length (sighash t) = 32"
  shows "helper_send_response_sig E s = Some (io_send_response_pointer E
    (sig_response (tx_input_len (transaction t)) (signing_input_index t) (signature t) (sighash t)) SW_OK s)"
proof -
  have z: "zeros (3 + MAX_DER_SIG_LEN + 34) = 0 # 0 # 0 # zeros 98"
    by (simp add: zeros_def MAX_DER_SIG_LEN_def numeral_eq_Suc)
  show ?thesis using assms unfolding helper_send_response_sig_def z Let_def
    by (simp add: mem_simps MAX_DER_SIG_LEN_def sig_response_def arr_put_mem_write mem_write_def mem_read_def)
qed

context device
begin

lemma sign_input_ok:
  assumes "crypto_works E" and t: "tx_info (MAX_INPUT_COUNT E) (member (G_context s)) = Some t"
    and "length (bip32_path (G_context s)) = 5" and "signable (transaction t)"
    and i: "unat (signing_input_index t) = i" "i < length (tx_inputs (transaction t))"
    and w: "wf_input (tx_inputs (transaction t) ! i)"
  shows "\<exists>sig s'. length sig = 64 \<and> crypto_sign_transaction E s = Some (0, s') \<and>
    sign_log s' = sign_log s @ [(input_key E (transaction t) i, input_digest E (transaction t) i)] \<and>
    sig = snd (cx_ecschnorr_sign_no_throw (sdk_crypto E) (length (sign_log s))
      (input_key E (transaction t) i) (input_digest E (transaction t) i)) \<and>
    member (G_context s') = Tx_info (t\<lparr>sighash := input_digest E (transaction t) i, signature := sig\<rparr>) \<and>
    same_request s s' \<and> responses s' = responses s \<and> length (bip32_path (G_context s')) = 5"
proof -
  let ?tx = "transaction t" and ?in = "tx_inputs (transaction t) ! i"
  note arr = i(2) w
  obtain key where key: "bip32_derive_init_privkey_256 (sdk_crypto E) (input_path ?tx i) = (0, key)"
    using assms(1) by (cases "bip32_derive_init_privkey_256 (sdk_crypto E) (input_path ?tx i)")
      (metis crypto_works_def fst_conv)
  obtain W where W: "cx_ecfp_generate_pair_no_throw (sdk_crypto E) key = (0, W)"
    using assms(1) by (cases "cx_ecfp_generate_pair_no_throw (sdk_crypto E) key")
      (metis crypto_works_def fst_conv)
  have k: "input_key E ?tx i = key" using key by (simp add: input_key_def)
  obtain sig where sig: "cx_ecschnorr_sign_no_throw (sdk_crypto E) (length (sign_log s)) key
      (input_digest E ?tx i) = (0, sig)"
    using assms(1) by (cases "cx_ecschnorr_sign_no_throw (sdk_crypto E) (length (sign_log s)) key
      (input_digest E ?tx i)") (metis crypto_works_def fst_conv)
  have dig: "calc_sighash (sdk_write E) ?tx ?in (drop 1 W) (zeros 32) 32 = Some (True, input_digest E ?tx i)"
    using calc_sighash_correct [OF assms(4) arr(2), of "drop 1 W" 32 "zeros 32"] pair_len [OF W] W k
    by (simp add: input_digest_def)
  have mr: "mem_read (header_path a b c) 0 5 = Some (header_path a b c)" for a b c
    by (simp add: mem_read_Some)
  note facts = mr t arr_get_Some arr i(1) put_path_eq assms(3) key [unfolded input_path_def Let_def]
    W k dig dig [unfolded One_nat_def] sig set_defs log_sign_def same_request_def sig_len [OF sig]
  show ?thesis unfolding crypto_sign_transaction_def Let_def by (simp add: facts)
qed

end

text \<open>The answer to the request for input \<open>i\<close>, when \<open>m\<close> signatures were made before input 0.\<close>

definition input_sig :: "env \<Rightarrow> transaction_t \<Rightarrow> nat \<Rightarrow> nat \<Rightarrow> bytes" where
  "input_sig E tx m i = snd (cx_ecschnorr_sign_no_throw (sdk_crypto E) (m + i) (input_key E tx i) (input_digest E tx i))"

definition input_answer :: "env \<Rightarrow> transaction_t \<Rightarrow> nat \<Rightarrow> nat \<Rightarrow> response" where
  "input_answer E tx m i =
     (sig_response (tx_input_len tx) (word_of_nat i) (input_sig E tx m i) (input_digest E tx i), 0x9000)"

text \<open>An approved transaction with \<open>i\<close> inputs signed.\<close>

definition signing :: "env \<Rightarrow> transaction_t \<Rightarrow> nat \<Rightarrow> nat \<Rightarrow> app \<Rightarrow> bool" where
  "signing E tx m i s \<longleftrightarrow> running s \<and> pending s = None \<and> length (bip32_path (G_context s)) = 5 \<and>
     state (G_context s) = STATE_APPROVED \<and> req_type (G_context s) = CONFIRM_TRANSACTION \<and>
     length (sign_log s) = m + i \<and>
     (\<exists>t. tx_info (MAX_INPUT_COUNT E) (member (G_context s)) = Some t \<and> transaction t = tx \<and>
        unat (signing_input_index t) = i)"

definition next_command :: "env \<Rightarrow> bytes \<Rightarrow> bool" where
  "next_command E bs \<longleftrightarrow> (\<exists>cmd. apdu_parser E bs = Some cmd \<and> cla cmd = CLA \<and>
     ins cmd = command_value SIGN_TX \<and> p1 cmd = P1_NEXT_SIGNATURE \<and> p2 cmd \<in> {P2_LAST, P2_MORE})"

context device
begin

lemma sign_and_send_ok:
  assumes "crypto_works E" and "signing E tx m i s" and "signable tx" and "i < length (tx_inputs tx)"
    and "i < 255" and "wf_input (tx_inputs tx ! i)"
  shows "\<exists>s'. sign_input_and_send E s = Some (0, s') \<and> signing E tx m (i + 1) s' \<and>
    responses s' = responses s @ [input_answer E tx m i] \<and>
    sign_log s' = sign_log s @ [(input_key E tx i, input_digest E tx i)]"
proof -
  obtain t where t: "tx_info (MAX_INPUT_COUNT E) (member (G_context s)) = Some t" "transaction t = tx"
    "unat (signing_input_index t) = i" and len: "length (bip32_path (G_context s)) = 5" "length (sign_log s) = m + i"
    using assms(2) by (auto simp: signing_def)
  obtain sig s1 where s1: "length sig = 64" "crypto_sign_transaction E s = Some (0, s1)"
    "sign_log s1 = sign_log s @ [(input_key E tx i, input_digest E tx i)]" "sig = input_sig E tx m i"
    "member (G_context s1) = Tx_info (t\<lparr>sighash := input_digest E tx i, signature := sig\<rparr>)"
    "same_request s s1" "responses s1 = responses s" "length (bip32_path (G_context s1)) = 5"
    using sign_input_ok [OF assms(1) t(1) len(1)] assms(3,4,6) t len by (auto simp: input_sig_def)
  have i: "signing_input_index t = word_of_nat i" "unat (signing_input_index t + 1) = i + 1"
    using t(3) assms(4,5) by (auto simp: unat_word_ariths word_unat_eq_iff unat_of_nat)
  have r: "helper_send_response_sig E s1 = Some (io_send_response_pointer E
      (sig_response (tx_input_len tx) (word_of_nat i) sig (input_digest E tx i)) SW_OK s1)"
    using response_sig_eq [of E s1] s1(1,5) i(1) t(2) by (simp add: input_digest_def)
  show ?thesis unfolding sign_input_and_send_def
    using s1 r assms(2) i t(2)
    by (auto simp: io_simps set_defs signing_def same_request_def input_answer_def SW_OK_def)
qed

lemma next_signature_ok:
  assumes "crypto_works E" and "next_command E bs" and s: "signing E tx m i s" and "signable tx"
    and "i < length (tx_inputs tx)" and "i < 255" and "wf_input (tx_inputs tx ! i)"
  shows "\<exists>s'. app_exec E s (Received bs) = Some s' \<and> signing E tx m (i + 1) s' \<and>
    responses s' = responses s @ [input_answer E tx m i] \<and>
    sign_log s' = sign_log s @ [(input_key E tx i, input_digest E tx i)]"
proof -
  obtain s' where s': "sign_input_and_send E s = Some (0, s')" and c: "signing E tx m (i + 1) s'"
    "responses s' = responses s @ [input_answer E tx m i]"
    "sign_log s' = sign_log s @ [(input_key E tx i, input_digest E tx i)]"
    using sign_and_send_ok [OF assms(1) s assms(4,5,6,7)] by blast
  have "app_exec E s (Received bs) = Some s'"
    using assms(2) s s' by (auto simp: next_command_def app_exec_def signing_def app_main_round_def
        apdu_dispatcher_def handler_sign_tx_def apdu_consts)
  with c show ?thesis by blast
qed

lemma next_signatures_ok:
  assumes "crypto_works E" and "next_command E bs" and "signing E tx m i s" and "signable tx"
    and "i + k \<le> tx_input_len tx" and "tx_input_len tx < 256"
  shows "\<exists>s'. app_run E s (replicate k (Received bs)) = Some s' \<and> signing E tx m (i + k) s' \<and>
    responses s' = responses s @ map (input_answer E tx m) [i..<i + k] \<and>
    sign_log s' = sign_log s @ map (\<lambda>j. (input_key E tx j, input_digest E tx j)) [i..<i + k]"
  using assms(3,5)
proof (induction k arbitrary: i s)
  case 0
  then show ?case by simp
next
  case (Suc k)
  have i: "i < tx_input_len tx" using Suc.prems(2) by simp
  obtain s1 where s1: "app_exec E s (Received bs) = Some s1" "signing E tx m (i + 1) s1"
    "responses s1 = responses s @ [input_answer E tx m i]"
    "sign_log s1 = sign_log s @ [(input_key E tx i, input_digest E tx i)]"
    using next_signature_ok [OF assms(1,2) Suc.prems(1) assms(4)] signable_input [OF assms(4) i] i assms(6)
    by fastforce
  have "i + 1 + k \<le> tx_input_len tx" using Suc.prems(2) by simp
  from Suc.IH [OF s1(2) this] obtain s' where s': "app_run E s1 (replicate k (Received bs)) = Some s'"
    "signing E tx m (i + 1 + k) s'" "responses s' = responses s1 @ map (input_answer E tx m) [i + 1..<i + 1 + k]"
    "sign_log s' = sign_log s1 @ map (\<lambda>j. (input_key E tx j, input_digest E tx j)) [i + 1..<i + 1 + k]"
    by blast
  have u: "[i..<i + Suc k] = i # [i + 1..<i + 1 + k]" by (simp add: upt_conv_Cons del: upt_Suc)
  show ?case unfolding u using s' s1 by (simp del: upt_Suc)
qed

lemma approval_ok:
  assumes "crypto_works E" and "running s" and "pending s = Some (Review_Transaction, texts)"
    and "app_inv E s" and t: "member (G_context s) = Tx_info t" "signing_input_index t = 0"
    and "signable (transaction t)" and "1 \<le> tx_input_len (transaction t)" "tx_input_len (transaction t) < 256"
  shows "\<exists>s'. app_exec E s (Chosen True) = Some s' \<and> signing E (transaction t) (length (sign_log s)) 1 s' \<and>
    responses s' = responses s @ [input_answer E (transaction t) (length (sign_log s)) 0] \<and>
    sign_log s' = sign_log s @ [(input_key E (transaction t) 0, input_digest E (transaction t) 0)]"
proof -
  let ?s = "set_state STATE_APPROVED (s\<lparr>pending := None\<rparr>)"
  have "signing E (transaction t) (length (sign_log s)) 0 ?s"
    using assms by (auto simp: signing_def set_defs app_inv_def pending_fits_def ctx_inv_def wf_ctx_def)
  from sign_and_send_ok [OF assms(1) this assms(7)] signable_input [OF assms(7), of 0] assms(8,9)
  obtain s' where "sign_input_and_send E ?s = Some (0, s')"
    and c: "signing E (transaction t) (length (sign_log s)) 1 s'"
    "responses s' = responses s @ [input_answer E (transaction t) (length (sign_log s)) 0]"
    "sign_log s' = sign_log s @ [(input_key E (transaction t) 0, input_digest E (transaction t) 0)]"
    by (auto simp: set_defs)
  then have "app_exec E s (Chosen True) = Some s'"
    using assms(2,3) by (simp add: app_exec_def review_choice_def validate_transaction_eq)
  with c show ?thesis by blast
qed

lemma session_ok:
  assumes "crypto_works E" and "next_command E bs" and "running s"
    and "pending s = Some (Review_Transaction, texts)" and "app_inv E s"
    and "member (G_context s) = Tx_info t" and "signing_input_index t = 0"
    and "signable (transaction t)" and n: "1 \<le> tx_input_len (transaction t)" "tx_input_len (transaction t) < 256"
  shows "\<exists>s'. app_run E s (Chosen True # replicate (tx_input_len (transaction t) - 1) (Received bs)) = Some s' \<and>
    responses s' = responses s @
      map (input_answer E (transaction t) (length (sign_log s))) [0..<tx_input_len (transaction t)] \<and>
    sign_log s' = sign_log s @
      map (\<lambda>j. (input_key E (transaction t) j, input_digest E (transaction t) j)) [0..<tx_input_len (transaction t)]"
proof -
  let ?tx = "transaction t" and ?m = "length (sign_log s)"
  obtain s1 where s1: "app_exec E s (Chosen True) = Some s1" "signing E ?tx ?m 1 s1"
    "responses s1 = responses s @ [input_answer E ?tx ?m 0]"
    "sign_log s1 = sign_log s @ [(input_key E ?tx 0, input_digest E ?tx 0)]"
    using approval_ok [OF assms(1,3-10)] by blast
  let ?k = "tx_input_len ?tx - 1"
  have k: "1 + ?k \<le> tx_input_len ?tx" "1 + ?k = tx_input_len ?tx" using n by simp_all
  from next_signatures_ok [OF assms(1,2) s1(2) assms(8) k(1) n(2)] k(2)
  obtain s' where s': "app_run E s1 (replicate ?k (Received bs)) = Some s'"
    "responses s' = responses s1 @ map (input_answer E ?tx ?m) [1..<tx_input_len ?tx]"
    "sign_log s' = sign_log s1 @ map (\<lambda>j. (input_key E ?tx j, input_digest E ?tx j)) [1..<tx_input_len ?tx]"
    by auto
  have u: "[0..<tx_input_len ?tx] = 0 # [1..<tx_input_len ?tx]" using n by (simp add: upt_conv_Cons)
  show ?thesis unfolding u using s1 s' by (simp del: upt_Suc)
qed

end

end
