(* ===== verification/Review.thy ===== *)
theory Review
  imports Session
begin

text \<open>
  From the last chunk of a transaction to its review: the decision of
  \<open>tx_validate_parsed_transaction\<close>, and what the screen shows.
\<close>

section \<open>The texts\<close>

lemma takeWhile_all: "\<forall>x\<in>set xs. P x \<Longrightarrow> \<not> P y \<Longrightarrow> takeWhile P (xs @ y # ys) = xs"
  by (simp add: takeWhile_append)

lemma cstr_append_zeros: "0 \<notin> set a \<Longrightarrow> cstr (a @ zeros n) = a"
  by (cases n) (auto simp: cstr_def zeros_def takeWhile_append takeWhile_eq_all_conv)

lemma cstr_snprintf: "0 \<notin> set a \<Longrightarrow> length a < n \<Longrightarrow> cstr (snprintf_buf n a) = a"
  by (simp add: snprintf_buf_def Let_def cstr_append_zeros)

lemma prec_str_padded: "0 \<notin> set a \<Longrightarrow> length a \<le> n \<Longrightarrow> prec_str n (a @ zeros (n - length a)) = a"
  by (simp add: prec_str_def cstr_append_zeros)

lemma script_text_address:
  assumes "length s = 40"
  shows "is_address_of s (script_text s)"
proof -
  let ?n = "addr_len (script_type s)"
  have n: "?n \<le> 69" by (cases "script_type s") simp_all
  then obtain a where a: "is_address_of s a"
    and e: "script_public_key_to_address (zeros 69) 69 s 40 = Some (True, a @ zeros (69 - ?n))"
    using script_address [of 40 s 69 "zeros 69"] assms by auto
  have l: "length a = ?n" using a by (auto simp: is_address_of_def)
  have z: "0 \<notin> set a" using address_nonzero [OF a] by auto
  have "script_text s = a"
    using e prec_str_padded [OF z, of 69] cstr_snprintf [OF z, of 75] l n
    by (simp add: script_text_def size_consts)
  with a show ?thesis by simp
qed

section \<open>The decision\<close>

definition pays_own_key :: "env \<Rightarrow> u32 list \<Rightarrow> transaction_t \<Rightarrow> bool" where
  "pays_own_key E path tx \<longleftrightarrow>
     (let s = out_script_public_key (tx_outputs tx ! 1)
      in s ! 0 = 0x20 \<and>
         (case bip32_derive_get_pubkey_256 (sdk_crypto E) (header_path (account tx) (path ! 3) (path ! 4)) of
            (err, raw, _) \<Rightarrow> err = 0 \<and> take 32 (drop 1 raw) = take 32 (drop 1 s)))"

definition tx_valid :: "env \<Rightarrow> u32 list \<Rightarrow> transaction_t \<Rightarrow> bool" where
  "tx_valid E path tx \<longleftrightarrow> tx_output_len tx \<in> {1, 2} \<and> 1 \<le> tx_input_len tx \<and>
     (tx_output_len tx = 2 \<longrightarrow> pays_own_key E path tx) \<and>
     sum_list (map out_value (tx_outs tx)) \<le> sum_list (map in_value (tx_ins tx))"

context device
begin

lemma validate_key:
  assumes "length pk = 32"
  shows "crypto_validate_public_key E (header_path a b c) 5 pk =
    Some (case bip32_derive_get_pubkey_256 (sdk_crypto E) (header_path a b c) of
            (err, raw, _) \<Rightarrow> err = 0 \<and> take 32 (drop 1 raw) = pk)"
proof -
  obtain err raw chain where d: "bip32_derive_get_pubkey_256 (sdk_crypto E) (header_path a b c) = (err, raw, chain)"
    by (cases "bip32_derive_get_pubkey_256 (sdk_crypto E) (header_path a b c)") auto
  then have "length raw = 65" using pubkey_len by blast
  with d assms show ?thesis by (simp add: crypto_validate_public_key_def mem_read_Some)
qed

lemma tx_validate_decides:
  assumes "wf_transaction (MAX_INPUT_COUNT E) tx" and "tx_input_len tx \<le> MAX_INPUT_COUNT E"
    and p: "length (bip32_path (G_context s)) = 5"
  shows "\<exists>s'. tx_validate_parsed_transaction E tx s = Some (tx_valid E (bip32_path (G_context s)) tx, s') \<and>
    s' \<in> {s, set_ctx ((G_context s)\<lparr>bip32_path := header_path (account tx) (bip32_path (G_context s) ! 3)
      (bip32_path (G_context s) ! 4), bip32_path_len := 5\<rparr>) s}"
proof -
  have n: "length (tx_outputs tx) = 2" "length (tx_inputs tx) = MAX_INPUT_COUNT E"
    using assms(1) by (simp_all add: wf_transaction_def size_consts)
  have sc: "length (out_script_public_key (tx_outputs tx ! 1)) = 40"
    using wf_transaction_nth(2) [OF assms(1), of 1] by (simp add: wf_output_def size_consts)
  have ins: "mem_read (tx_inputs tx) 0 (tx_input_len tx) = Some (tx_ins tx)"
    using n assms(2) by (simp add: mem_read_def tx_ins_def)
  have outs: "mem_read (tx_outputs tx) 0 (tx_output_len tx) = Some (tx_outs tx)" if "tx_output_len tx \<le> 2"
    using n that by (simp add: mem_read_def tx_outs_def)
  have n1: "1 < length (tx_outputs tx)" "0 < length (out_script_public_key (tx_outputs tx ! 1))"
    "1 + 32 \<le> length (out_script_public_key (tx_outputs tx ! 1))"
    "out_script_public_key (tx_outputs tx ! 1) \<noteq> []" using n sc by auto
  have path: "Option.bind (arr_put (bip32_path (G_context s)) 0 0x8000002C)
      (\<lambda>path. Option.bind (arr_put path 1 0x8001b207)
      (\<lambda>path. Option.bind (arr_put path 2 (account tx)) k)) =
      k (header_path (account tx) (bip32_path (G_context s) ! 3) (bip32_path (G_context s) ! 4))" for k
    using p put_account_path [OF p, of "account tx"] by (simp add: arr_put_def)
  have outs': "tx_output_len tx = Suc 0 \<Longrightarrow> mem_read (tx_outputs tx) 0 (Suc 0) = Some (tx_outs tx)"
    "tx_output_len tx = 2 \<Longrightarrow> mem_read (tx_outputs tx) 0 2 = Some (tx_outs tx)" using outs by simp_all
  have scr: "mem_read (out_script_public_key (tx_outputs tx ! Suc 0)) (Suc 0) 32 =
      Some (take 32 (drop (Suc 0) (out_script_public_key (tx_outputs tx ! 1))))"
    "length (take 32 (drop (Suc 0) (out_script_public_key (tx_outputs tx ! 1)))) = 32"
    using sc by (simp_all add: mem_read_Some)
  note vk = validate_key [OF scr(2), unfolded One_nat_def]
  show ?thesis
  proof (cases "tx_output_len tx \<in> {1, 2} \<and> 1 \<le> tx_input_len tx")
    case False
    then have "2 < tx_output_len tx \<or> tx_output_len tx < 1 \<or> tx_input_len tx < 1" by auto
    with False show ?thesis by (auto simp: tx_validate_parsed_transaction_def tx_valid_def)
  next
    case True
    then have c: "\<not> (2 < tx_output_len tx \<or> tx_output_len tx < 1)" "\<not> tx_input_len tx < 1" "tx_output_len tx \<le> 2"
      by auto
    show ?thesis using True c
      by (cases "tx_output_len tx = 2"; cases "out_script_public_key (tx_outputs tx ! 1) ! 0 = 0x20")
        (auto simp: tx_validate_parsed_transaction_def Let_def arr_get_Some n1 n1 [unfolded One_nat_def]
          scr(1) [unfolded One_nat_def] path [unfolded One_nat_def] vk ins outs' sum_list_foldl
          tx_valid_def pays_own_key_def not_le not_less split: prod.splits)
  qed
qed

end

section \<open>The review\<close>

text \<open>The formatter of amounts accepts the given value.\<close>

definition formats :: "env \<Rightarrow> u64 \<Rightarrow> bool" where
  "formats E v \<longleftrightarrow> fst (format_fpu64_trimmed (sdk_text E) 30 v EXPONENT_SMALLEST_UNIT)"

definition tx_fees :: "transaction_t \<Rightarrow> u64" where
  "tx_fees tx = sum_list (map in_value (tx_ins tx)) - sum_list (map out_value (tx_outs tx))"

definition tx_texts :: "env \<Rightarrow> transaction_t \<Rightarrow> (string \<times> bytes) list" where
  "tx_texts E tx =
     (let a = script_text (out_script_public_key (tx_outputs tx ! 0));
          v = amount_text E (out_value (tx_outputs tx ! 0));
          f = amount_text E (tx_fees tx)
      in if HAVE_NBGL E then [(''Amount'', v), (''To'', a), (''Fees'', f)]
         else [(''Address'', a), (''Amount'', v), (''Fees'', f)])"

lemma fees_eq:
  assumes "tx_input_len tx \<le> length (tx_inputs tx)" and "tx_output_len tx \<le> length (tx_outputs tx)"
  shows "calc_fees (tx_inputs tx) (tx_input_len tx) (tx_outputs tx) (tx_output_len tx) = Some (tx_fees tx)"
  using assms by (simp add: calc_fees_def mem_read_def foldl_add foldl_diff tx_fees_def tx_ins_def tx_outs_def)

lemma display_transaction_ok:
  assumes "wf_transaction (MAX_INPUT_COUNT E) (transaction t)"
    and "tx_input_len (transaction t) \<le> MAX_INPUT_COUNT E" and "tx_output_len (transaction t) \<le> 2"
    and "member (G_context s) = Tx_info t" and "req_type (G_context s) = CONFIRM_TRANSACTION"
    and "state (G_context s) = STATE_PARSED"
    and f: "formats E (out_value (tx_outputs (transaction t) ! 0))" "formats E (tx_fees (transaction t))"
  shows "ui_display_transaction E s =
    Some (0, s\<lparr>pending := Some (Review_Transaction, tx_texts E (transaction t))\<rparr>)"
proof -
  let ?tx = "transaction t"
  have n: "length (tx_outputs ?tx) = 2" "length (tx_inputs ?tx) = MAX_INPUT_COUNT E"
    using assms(1) by (simp_all add: wf_transaction_def size_consts)
  have sc: "length (out_script_public_key (tx_outputs ?tx ! 0)) = 40"
    using wf_transaction_nth(2) [OF assms(1), of 0] by (simp add: wf_output_def size_consts)
  obtain a b where addr: "script_public_key_to_address (zeros 69) 69
      (out_script_public_key (tx_outputs ?tx ! 0)) 40 = Some (a, b)"
  proof -
    have "\<exists>x. script_public_key_to_address (zeros 69) 69 (out_script_public_key (tx_outputs ?tx ! 0)) 40 = Some x"
      using script_address [of 40 "out_script_public_key (tx_outputs ?tx ! 0)" 69 "zeros 69"] sc by auto
    then show thesis using that by auto
  qed
  obtain v w where am: "format_fpu64_trimmed (sdk_text E) 30 (out_value (tx_outputs ?tx ! 0)) EXPONENT_SMALLEST_UNIT = (True, v)"
    "format_fpu64_trimmed (sdk_text E) 30 (tx_fees ?tx) EXPONENT_SMALLEST_UNIT = (True, w)"
    using f unfolding formats_def by (metis prod.collapse)
  have a0: "arr_get (tx_outputs ?tx) 0 = Some (tx_outputs ?tx ! 0)" using n by (simp add: arr_get_def)
  have fees: "calc_fees (tx_inputs ?tx) (tx_input_len ?tx) (tx_outputs ?tx) (tx_output_len ?tx) = Some (tx_fees ?tx)"
    using fees_eq assms(2,3) n by simp
  show ?thesis
    using assms(4-6) by (simp add: ui_display_transaction_def bagl_ui_display_transaction_def
        nbgl_ui_display_transaction_def Let_def a0 am fees addr [folded size_consts] addr size_consts show_review_def
        tx_texts_def script_text_def amount_text_def)
qed

section \<open>Transaction data\<close>

text \<open>An input as its chunk of 46 bytes says, over the one in the array.\<close>

definition read_input :: "bytes \<Rightarrow> transaction_input_t \<Rightarrow> transaction_input_t" where
  "read_input bs i = i\<lparr>in_value := be_word (take 8 bs), in_tx_id := take 32 (drop 8 bs),
     in_address_type := bs ! 40, in_address_index := be_word (take 4 (drop 41 bs)), in_index := bs ! 45\<rparr>"

definition add_input :: "bytes \<Rightarrow> transaction_ctx_t \<Rightarrow> transaction_ctx_t" where
  "add_input bs t = (let i = unat (parsing_input_index t); tx = transaction t
     in t\<lparr>transaction := tx\<lparr>tx_inputs := (tx_inputs tx)[i := read_input bs (tx_inputs tx ! i)]\<rparr>,
          parsing_input_index := parsing_input_index t + 1\<rparr>)"

definition add_output :: "u64 \<Rightarrow> bytes \<Rightarrow> transaction_ctx_t \<Rightarrow> transaction_ctx_t" where
  "add_output v sc t = (let i = unat (parsing_output_index t); tx = transaction t; x = tx_outputs tx ! i
     in t\<lparr>transaction := tx\<lparr>tx_outputs := (tx_outputs tx)[i := x\<lparr>out_value := v,
            out_script_public_key := sc @ drop (length sc) (out_script_public_key x)\<rparr>]\<rparr>,
          parsing_output_index := parsing_output_index t + 1\<rparr>)"

text \<open>The next input and output fit the counts of the header and the arrays.\<close>

definition expects_input :: "env \<Rightarrow> transaction_ctx_t \<Rightarrow> bool" where
  "expects_input E t \<longleftrightarrow> unat (parsing_input_index t) < MAX_INPUT_COUNT E \<and>
     unat (parsing_input_index t) < tx_input_len (transaction t) mod 256"

definition expects_output :: "transaction_ctx_t \<Rightarrow> bool" where
  "expects_output t \<longleftrightarrow> unat (parsing_output_index t) < 2 \<and>
     unat (parsing_output_index t) < tx_output_len (transaction t) mod 256"

lemma u8_le: "(word_of_nat n :: u8) \<le> i \<longleftrightarrow> \<not> unat i < n mod 256"
  by (simp add: word_le_nat_alt unat_of_nat not_less)

context device
begin

lemma sign_tx_input_ok:
  assumes "valid_buffer b" and "length (rest b) = 46" and "wf_tx_ctx (MAX_INPUT_COUNT E) t" and "expects_input E t"
  shows "sign_tx_input E b t s = Some (True, 0, set_member (Tx_info (add_input (rest b) t)) s)"
proof -
  let ?i = "unat (parsing_input_index t)"
  have i: "?i < length (tx_inputs (transaction t))" "wf_input (tx_inputs (transaction t) ! ?i)"
    using assms(3,4) wf_transaction_nth(1) by (auto simp: wf_tx_ctx_def wf_transaction_def expects_input_def)
  have "MAX_INPUT_COUNT E mod 256 = MAX_INPUT_COUNT E" using input_count(2) by simp
  then show ?thesis using assms(2,4) i input_deserialize_full [OF assms(1) i(2)]
    by (simp add: sign_tx_input_def u8_le expects_input_def arr_get_Some add_input_def read_input_def Let_def)
qed

lemma sign_tx_input_reject:
  assumes "\<not> expects_input E t"
  shows "sign_tx_input E b t s = Some (False, io_send_sw E SW_TX_PARSING_FAIL s)"
proof -
  have "MAX_INPUT_COUNT E mod 256 = MAX_INPUT_COUNT E" using input_count(2) by simp
  then show ?thesis using assms by (auto simp: sign_tx_input_def u8_le expects_input_def)
qed

lemma sign_tx_output_ok:
  assumes "valid_buffer b" and "rest b = be_bytes 8 v @ sc" and "known_script sc"
    and "wf_tx_ctx (MAX_INPUT_COUNT E) t" and "expects_output t"
  shows "sign_tx_output E b t s = Some (True, 0, set_member (Tx_info (add_output v sc t)) s)"
proof -
  let ?i = "unat (parsing_output_index t)"
  have i: "?i < length (tx_outputs (transaction t))" "wf_output (tx_outputs (transaction t) ! ?i)"
    using assms(4,5) wf_transaction_nth(2) by (auto simp: wf_tx_ctx_def wf_transaction_def expects_output_def size_consts)
  have "transaction_output_deserialize (sdk_buffer E) b (tx_outputs (transaction t) ! ?i) =
      Some (PARSING_OK, advance (length (rest b)) b, (tx_outputs (transaction t) ! ?i)\<lparr>out_value := v,
         out_script_public_key := sc @ drop (length sc) (out_script_public_key (tx_outputs (transaction t) ! ?i))\<rparr>)"
    using output_deserialize_ok [OF assms(1) i(2)] assms(2,3) by blast
  moreover have "\<not> 2 \<le> parsing_output_index t"
    using assms(5) by (simp add: expects_output_def word_le_nat_alt)
  ultimately show ?thesis using assms(5) i
    by (simp add: sign_tx_output_def u8_le expects_output_def arr_get_Some add_output_def Let_def size_consts)
qed

text \<open>A further input: stored, with nothing else done. This holds in every state of the request.\<close>

lemma more_input:
  assumes "valid_buffer b" and "length (rest b) = 46" and "req_type (G_context s) = CONFIRM_TRANSACTION"
    and "tx_info (MAX_INPUT_COUNT E) (member (G_context s)) = Some t"
    and "wf_tx_ctx (MAX_INPUT_COUNT E) t" and "expects_input E t"
  shows "handler_sign_tx E b P1_INPUTS True s = Some (io_send_sw E SW_OK (set_member (Tx_info (add_input (rest b) t)) s))"
  using assms by (simp add: handler_sign_tx_def sign_tx_data_def sign_tx_input_ok apdu_consts)

lemma more_output:
  assumes "valid_buffer b" and "rest b = be_bytes 8 v @ sc" and "known_script sc"
    and "req_type (G_context s) = CONFIRM_TRANSACTION"
    and "tx_info (MAX_INPUT_COUNT E) (member (G_context s)) = Some t"
    and "wf_tx_ctx (MAX_INPUT_COUNT E) t" and "expects_output t"
  shows "handler_sign_tx E b P1_OUTPUTS True s = Some (io_send_sw E SW_OK (set_member (Tx_info (add_output v sc t)) s))"
  using assms by (simp add: handler_sign_tx_def sign_tx_data_def sign_tx_output_ok apdu_consts)

text \<open>The last input: the transaction is checked and shown.\<close>

lemma last_input:
  assumes "valid_buffer b" and "length (rest b) = 46" and "idle E s" and "req_type (G_context s) = CONFIRM_TRANSACTION"
    and "tx_info (MAX_INPUT_COUNT E) (member (G_context s)) = Some t"
    and "expects_input E t" and t': "t' = add_input (rest b) t" and "tx_input_len (transaction t) \<le> MAX_INPUT_COUNT E"
    and f: "formats E (out_value (tx_outputs (transaction t') ! 0))" "formats E (tx_fees (transaction t'))"
  shows "\<exists>r s'. handler_sign_tx E b P1_INPUTS False s = Some (r, s') \<and> sign_log s' = sign_log s \<and>
    (if tx_valid E (bip32_path (G_context s)) (transaction t')
     then pending s' = Some (Review_Transaction, tx_texts E (transaction t')) \<and> responses s' = responses s \<and> r = 0 \<and>
       state (G_context s') = STATE_PARSED \<and> member (G_context s') = Tx_info t' \<and> running s' = running s
     else pending s' = None \<and> responses s' = responses s @ [([], 0xB005)])"
proof -
  let ?s = "set_member (Tx_info t') s"
  have wt: "wf_tx_ctx (MAX_INPUT_COUNT E) t"
    using assms(3,5) by (cases "member (G_context s)") (auto simp: idle_iff)
  have wi: "wf_input (read_input (rest b) i)" for i using assms(2) by (simp add: read_input_def wf_input_def)
  have w: "wf_transaction (MAX_INPUT_COUNT E) (transaction t')" "tx_input_len (transaction t') \<le> MAX_INPUT_COUNT E"
    using wt wi wf_transaction_update_input assms(8) by (auto simp: t' add_input_def Let_def wf_tx_ctx_def)
  have p: "length (bip32_path (G_context ?s)) = 5" using assms(3) by (simp add: idle_iff set_simps)
  obtain s2 where v: "tx_validate_parsed_transaction E (transaction t') ?s =
      Some (tx_valid E (bip32_path (G_context s)) (transaction t'), s2)"
    and s2: "member (G_context s2) = Tx_info t'" "req_type (G_context s2) = CONFIRM_TRANSACTION"
      "sign_log s2 = sign_log s" "responses s2 = responses s" "running s2 = running s" "pending s2 = None"
    using tx_validate_decides [OF w p] assms(3,4) by (auto simp: set_defs idle_iff)
  have "tx_output_len (transaction t') \<le> 2" if "tx_valid E (bip32_path (G_context s)) (transaction t')"
    using that by (auto simp: tx_valid_def)
  then show ?thesis
    using assms(4,5) v s2 display_transaction_ok [OF w, of "set_state STATE_PARSED s2"] f
    by (simp add: handler_sign_tx_def sign_tx_data_def sign_tx_input_ok [OF assms(1,2) wt assms(6)] apdu_consts
        t' [symmetric] set_simps io_simps sw_consts) (auto simp: set_defs)
qed

end

end
