(* ===== verification/Message_Session.thy ===== *)
theory Message_Session
  imports Session
begin

text \<open>
  Signing a message: the approval of a message on the screen makes one signature, over the
  digest of that message and with the key of the path in the request, and answers it.
\<close>

definition message_path :: "message_sign_ctx_t \<Rightarrow> u32 list" where
  "message_path m = header_path (msg_account m) (ucast (msg_address_type m)) (msg_address_index m)"

text \<open>What the structure of the key holds after the derivation at the path: the key at the path when
  the derivation succeeds.\<close>

definition message_key :: "env \<Rightarrow> message_sign_ctx_t \<Rightarrow> bytes" where
  "message_key E m = snd (bip32_derive_init_privkey_256 (sdk_crypto E) (message_path m))"

definition shown_digest :: "message_sign_ctx_t \<Rightarrow> bytes" where
  "shown_digest m = message_digest (take (message_len m) (message m))"

definition message_response :: "bytes \<Rightarrow> bytes \<Rightarrow> bytes" where
  "message_response sig dig = [64] @ sig @ [32] @ dig"

lemma response_message_eq:
  assumes "msg_info (member (G_context s)) = Some m"
    and "length (msg_signature m) = 64" and "length (message_hash m) = 32"
  shows "helper_send_response_personal_message_sig E s =
    Some (io_send_response_pointer E (message_response (msg_signature m) (message_hash m)) SW_OK s)"
proof -
  have z: "zeros (3 + MAX_DER_SIG_LEN + 34) = 0 # zeros 100"
    by (simp add: zeros_def MAX_DER_SIG_LEN_def numeral_eq_Suc)
  show ?thesis using assms unfolding helper_send_response_personal_message_sig_def z Let_def
    by (simp add: mem_simps MAX_DER_SIG_LEN_def message_response_def arr_put_mem_write mem_write_def mem_read_def)
qed

context device
begin

lemma message_approval_ok:
  assumes "crypto_works E" and "running s" and p: "pending s = Some (Review_Message, texts)"
    and i: "app_inv E s" and m: "member (G_context s) = Msg_info m"
  shows "\<exists>sig s'. app_exec E s (Chosen True) = Some s' \<and>
    sig = snd (cx_ecschnorr_sign_no_throw (sdk_crypto E) (length (sign_log s)) (message_key E m) (shown_digest m)) \<and>
    sign_log s' = sign_log s @ [(message_key E m, shown_digest m)] \<and>
    responses s' = responses s @ [(message_response sig (shown_digest m), 0x9000)] \<and> pending s' = None"
proof -
  have r: "msg_ready (G_context s) m" using i p m by (auto simp: app_inv_def pending_fits_def msg_ready_def)
  have len: "length (message m) = 128" "length (message_hash m) = 32"
    using i m by (simp_all add: app_inv_def ctx_inv_def wf_ctx_def)
  have h: "hash_personal_message (message m) (message_len m) (message_hash m) 32 = Some (True, shown_digest m)"
    using r len by (simp add: hash_personal_message_eq msg_ready_def shown_digest_def)
  have path: "mem_read (bip32_path (G_context s)) 0 (unat (bip32_path_len (G_context s))) = Some (message_path m)"
    using r by (simp add: msg_ready_def mem_read_def message_path_def)
  obtain key where key: "bip32_derive_init_privkey_256 (sdk_crypto E) (message_path m) = (0, key)"
    using assms(1) unfolding crypto_works_def by (metis prod.collapse)
  obtain sig where sig: "cx_ecschnorr_sign_no_throw (sdk_crypto E) (length (sign_log s)) key (shown_digest m) = (0, sig)"
    using assms(1) unfolding crypto_works_def by (metis prod.collapse)
  let ?m = "m\<lparr>message_hash := shown_digest m, msg_signature := sig\<rparr>"
  let ?s = "log_sign key (shown_digest m) (set_member (Msg_info ?m) (set_state STATE_APPROVED (s\<lparr>pending := None\<rparr>)))"
  have c: "crypto_sign_personal_message E (set_state STATE_APPROVED (s\<lparr>pending := None\<rparr>)) = Some (0, ?s)"
    using h path key sig m len
    by (simp add: crypto_sign_personal_message_def Let_def set_defs log_sign_def)
  have d: "length (shown_digest m) = 32" by (simp add: shown_digest_def pw.digest_len)
  have a: "helper_send_response_personal_message_sig E ?s =
      Some (io_send_response_pointer E (message_response sig (shown_digest m)) SW_OK ?s)"
    using response_message_eq [of ?s ?m E] sig_len [OF sig] d by (simp add: set_defs log_sign_def)
  have "app_exec E s (Chosen True) = Some (snd (io_send_response_pointer E (message_response sig (shown_digest m)) SW_OK ?s))"
    using assms(2) p c a by (simp add: app_exec_def review_choice_def validate_message_def io_simps)
  moreover have "message_key E m = key" using key by (simp add: message_key_def)
  ultimately show ?thesis using sig by (auto simp: io_simps set_defs log_sign_def SW_OK_def)
qed

end

end
