(* ===== verification/Example.thy ===== *)
theory Example
  imports Review Message_Session
begin

text \<open>
  A concrete session on the concrete device: a transaction with two inputs and one output is
  sent, reviewed and approved, and both inputs are signed; and a personal message. The
  witnesses of the properties about runs apply them here.
\<close>

section \<open>A transaction\<close>

definition ex_script :: bytes where
  "ex_script = 0x20 # replicate 32 9 @ [0xac]"

definition ex_input :: "u8 \<Rightarrow> bytes" where
  "ex_input v = zeros 7 @ [v] @ replicate 32 5 @ [0, 0, 0, 0, 3, 2]"

definition ex_commands :: "bytes list" where
  "ex_commands =
    [[0xE0, 6, 0, 0x80, 13, 0, 1, 1, 2, 0, 0, 0, 0, 0, 0x80, 0, 0, 0],
     [0xE0, 6, 1, 0x80, 42] @ be_bytes 8 (7 :: u64) @ ex_script,
     [0xE0, 6, 2, 0x80, 46] @ ex_input 9]"

definition ex_last :: bytes where
  "ex_last = [0xE0, 6, 2, 0, 46] @ ex_input 4"

definition ex_next :: bytes where
  "ex_next = [0xE0, 6, 3, 0]"

definition ex_sent :: transaction_ctx_t where
  "ex_sent = (zero_tx 15)\<lparr>transaction := (zero_transaction 15)\<lparr>version := 1, account := 0x80000000,
       tx_input_len := 2, tx_output_len := 1,
       tx_outputs := [\<lparr>out_value = 7, out_script_public_key = ex_script @ zeros 6\<rparr>, zero_output],
       tx_inputs := read_input (ex_input 9) zero_input # replicate 14 zero_input\<rparr>,
     parsing_output_index := 1, parsing_input_index := 1\<rparr>"

definition ex_state :: app where
  "ex_state = app_main_start\<lparr>G_context := zero_ctx\<lparr>req_type := CONFIRM_TRANSACTION,
       member := Tx_info ex_sent, bip32_path := header_path 0x80000000 0 0\<rparr>,
     responses := [([], 0x9000), ([], 0x9000), ([], 0x9000)]\<rparr>"

lemma ex_received: "app_run std_env app_main_start (map Received ex_commands) = Some ex_state"
  by code_simp

definition ex_tx :: transaction_t where
  "ex_tx = transaction (add_input (ex_input 4) ex_sent)"

lemma ex_signable: "signable ex_tx"
  by code_simp

lemma ex_valid: "tx_valid std_env (header_path 0x80000000 0 0) ex_tx"
  by code_simp

lemma ex_parse: "apdu_parser std_env ex_last = Some \<lparr>cla = 0xE0, ins = 6, p1 = 2, p2 = 0, lc = 46,
    data = Some (ex_input 4)\<rparr>"
  by code_simp

lemma ex_next_command: "next_command std_env ex_next"
  by (simp add: next_command_def ex_next_def std_env_def std_parse_def apdu_consts)

lemma std_crypto_works: "crypto_works std_env"
  by (simp add: crypto_works_def std_env_def std_crypto_def)

lemma std_formats: "formats std_env v"
  by (simp add: formats_def std_env_def)

definition ex_buffer :: buffer_t where
  "ex_buffer = \<lparr>ptr = ex_input 4, bsize = 46, offset = 0\<rparr>"

lemma ex_buffer_rest: "rest ex_buffer = ex_input 4" "valid_buffer ex_buffer" "length (ex_input 4) = 46"
  by (simp_all add: ex_buffer_def rest_def valid_buffer_def ex_input_def)

lemma ex_idle: "idle std_env ex_state"
proof -
  have "app_inv std_env ex_state"
    using std_dev.app.run_inv [of "map Received ex_commands" ex_state] ex_received app_run_iff by blast
  then show ?thesis by (simp add: idle_def app_inv_def ex_state_def app_main_start_def)
qed

lemma ex_expects: "expects_input std_env ex_sent"
  by code_simp

lemma ex_context:
  "req_type (G_context ex_state) = CONFIRM_TRANSACTION" "member (G_context ex_state) = Tx_info ex_sent"
  "bip32_path (G_context ex_state) = header_path 0x80000000 0 0" "running ex_state" "pending ex_state = None"
  "sign_log ex_state = []" "responses ex_state = [([], 0x9000), ([], 0x9000), ([], 0x9000)]"
  "tx_input_len (transaction ex_sent) = 2"
  by (simp_all add: ex_state_def app_main_start_def ex_sent_def)

lemma std_max [simp]: "MAX_INPUT_COUNT std_env = 15"
  by (simp add: std_env_def)

lemma ex_reviewed:
  "\<exists>s. app_run std_env app_main_start (map Received (ex_commands @ [ex_last])) = Some s \<and>
     pending s = Some (Review_Transaction, tx_texts std_env ex_tx) \<and>
     member (G_context s) = Tx_info (add_input (ex_input 4) ex_sent) \<and> sign_log s = [] \<and> running s"
proof -
  note last = std_dev.last_input [of ex_buffer ex_state ex_sent "add_input (ex_input 4) ex_sent"]
  obtain s' where s': "handler_sign_tx std_env ex_buffer P1_INPUTS False ex_state = Some (0, s')"
    "pending s' = Some (Review_Transaction, tx_texts std_env ex_tx)"
    "member (G_context s') = Tx_info (add_input (ex_input 4) ex_sent)" "sign_log s' = []" "running s'"
    using last ex_buffer_rest ex_idle ex_context ex_expects std_formats ex_valid [unfolded ex_tx_def]
    by (auto simp: ex_tx_def)
  have "app_exec std_env ex_state (Received ex_last) = Some s'"
    using s'(1) ex_context ex_parse
    by (simp add: app_exec_def app_main_round_def apdu_dispatcher_def cmd_buffer_def ex_buffer_def apdu_consts)
  with s' ex_received show ?thesis by (auto simp: app_run_append)
qed

section \<open>A message\<close>

definition ex_message :: bytes where
  "ex_message = [0xE0, 7, 0, 0, 13, 0, 0, 0, 0, 5, 0x80, 0, 0, 1, 3, 72, 105, 33]"

definition ex_msg :: message_sign_ctx_t where
  "ex_msg = zero_msg\<lparr>message_len := 3, message := [72, 105, 33] @ zeros 125, msg_account := 0x80000001,
     msg_address_index := 5\<rparr>"

definition ex_msg_texts :: "(string \<times> bytes) list" where
  "ex_msg_texts = [(''Path'', [0x80]), (''Message'', [72, 105, 33])]"

definition ex_msg_state :: app where
  "ex_msg_state = app_main_start\<lparr>G_context := zero_ctx\<lparr>req_type := CONFIRM_MESSAGE,
       member := Msg_info ex_msg, bip32_path := header_path 0x80000001 0 5, bip32_path_len := 5\<rparr>,
     pending := Some (Review_Message, ex_msg_texts)\<rparr>"

lemma ex_msg_received: "app_run std_env app_main_start [Received ex_message] = Some ex_msg_state"
  by code_simp

lemma ex_msg_run: "run (app_step std_env) app_main_start [Received ex_message] ex_msg_state"
  using ex_msg_received app_run_iff by blast

lemma ex_msg_facts:
  "pending ex_msg_state = Some (Review_Message, ex_msg_texts)" "member (G_context ex_msg_state) = Msg_info ex_msg"
  "running ex_msg_state" "sign_log ex_msg_state = []" "responses ex_msg_state = []"
  by (simp_all add: ex_msg_state_def app_main_start_def)

end
