(* ===== verification/App_Safety.thy ===== *)
theory App_Safety
  imports Example
begin

text \<open>
  What the application never does: no signature with a key of the user without the approval of
  what is on the screen, no key derived outside the application's path. The properties are about
  all runs from the start and every device that has the documented behaviour, with and without
  the debug command.
\<close>

section \<open>One step\<close>

text \<open>The two occasions on which a step may sign.\<close>

definition approves :: "app \<Rightarrow> event \<Rightarrow> review_e \<Rightarrow> (string \<times> bytes) list \<Rightarrow> bool" where
  "approves s e r texts \<longleftrightarrow> e = Chosen True \<and> pending s = Some (r, texts)"

definition asks_next :: "env \<Rightarrow> app \<Rightarrow> event \<Rightarrow> bool" where
  "asks_next E s e \<longleftrightarrow> state (G_context s) = STATE_APPROVED \<and> req_type (G_context s) = CONFIRM_TRANSACTION \<and>
     (\<exists>bs cmd. e = Received bs \<and> apdu_parser E bs = Some cmd \<and> cla cmd = CLA \<and>
        ins cmd = command_value SIGN_TX \<and> p1 cmd = P1_NEXT_SIGNATURE)"

text \<open>The debug command of the builds that have it, with its test case.\<close>

definition asks_test :: "env \<Rightarrow> event \<Rightarrow> nat \<Rightarrow> bool" where
  "asks_test E e n \<longleftrightarrow> HAVE_DEBUG_APDU E \<and>
     (\<exists>bs cmd. e = Received bs \<and> apdu_parser E bs = Some cmd \<and> cla cmd = CLA \<and>
        ins cmd = command_value DEBUG_APDU \<and> n = unat (p1 cmd))"

lemma dispatcher_cla: "cla cmd \<noteq> CLA \<Longrightarrow> apdu_dispatcher E cmd s = Some (io_send_sw E SW_CLA_NOT_SUPPORTED s)"
  by (simp add: apdu_dispatcher_def)

lemma received_gate:
  assumes "length (bip32_path (G_context s)) = 5" and "app_main_round E bs s = Some s'"
  shows "(sign_log s' = sign_log s \<and> (state (G_context s') = STATE_APPROVED \<longrightarrow>
       state (G_context s) = STATE_APPROVED \<and> req_type (G_context s') = req_type (G_context s)) \<or>
     asks_next E s (Received bs) \<and> one_signature E s s' \<and>
     (state (G_context s') = STATE_APPROVED \<longrightarrow> req_type (G_context s') = CONFIRM_TRANSACTION)) \<and>
     (test_log s' = test_log s \<or> sign_log s' = sign_log s \<and>
       (\<exists>n. asks_test E (Received bs) n \<and> test_log s' = test_log s @ [test_call n]))"
proof (cases "apdu_parser E bs")
  case None
  then show ?thesis using assms(2) by (auto simp: app_main_round_def io_simps)
next
  case (Some cmd)
  then obtain r s1 where d: "apdu_dispatcher E cmd s = Some (r, s1)"
    and s': "sign_log s' = sign_log s1" "test_log s' = test_log s1" "G_context s' = G_context s1"
    using assms(2) by (auto simp: app_main_round_def bind_eq_Some_conv split: if_splits)
  have "cla cmd = CLA \<or> calm s s1"
    using d dispatcher_cla [of cmd E s] by (auto simp: io_simps calm_def)
  then show ?thesis
    using yieldsD [OF dispatcher_gate [OF assms(1)] d] Some s'
    by (auto simp: calm_def next_signature_def asks_next_def one_signature_def test_signature_def
        only_sends_def asks_test_def apdu_consts)
qed

lemma step_gate:
  assumes "app_step E s e s'" and "length (bip32_path (G_context s)) = 5"
  shows "(sign_log s' = sign_log s \<or>
      (\<exists>texts. approves s e Review_Transaction texts) \<and> one_signature E s s' \<or>
      (\<exists>texts. approves s e Review_Message texts) \<and> message_signature E s s' \<or>
      asks_next E s e \<and> one_signature E s s') \<and>
    (state (G_context s') = STATE_APPROVED \<longrightarrow> state (G_context s) = STATE_APPROVED \<or>
      (\<exists>r texts. approves s e r texts \<and> r \<noteq> Review_Address))"
  using assms(1)
proof (cases rule: app_step.cases)
  case (received bs)
  then show ?thesis using received_gate [OF assms(2), of E bs s'] by (auto simp: asks_next_def)
next
  case failed
  then show ?thesis by simp
next
  case (chosen r texts choice)
  then show ?thesis
    using yieldsD [OF review_choice_gate [OF assms(2)], of E r choice s'] by (auto simp: approves_def)
qed

lemma step_tests:
  assumes "app_step E s e s'" and "length (bip32_path (G_context s)) = 5"
  shows "test_log s' = test_log s \<or>
    sign_log s' = sign_log s \<and> (\<exists>n. asks_test E e n \<and> test_log s' = test_log s @ [test_call n])"
  using assms(1)
proof (cases rule: app_step.cases)
  case (received bs)
  then show ?thesis using received_gate [OF assms(2), of E bs s'] by simp
next
  case failed
  then show ?thesis by simp
next
  case (chosen r texts choice)
  then show ?thesis
    using yieldsD [OF review_choice_gate [OF assms(2)], of E r choice s'] by simp
qed

lemma inv_path: "app_inv E s \<Longrightarrow> length (bip32_path (G_context s)) = 5"
  by (simp add: app_inv_def ctx_inv_def wf_ctx_def)

lemma one_signature_bound: "one_signature E s s' \<Longrightarrow> length (sign_log s') \<le> length (sign_log s) + 1"
  "message_signature E s s' \<Longrightarrow> length (sign_log s') \<le> length (sign_log s) + 1"
  by (auto simp: one_signature_def message_signature_def)

section \<open>Keys\<close>

text \<open>A key that a derivation at a path below 44'/111111' has returned, and what the key's
  structure holds after such a derivation has failed.\<close>

definition own_derived_key :: "env \<Rightarrow> bytes \<Rightarrow> bool" where
  "own_derived_key E k \<longleftrightarrow>
     (\<exists>acc ty idx. bip32_derive_init_privkey_256 (sdk_crypto E) (header_path acc ty idx) = (0, k))"

definition left_by_failure :: "env \<Rightarrow> bytes \<Rightarrow> bool" where
  "left_by_failure E k \<longleftrightarrow>
     (\<exists>acc ty idx err. err \<noteq> 0 \<and> bip32_derive_init_privkey_256 (sdk_crypto E) (header_path acc ty idx) = (err, k))"

definition own_call :: "env \<Rightarrow> bytes \<times> bytes \<Rightarrow> bool" where
  "own_call E kh \<longleftrightarrow> own_derived_key E (fst kh) \<or>
     left_by_failure E (fst kh) \<and> (\<exists>bs. bs \<noteq> [] \<and> length bs \<le> 128 \<and> snd kh = message_digest bs)"

lemma derived_or_left:
  "own_derived_key E (snd (bip32_derive_init_privkey_256 (sdk_crypto E) (header_path acc ty idx))) \<or>
   left_by_failure E (snd (bip32_derive_init_privkey_256 (sdk_crypto E) (header_path acc ty idx)))"
  unfolding own_derived_key_def left_by_failure_def by (metis prod.collapse)

lemma signs_input_own_call: "signs_input E tx i kh \<Longrightarrow> own_call E kh"
  by (auto simp: signs_input_def own_call_def own_derived_key_def Let_def intro!: exI prod_eqI)

lemma message_own_call:
  assumes "bs \<noteq> []" and "length bs \<le> 128"
  shows "own_call E (snd (bip32_derive_init_privkey_256 (sdk_crypto E) (header_path acc ty idx)), message_digest bs)"
  using derived_or_left [of E acc ty idx] assms unfolding own_call_def fst_conv snd_conv by blast

lemma one_signature_calls:
  assumes "one_signature E s s'" and "\<forall>kh\<in>set (sign_log s). own_call E kh"
  shows "\<forall>kh\<in>set (sign_log s'). own_call E kh"
  using assms signs_input_own_call by (fastforce simp: one_signature_def)

lemma test_call_cases: "test_call n \<in> test_call ` {1, 2, 3, 4}"
  by (simp add: test_call_def debug_vector_def)

text \<open>The message under review, as the invariant describes it, is what an approval signs.\<close>

lemma message_signed:
  assumes "app_inv E s" and "pending s = Some (Review_Message, texts)" and "message_signature E s s'"
  obtains m where "msg_ready (G_context s) m" and "shows_message E m texts"
    and "sign_log s' = sign_log s @ [(snd (bip32_derive_init_privkey_256 (sdk_crypto E)
      (header_path (msg_account m) (ucast (msg_address_type m)) (msg_address_index m))),
      message_digest (take (message_len m) (message m)))]"
proof -
  obtain m where m: "msg_ready (G_context s) m" "shows_message E m texts"
    using assms(1,2) by (auto simp: app_inv_def pending_fits_def)
  have len: "length (message m) = 128" "length (message_hash m) = 32"
    using assms(1) m(1) by (auto simp: app_inv_def ctx_inv_def wf_ctx_def msg_ready_def)
  have "mem_read (bip32_path (G_context s)) 0 (unat (bip32_path_len (G_context s))) =
      Some (header_path (msg_account m) (ucast (msg_address_type m)) (msg_address_index m))"
    using m(1) by (simp add: msg_ready_def mem_read_def)
  then show thesis
    using that [OF m] assms(3) m(1) len
    by (auto simp: message_signature_def msg_ready_def hash_personal_message_eq)
qed

section \<open>Properties of all runs\<close>

context device
begin

lemma run_app_inv: "run (app_step E) app_main_start es s \<Longrightarrow> app_inv E s"
  by (rule app.run_inv)

lemma run_step_gate:
  "run (app_step E) app_main_start es s \<Longrightarrow> app_step E s e s' \<Longrightarrow>
   (sign_log s' = sign_log s \<or>
      (\<exists>texts. approves s e Review_Transaction texts) \<and> one_signature E s s' \<or>
      (\<exists>texts. approves s e Review_Message texts) \<and> message_signature E s s' \<or>
      asks_next E s e \<and> one_signature E s s') \<and>
    (state (G_context s') = STATE_APPROVED \<longrightarrow> state (G_context s) = STATE_APPROVED \<or>
      (\<exists>r texts. approves s e r texts \<and> r \<noteq> Review_Address))"
  by (rule step_gate, assumption, rule inv_path, rule run_app_inv)

lemma run_no_approval:
  assumes "run (app_step E) app_main_start es s"
  shows "Chosen True \<notin> set es \<longrightarrow> sign_log s = [] \<and> state (G_context s) \<noteq> STATE_APPROVED"
proof (rule app.run_history [OF assms])
  show "Chosen True \<notin> set [] \<longrightarrow> sign_log app_main_start = [] \<and>
      state (G_context app_main_start) \<noteq> STATE_APPROVED"
    by (simp add: app_main_start_def zero_ctx_def)
next
  fix es s e s'
  assume i: "app_inv E s" and h: "Chosen True \<notin> set es \<longrightarrow> sign_log s = [] \<and> state (G_context s) \<noteq> STATE_APPROVED"
    and st: "app_step E s e s'"
  show "Chosen True \<notin> set (es @ [e]) \<longrightarrow> sign_log s' = [] \<and> state (G_context s') \<noteq> STATE_APPROVED"
    using step_gate [OF st inv_path [OF i]] h by (auto simp: approves_def asks_next_def)
qed

lemma run_own_calls:
  assumes "run (app_step E) app_main_start es s"
  shows "\<forall>kh\<in>set (sign_log s). own_call E kh"
proof (rule app.run_history [OF assms])
  show "\<forall>kh\<in>set (sign_log app_main_start). own_call E kh" by (simp add: app_main_start_def)
next
  fix es :: "event list" and s e s'
  assume i: "app_inv E s" and h: "\<forall>kh\<in>set (sign_log s). own_call E kh" and st: "app_step E s e s'"
  have m: "\<forall>kh\<in>set (sign_log s'). own_call E kh"
    if a: "approves s e Review_Message texts" and sg: "message_signature E s s'" for texts
  proof -
    have p: "pending s = Some (Review_Message, texts)" using a by (simp add: approves_def)
    obtain m where m: "msg_ready (G_context s) m"
      "sign_log s' = sign_log s @ [(snd (bip32_derive_init_privkey_256 (sdk_crypto E)
        (header_path (msg_account m) (ucast (msg_address_type m)) (msg_address_index m))),
        message_digest (take (message_len m) (message m)))]"
      using message_signed [OF i p sg] by metis
    have "take (message_len m) (message m) \<noteq> []" "length (take (message_len m) (message m)) \<le> 128"
      using m(1) i by (auto simp: msg_ready_def app_inv_def ctx_inv_def wf_ctx_def)
    from message_own_call [OF this] show ?thesis using h m(2) by simp
  qed
  show "\<forall>kh\<in>set (sign_log s'). own_call E kh"
    using step_gate [OF st inv_path [OF i]] h m one_signature_calls [OF _ h] by (elim conjE disjE exE) auto
qed

lemma run_test_calls:
  assumes "run (app_step E) app_main_start es s"
  shows "\<forall>kh\<in>set (test_log s). HAVE_DEBUG_APDU E \<and> kh \<in> test_call ` {1, 2, 3, 4}"
proof (rule app.run_history [OF assms])
  show "\<forall>kh\<in>set (test_log app_main_start). HAVE_DEBUG_APDU E \<and> kh \<in> test_call ` {1, 2, 3, 4}"
    by (simp add: app_main_start_def)
next
  fix es :: "event list" and s e s'
  assume "app_inv E s" and "\<forall>kh\<in>set (test_log s). HAVE_DEBUG_APDU E \<and> kh \<in> test_call ` {1, 2, 3, 4}"
    and "app_step E s e s'"
  then show "\<forall>kh\<in>set (test_log s'). HAVE_DEBUG_APDU E \<and> kh \<in> test_call ` {1, 2, 3, 4}"
    using step_tests [OF _ inv_path, of E s e s'] test_call_cases by (fastforce simp: asks_test_def)
qed

lemma run_step_calls:
  "run (app_step E) app_main_start es s \<Longrightarrow> app_step E s e s' \<Longrightarrow>
   sign_log s' = sign_log s \<and> test_log s' = test_log s \<or>
   (\<exists>kh. sign_log s' = sign_log s @ [kh] \<and> test_log s' = test_log s \<and>
     ((\<exists>texts. approves s e Review_Transaction texts \<or> approves s e Review_Message texts) \<or> asks_next E s e)) \<or>
   (\<exists>n. sign_log s' = sign_log s \<and> test_log s' = test_log s @ [test_call n] \<and> asks_test E e n)"
  using run_step_gate [of es s e s'] step_tests [of E s e s'] inv_path [OF run_app_inv [of es s]]
  by (auto simp: one_signature_def message_signature_def)

end

section \<open>What is signed\<close>

definition signs_transaction :: "env \<Rightarrow> transaction_t \<Rightarrow> nat \<Rightarrow> bytes \<times> bytes \<Rightarrow> bool" where
  "signs_transaction E tx i kh \<longleftrightarrow> i < length (tx_inputs tx) \<and> fst kh = input_key E tx i \<and>
     (signable tx \<longrightarrow> snd kh = input_digest E tx i)"

context device
begin

lemma signs_input_transaction:
  assumes "signs_input E tx i kh" and "wf_transaction n tx"
  shows "signs_transaction E tx i kh"
proof -
  let ?key = "input_key E tx i"
  obtain err W where W: "cx_ecfp_generate_pair_no_throw (sdk_crypto E) ?key = (err, W)"
    by (cases "cx_ecfp_generate_pair_no_throw (sdk_crypto E) ?key")
  have f: "i < length (tx_inputs tx)" "fst kh = ?key"
    "calc_sighash (sdk_write E) tx (tx_inputs tx ! i) (drop 1 W) (zeros 32) 32 = Some (True, snd kh)"
    using assms(1) W by (simp_all add: signs_input_def input_key_def input_path_def Let_def)
  have "wf_input (tx_inputs tx ! i)" using assms(2) f(1) by (simp add: wf_transaction_def list_all_length)
  then have "snd kh = input_digest E tx i" if "signable tx"
    using calc_sighash_correct [OF that, of "tx_inputs tx ! i" "drop 1 W" 32 "zeros 32"] f(3) pair_len [OF W] W
    by (simp add: input_digest_def)
  with f show ?thesis by (simp add: signs_transaction_def)
qed

lemma one_signature_signs:
  assumes "one_signature E s s'" and "app_inv E s" and "sign_log s' \<noteq> sign_log s"
    and "member (G_context s) = Tx_info t"
  shows "\<exists>kh. sign_log s' = sign_log s @ [kh] \<and>
    signs_transaction E (transaction t) (unat (signing_input_index t)) kh"
  using assms signs_input_transaction [of "transaction t" _ _ "MAX_INPUT_COUNT E"]
  by (auto simp: one_signature_def app_inv_def ctx_inv_def wf_ctx_def wf_tx_ctx_def)

end

section \<open>Properties\<close>

lemma ex_msg_step: "\<exists>s'. app_step std_env ex_msg_state (Chosen True) s' \<and>
    sign_log s' = [(message_key std_env ex_msg, shown_digest ex_msg)]"
  using std_dev.message_approval_ok [OF std_crypto_works ex_msg_facts(3,1) _ ex_msg_facts(2)]
    std_dev.app.run_inv [OF ex_msg_run] ex_msg_facts(4) by (auto simp: app_exec_iff)

lemma ex_tx_run: "\<exists>s. run (app_step std_env) app_main_start (map Received (ex_commands @ [ex_last])) s \<and>
    pending s = Some (Review_Transaction, tx_texts std_env ex_tx) \<and> running s \<and>
    member (G_context s) = Tx_info (add_input (ex_input 4) ex_sent) \<and> sign_log s = []"
  using ex_reviewed app_run_iff by blast

lemma ex_index: "signing_input_index (add_input (ex_input 4) ex_sent) = 0"
  "tx_input_len ex_tx = 2" "signable (transaction (add_input (ex_input 4) ex_sent))"
  using ex_signable by (simp_all add: add_input_def Let_def ex_sent_def zero_tx_def ex_tx_def)

lemma ex_tx_step:
  assumes "run (app_step std_env) app_main_start es s" "running s"
    "pending s = Some (Review_Transaction, texts)"
    "member (G_context s) = Tx_info (add_input (ex_input 4) ex_sent)" "sign_log s = []"
  shows "\<exists>s'. app_step std_env s (Chosen True) s' \<and> signing std_env ex_tx 0 1 s' \<and>
    sign_log s' = [(input_key std_env ex_tx 0, input_digest std_env ex_tx 0)]"
  using std_dev.approval_ok [OF std_crypto_works assms(2,3) std_dev.app.run_inv [OF assms(1)] assms(4) ex_index(1)]
    ex_index(2,3) assms(5) by (auto simp: app_exec_iff ex_tx_def)

lemma ex_total: "output_total (transaction (add_input (ex_input 4) ex_sent)) < 2 ^ 64"
  by (simp add: add_input_def Let_def ex_sent_def zero_tx_def ex_tx_def output_total_def)

text \<open>C1. No signature without approval: in every run, a step makes at most one signing call. A
  call of \<open>crypto.c\<close> it makes only when the user approves the transaction or message on the
  screen, or when the command for the next signature arrives while a transaction is approved.
  The one exception to approval is the debug command, in builds that have it: it makes one call
  with the key and message of its test case, both constants of \<open>debug.c\<close>, and none with a
  key of the user.\<close>

theorem signatures_need_approval:
  assumes "device E" and "run (app_step E) app_main_start es s" and "app_step E s e s'"
  shows "sign_log s' = sign_log s \<and> test_log s' = test_log s \<or>
    (\<exists>kh. sign_log s' = sign_log s @ [kh] \<and> test_log s' = test_log s \<and>
       ((\<exists>texts. approves s e Review_Transaction texts \<or> approves s e Review_Message texts) \<or>
        asks_next E s e)) \<or>
    (\<exists>n. sign_log s' = sign_log s \<and> test_log s' = test_log s @ [test_call n] \<and> asks_test E e n)"
  by (rule device.run_step_calls [OF assms])

theorem signatures_need_approval_witness:
  "\<exists>s' kh. app_step std_env ex_msg_state (Chosen True) s' \<and> sign_log s' = [kh]"
proof -
  obtain s' where s': "app_step std_env ex_msg_state (Chosen True) s'" "sign_log s' \<noteq> []"
    using ex_msg_step by auto
  show ?thesis
    using signatures_need_approval [OF std_device ex_msg_run s'(1)] s' ex_msg_facts(4) by auto
qed

text \<open>C2. The approved state is entered only by the user: in the order of the enumerators, a step raises
  the state of the request above \<open>STATE_PARSED\<close>, to \<open>STATE_APPROVED\<close>, only if it is the approval
  of a transaction or message on the screen, whatever commands arrive.\<close>

theorem approval_only_by_user:
  assumes "device E" and "run (app_step E) app_main_start es s" and "app_step E s e s'"
  shows "state (G_context s') \<le> max (state (G_context s)) STATE_PARSED \<or>
    (\<exists>r texts. approves s e r texts \<and> r \<noteq> Review_Address)"
  using device.run_step_gate [OF assms] state_above_parsed by blast

theorem approval_only_by_user_witness:
  "\<exists>es s s'. run (app_step std_env) app_main_start es s \<and> app_step std_env s (Chosen True) s' \<and>
     state (G_context s') = STATE_APPROVED \<and> (\<exists>r texts. approves s (Chosen True) r texts)"
proof -
  obtain es s texts where s: "run (app_step std_env) app_main_start es s" "running s"
    "pending s = Some (Review_Transaction, texts)" "sign_log s = []"
    "member (G_context s) = Tx_info (add_input (ex_input 4) ex_sent)"
    using ex_tx_run by auto
  obtain s' where s': "app_step std_env s (Chosen True) s'" "state (G_context s') = STATE_APPROVED"
    using ex_tx_step [OF s(1,2,3,5,4)] by (auto simp: signing_def)
  have "state (G_context s) = STATE_PARSED"
    using std_dev.app.run_inv [OF s(1)] s(3) by (simp add: app_inv_def pending_fits_def)
  then have "\<not> state (G_context s') \<le> max (state (G_context s)) STATE_PARSED"
    using s'(2) by (simp add: less_eq_state_e_def)
  then have "\<exists>r texts. approves s (Chosen True) r texts"
    using approval_only_by_user [OF std_device s(1) s'(1)] by blast
  with s(1) s' show ?thesis by blast
qed

text \<open>A run without an approval makes no signature and never reaches the approved state, for
  any sequence of commands, failures and refusals.\<close>

theorem no_approval_no_signature:
  assumes "device E" and "run (app_step E) app_main_start es s" and "Chosen True \<notin> set es"
  shows "sign_log s = [] \<and> state (G_context s) \<noteq> STATE_APPROVED"
  using device.run_no_approval [OF assms(1,2)] assms(3) by simp

theorem no_approval_no_signature_witness:
  "sign_log ex_msg_state = [] \<and> state (G_context ex_msg_state) \<noteq> STATE_APPROVED"
  using no_approval_no_signature [OF std_device ex_msg_run] by simp

text \<open>C4. The transaction signed is the one shown: when the user approves a transaction review, the
  context holds a transaction whose first output's amount and address and whose fees are the
  texts on the screen, which has passed the checks: one or two outputs, the second paying to a
  key of the same account, and a total of the outputs, modulo 2^64 as the code adds, that is at
  most that of the inputs modulo 2^64. So, when the outputs add up to less than 2^64 sompi, the
  inputs cover them as integers. A signature made in that step is with the key of the input
  signed and, when the scripts end inside their buffers (\<open>signable\<close>), over the digest of this
  transaction.\<close>

theorem transaction_as_shown:
  assumes "device E" and "run (app_step E) app_main_start es s" and "app_step E s e s'"
    and "approves s e Review_Transaction texts"
  shows "\<exists>t. member (G_context s) = Tx_info t \<and> shows_transaction E (transaction t) texts \<and>
    is_address_of (out_script_public_key (tx_outputs (transaction t) ! 0))
      (script_text (out_script_public_key (tx_outputs (transaction t) ! 0))) \<and>
    tx_checked E (transaction t) \<and>
    (output_total (transaction t) < 2 ^ 64 \<longrightarrow> output_total (transaction t) \<le> input_total (transaction t)) \<and>
    (sign_log s' = sign_log s \<or>
      (\<exists>kh. sign_log s' = sign_log s @ [kh] \<and>
         signs_transaction E (transaction t) (unat (signing_input_index t)) kh))"
proof -
  have i: "app_inv E s" by (rule device.run_app_inv [OF assms(1,2)])
  obtain t where t: "member (G_context s) = Tx_info t" "shows_transaction E (transaction t) texts"
    "tx_checked E (transaction t)"
    using i assms(4) by (auto simp: app_inv_def pending_fits_def approves_def)
  have "wf_output (tx_outputs (transaction t) ! 0)"
    using i t(1) wf_transaction_nth(2) by (auto simp: app_inv_def ctx_inv_def wf_ctx_def wf_tx_ctx_def)
  then have a: "is_address_of (out_script_public_key (tx_outputs (transaction t) ! 0))
      (script_text (out_script_public_key (tx_outputs (transaction t) ! 0)))"
    by (intro script_text_address) (simp add: wf_output_def size_consts)
  have "sign_log s' = sign_log s \<or> one_signature E s s'"
    using device.run_step_gate [OF assms(1-3)] assms(4) by (auto simp: approves_def)
  with t a tx_checked_covers [OF t(3)] device.one_signature_signs [OF assms(1) _ i _ t(1), of s']
  show ?thesis by blast
qed

theorem transaction_as_shown_witness:
  "\<exists>s s' t. approves s (Chosen True) Review_Transaction (tx_texts std_env ex_tx) \<and>
     app_step std_env s (Chosen True) s' \<and> member (G_context s) = Tx_info t \<and>
     shows_transaction std_env (transaction t) (tx_texts std_env ex_tx) \<and> tx_checked std_env (transaction t) \<and>
     output_total (transaction t) < 2 ^ 64 \<and> output_total (transaction t) \<le> input_total (transaction t)"
proof -
  obtain es s where s: "run (app_step std_env) app_main_start es s" "running s"
    "pending s = Some (Review_Transaction, tx_texts std_env ex_tx)" "sign_log s = []"
    "member (G_context s) = Tx_info (add_input (ex_input 4) ex_sent)"
    using ex_tx_run by auto
  obtain s' where s': "app_step std_env s (Chosen True) s'"
    using ex_tx_step [OF s(1,2,3,5,4)] by auto
  have "approves s (Chosen True) Review_Transaction (tx_texts std_env ex_tx)"
    using s(3) by (simp add: approves_def)
  from transaction_as_shown [OF std_device s(1) s' this] s(3,5) s' this ex_total show ?thesis
    by (intro exI [of _ s] exI [of _ s'] exI [of _ "add_input (ex_input 4) ex_sent"]) auto
qed

text \<open>C5. The message signed is the one shown: when the user approves a message review, the text on
  the screen is the formatted message of the context, its account is hardened and its address
  type 0 or 1, and a signature made in that step is over the digest of that message, with the
  key at 44'/111111'/account/type/index of the request.\<close>

theorem message_as_shown:
  assumes "device E" and "run (app_step E) app_main_start es s" and "app_step E s e s'"
    and "approves s e Review_Message texts"
  shows "\<exists>m. member (G_context s) = Msg_info m \<and> shows_message E m texts \<and>
    0x80000000 \<le> msg_account m \<and> msg_address_type m \<in> {0, 1} \<and> 1 \<le> message_len m \<and> message_len m \<le> 128 \<and>
    (sign_log s' = sign_log s \<or> sign_log s' = sign_log s @ [(message_key E m, shown_digest m)])"
proof -
  have i: "app_inv E s" by (rule device.run_app_inv [OF assms(1,2)])
  have p: "pending s = Some (Review_Message, texts)" using assms(4) by (simp add: approves_def)
  obtain m where m: "msg_ready (G_context s) m" "shows_message E m texts"
    using i p by (auto simp: app_inv_def pending_fits_def)
  have "sign_log s' = sign_log s \<or> message_signature E s s'"
    using device.run_step_gate [OF assms(1-3)] assms(4) by (auto simp: approves_def asks_next_def)
  moreover have "sign_log s' = sign_log s @ [(message_key E m, shown_digest m)]" if "message_signature E s s'"
    using message_signed [OF i p that] m(1)
    by (auto simp: msg_ready_def message_key_def message_path_def shown_digest_def)
  ultimately show ?thesis using m by (auto simp: msg_ready_def)
qed

theorem message_as_shown_witness:
  "shows_message std_env ex_msg ex_msg_texts"
proof -
  obtain s' where s': "app_step std_env ex_msg_state (Chosen True) s'" using ex_msg_step by blast
  have "approves ex_msg_state (Chosen True) Review_Message ex_msg_texts"
    using ex_msg_facts(1) by (simp add: approves_def)
  from message_as_shown [OF std_device ex_msg_run s' this] ex_msg_facts(2) show ?thesis by auto
qed

text \<open>C7. Only keys of the application: every call of \<open>crypto.c\<close> that signs has used a key derived
  without error at a path of five words that starts with 44' and 111111', or it has signed a
  message after such a derivation had failed, with what that left in the key (the result of the
  derivation is not tested there). So where these derivations succeed, all keys are derived
  ones. The calls of the debug command have used the four test keys, and there are none in
  builds without it.\<close>

theorem only_own_keys:
  assumes "device E" and "run (app_step E) app_main_start es s"
  shows "(\<forall>kh\<in>set (sign_log s). own_derived_key E (fst kh) \<or>
      left_by_failure E (fst kh) \<and> (\<exists>bs. bs \<noteq> [] \<and> length bs \<le> 128 \<and> snd kh = message_digest bs)) \<and>
    ((\<forall>acc ty idx. fst (bip32_derive_init_privkey_256 (sdk_crypto E) (header_path acc ty idx)) = 0) \<longrightarrow>
      (\<forall>kh\<in>set (sign_log s). own_derived_key E (fst kh))) \<and>
    set (test_log s) \<subseteq> test_call ` {1, 2, 3, 4} \<and> (\<not> HAVE_DEBUG_APDU E \<longrightarrow> test_log s = [])"
proof -
  have c: "\<forall>kh\<in>set (sign_log s). own_call E kh" by (rule device.run_own_calls [OF assms])
  have t: "\<forall>kh\<in>set (test_log s). HAVE_DEBUG_APDU E \<and> kh \<in> test_call ` {1, 2, 3, 4}"
    by (rule device.run_test_calls [OF assms])
  have "\<not> left_by_failure E k"
    if "\<forall>acc ty idx. fst (bip32_derive_init_privkey_256 (sdk_crypto E) (header_path acc ty idx)) = 0" for k
    using that unfolding left_by_failure_def by (metis fst_conv)
  moreover have "test_log s = []" if "\<not> HAVE_DEBUG_APDU E" using t that by (cases "test_log s") auto
  ultimately show ?thesis using c t by (auto simp: own_call_def)
qed

theorem only_own_keys_witness:
  "own_derived_key std_env (message_key std_env ex_msg)"
proof -
  obtain s' where s': "app_step std_env ex_msg_state (Chosen True) s'"
    "sign_log s' = [(message_key std_env ex_msg, shown_digest ex_msg)]" using ex_msg_step by blast
  have "fst (bip32_derive_init_privkey_256 (sdk_crypto std_env) p) = 0" for p
    by (simp add: std_env_def std_crypto_def)
  with only_own_keys [OF std_device run_step [OF ex_msg_run s'(1)]] s'(2) show ?thesis by simp
qed

text \<open>C8. The well-formedness of the state: the arrays of the context have their sizes and its
  counters their bounds, the union holds the member of the current request or is zeroed, and a
  request on the screen is the one in the context, with its texts and its checks passed. It
  holds at the start, every step from any state that has it keeps it, and so every reachable
  state has it.\<close>

theorem reachable_invariant:
  assumes "device E"
  shows "app_inv E app_main_start \<and>
    (\<forall>s e s'. app_inv E s \<and> app_step E s e s' \<longrightarrow> app_inv E s') \<and>
    (\<forall>es s. run (app_step E) app_main_start es s \<longrightarrow> app_inv E s)"
  using device.start_inv [OF assms] device.step_keeps [OF assms] device.run_app_inv [OF assms] by blast

theorem reachable_invariant_witness:
  "app_inv std_env ex_msg_state \<and> pending ex_msg_state \<noteq> None"
  using reachable_invariant [OF std_device] ex_msg_run ex_msg_facts(1) by simp



text \<open>C10. The answer to an approved message: one signature over the message's digest, answered with
  its length, the signature and the digest.\<close>

theorem message_answered:
  assumes "device E" and "crypto_works E" and "run (app_step E) app_main_start es s" and "running s"
    and "pending s = Some (Review_Message, texts)" and "member (G_context s) = Msg_info m"
  shows "\<exists>s'. app_run E s [Chosen True] = Some s' \<and>
    sign_log s' = sign_log s @ [(message_key E m, shown_digest m)] \<and>
    responses s' = responses s @ [(message_response (snd (cx_ecschnorr_sign_no_throw (sdk_crypto E)
      (length (sign_log s)) (message_key E m) (shown_digest m))) (shown_digest m), 0x9000)]"
  using device.message_approval_ok [OF assms(1,2,4,5) device.run_app_inv [OF assms(1,3)] assms(6)] by auto

theorem message_answered_witness:
  "\<exists>s'. app_run std_env ex_msg_state [Chosen True] = Some s' \<and>
     sign_log s' = [(message_key std_env ex_msg, shown_digest ex_msg)]"
  using message_answered [OF std_device std_crypto_works ex_msg_run ex_msg_facts(3,1,2)] ex_msg_facts(4) by auto

end
