(* ===== verification/Commands.thy ===== *)
theory Commands
  imports App_Safety
begin

text \<open>
  What each command answers: the dispatcher against a table of its refusals, the verdicts of the
  handlers on their input bytes, and the user's refusals.
\<close>

section \<open>Dispatch\<close>

text \<open>The refusals of the dispatcher, in its order; \<open>None\<close> when a handler gets the command.\<close>

definition known_ins :: "env \<Rightarrow> u8 \<Rightarrow> bool" where
  "known_ins E i \<longleftrightarrow> i \<in> {3, 4, 5, 6, 7} \<or> HAVE_DEBUG_APDU E \<and> i = 0xde"

definition bad_params :: "command_t \<Rightarrow> bool" where
  "bad_params c \<longleftrightarrow>
     ins c \<in> {3, 4} \<and> (p1 c \<noteq> 0 \<or> p2 c \<noteq> 0) \<or>
     ins c = 5 \<and> (1 < p1 c \<or> p2 c \<noteq> 0) \<or>
     ins c = 6 \<and> (p1 c \<notin> {0, 1, 2, 3} \<or> p2 c \<notin> {0, 0x80} \<or> p1 c \<in> {0, 1} \<and> p2 c \<noteq> 0x80)"

definition needs_data :: "command_t \<Rightarrow> bool" where
  "needs_data c \<longleftrightarrow> ins c = 5 \<or> ins c = 6 \<and> p1 c \<noteq> 3"

definition refusal :: "env \<Rightarrow> command_t \<Rightarrow> int option" where
  "refusal E c =
     (if cla c \<noteq> 0xE0 then Some 0x6E00
      else if \<not> known_ins E (ins c) then Some 0x6D00
      else if bad_params c then Some 0x6A86
      else if needs_data c \<and> data c = None then Some 0x6A87
      else None)"

definition handle :: "env \<Rightarrow> command_t \<Rightarrow> app \<Rightarrow> (int \<times> app) option" where
  "handle E c s =
     (if ins c = 3 then handler_get_version E s
      else if ins c = 4 then handler_get_app_name E s
      else if ins c = 5 then handler_get_public_key E (cmd_buffer c) (p1 c = 1) s
      else if ins c = 6 then handler_sign_tx E (cmd_buffer c) (p1 c) (p2 c = 0x80) s
      else if ins c = 7 then handler_sign_msg E (cmd_buffer c) s
      else handler_debug E (unat (p1 c)) s)"

lemma u8_pos: "(0 :: u8) < x \<longleftrightarrow> x \<noteq> 0"
  by (simp add: word_neq_0_conv)

lemma p1_flag: "\<not> (1 :: u8) < x \<Longrightarrow> (x \<noteq> 0) = (x = 1)"
  by (auto simp: word_less_nat_alt word_unat_eq_iff)

lemma dispatch_eq:
  "apdu_dispatcher E c s = (case refusal E c of Some sw \<Rightarrow> Some (io_send_sw E sw s) | None \<Rightarrow> handle E c s)"
  by (auto simp: apdu_dispatcher_def refusal_def known_ins_def bad_params_def needs_data_def handle_def
      apdu_consts sw_consts u8_pos p1_flag)

section \<open>GET_PUBLIC_KEY\<close>

definition pubkey_refusal :: "env \<Rightarrow> u32 list \<Rightarrow> int option" where
  "pubkey_refusal E ws =
     (if length ws < 2 then Some 0xB00B
      else if ws ! 0 \<noteq> 0x8000002c then Some 0xB009
      else if ws ! 1 \<noteq> 0x8001b207 then Some 0xB00A
      else if fst (bip32_derive_get_pubkey_256 (sdk_crypto E) ws) \<noteq> 0
      then Some (fst (bip32_derive_get_pubkey_256 (sdk_crypto E) ws))
      else None)"

definition derived_key :: "env \<Rightarrow> u32 list \<Rightarrow> bytes" where
  "derived_key E ws = drop 1 (fst (snd (bip32_derive_get_pubkey_256 (sdk_crypto E) ws)))"

definition derived_chain :: "env \<Rightarrow> u32 list \<Rightarrow> bytes" where
  "derived_chain E ws = snd (snd (bip32_derive_get_pubkey_256 (sdk_crypto E) ws))"

text \<open>The state in which a derived key is shown or sent.\<close>

definition key_state :: "env \<Rightarrow> u32 list \<Rightarrow> app \<Rightarrow> app" where
  "key_state E ws s = set_ctx (zero_ctx\<lparr>req_type := CONFIRM_ADDRESS, state := STATE_NONE, bip32_path_len := word_of_nat (length ws),
     bip32_path := ws @ replicate (5 - length ws) 0,
     member := Pk_info \<lparr>raw_public_key = derived_key E ws, chain_code = derived_chain E ws\<rparr>\<rparr>) s"

lemma set_ctx_set_ctx: "set_ctx c (set_ctx c' s) = set_ctx c s"
  by (simp add: set_defs)

lemma set_member_ctx: "set_member u (set_ctx c s) = set_ctx (c\<lparr>member := u\<rparr>) s"
  by (simp add: set_defs)

lemma zero_ctx_simps:
  "bip32_path zero_ctx = replicate 5 0" "member zero_ctx = Zeroed" "state zero_ctx = STATE_NONE"
  "bip32_path_len zero_ctx = 0"
  by (simp_all add: zero_ctx_def size_consts)

context device
begin

lemma get_public_key_eq:
  assumes "valid_buffer b" and r: "rest b = n # bs" and n: "1 \<le> unat n" "unat n \<le> 5" "4 * unat n \<le> length bs"
    and ws: "ws = be_words (unat n) bs"
  shows "case pubkey_refusal E ws of
      Some sw \<Rightarrow> \<exists>c. handler_get_public_key E b d s = Some (io_send_sw E sw (set_ctx c s)) \<and>
        (\<forall>t. member c \<noteq> Tx_info t)
    | None \<Rightarrow> handler_get_public_key E b d s =
        (if d then ui_display_address E (key_state E ws s) else helper_send_response_pubkey E (key_state E ws s))"
proof -
  have l: "length ws = unat n" by (simp add: ws)
  have rd: "buffer_read_u8 (sdk_buffer E) b v = (True, n, advance 1 b)" for v
    using read_u8 [OF assms(1)] r by simp
  have rp: "buffer_read_bip32_path (sdk_buffer E) (advance 1 b) (unat n) = (True, ws, advance (4 * unat n) (advance 1 b))"
    using read_path [of "advance 1 b" "unat n"] assms(1) r n ws by simp
  have mw: "mem_write (replicate 5 0) 0 ws = Some (ws @ replicate (5 - unat n) 0)"
    using l n by (simp add: mem_write_def)
  have mr: "mem_read (ws @ replicate (5 - unat n) 0) 0 (unat n) = Some ws"
    using l n by (simp add: mem_read_def)
  have len: "n < 2 \<longleftrightarrow> length ws < 2" "\<not> 5 < n" using l n by (auto simp: word_less_nat_alt)
  have nth: "(ws @ replicate (5 - unat n) 0) ! 0 = ws ! 0" "2 \<le> length ws \<Longrightarrow> (ws @ replicate (5 - unat n) 0) ! 1 = ws ! 1"
    using l n by (simp_all add: nth_append)
  obtain err raw chain where k: "bip32_derive_get_pubkey_256 (sdk_crypto E) ws = (err, raw, chain)"
    by (cases "bip32_derive_get_pubkey_256 (sdk_crypto E) ws") auto
  then have kl: "length raw = 65" "length chain = 32" using pubkey_len by auto
  have z: "mem_read raw 1 64 = Some (drop 1 raw)" "mem_write (zeros 64) 0 (drop 1 raw) = Some (drop 1 raw)"
    using kl by (simp_all add: mem_read_def mem_write_def)
  note facts = reset_ctx_def set_ctx_set_ctx set_member_ctx set_simps zero_ctx_simps rd rp [unfolded One_nat_def]
    mw mr len k z [unfolded One_nat_def] pubkey_refusal_def sw_consts
  show ?thesis
  proof (cases "length ws < 2 \<or> ws ! 0 \<noteq> 0x8000002c \<or> ws ! 1 \<noteq> 0x8001b207")
    case True
    then show ?thesis using nth by (auto simp: handler_get_public_key_def Let_def facts)
  next
    case False
    then have "2 \<le> length ws" by simp
    with False show ?thesis using nth
      by (auto simp: handler_get_public_key_def Let_def facts key_state_def derived_key_def derived_chain_def zero_pk_def l)
  qed
qed

lemma get_public_key_short:
  assumes "valid_buffer b" and r: "rest b = [] \<or> rest b = n # bs \<and> unat n \<le> 5 \<and> (n = 0 \<or> length bs < 4 * unat n)"
  shows "\<exists>c. handler_get_public_key E b d s = Some (io_send_sw E SW_WRONG_DATA_LENGTH (set_ctx c s)) \<and>
    (\<forall>t. member c \<noteq> Tx_info t)"
proof (cases "rest b = []")
  case True
  then obtain v b' where "buffer_read_u8 (sdk_buffer E) b 0 = (False, v, b')"
    using read_u8_short [OF assms(1)] by auto
  then show ?thesis
    by (auto simp: handler_get_public_key_def Let_def reset_ctx_def set_ctx_set_ctx set_simps zero_ctx_simps)
next
  case False
  with r have n: "rest b = n # bs" "unat n \<le> 5" "n = 0 \<or> length bs < 4 * unat n" by auto
  have rd: "buffer_read_u8 (sdk_buffer E) b v = (True, n, advance 1 b)" for v
    using read_u8 [OF assms(1)] n(1) by simp
  have f: "\<not> fst (buffer_read_bip32_path (sdk_buffer E) (advance 1 b) (unat n))"
    using n(3) read_path_count [of "unat n" "advance 1 b"] read_path_short [of "advance 1 b" "unat n"] assms(1) n(1)
    by (auto simp: unat_eq_zero)
  then obtain ws b' where p: "buffer_read_bip32_path (sdk_buffer E) (advance 1 b) (unat n) = (False, ws, b')"
    by (metis prod.collapse)
  then have "length ws \<le> 5" using read_path_stored [of "advance 1 b" "unat n"] n(2) by simp
  then have "mem_write (replicate 5 0) 0 ws = Some (ws @ replicate (5 - length ws) 0)"
    by (simp add: mem_write_def)
  then show ?thesis using rd p [unfolded One_nat_def]
    by (auto simp: handler_get_public_key_def Let_def reset_ctx_def set_ctx_set_ctx set_simps zero_ctx_simps)
qed

text \<open>A path of 6 to 10 words is stored in the array of 5: undefined behaviour.\<close>

lemma get_public_key_long:
  assumes "valid_buffer b" and r: "rest b = n # bs" and n: "5 < unat n" "unat n \<le> 10" "4 * unat n \<le> length bs"
  shows "handler_get_public_key E b d s = None"
proof -
  have rd: "buffer_read_u8 (sdk_buffer E) b v = (True, n, advance 1 b)" for v
    using read_u8 [OF assms(1)] r by simp
  have rp: "buffer_read_bip32_path (sdk_buffer E) (advance 1 b) (unat n) =
      (True, be_words (unat n) bs, advance (4 * unat n) (advance 1 b))"
    using read_path [of "advance 1 b" "unat n"] assms(1) r n by simp
  have "mem_write (replicate 5 0) 0 (be_words (unat n) bs) = None" using n by (simp add: mem_write_def)
  then show ?thesis using rd rp [unfolded One_nat_def]
    by (simp add: handler_get_public_key_def Let_def reset_ctx_def set_ctx_set_ctx set_simps zero_ctx_simps)
qed

lemma response_pubkey_eq:
  assumes "pk_info (member (G_context s)) = Some p" and "length (raw_public_key p) = 64" and "length (chain_code p) = 32"
  shows "helper_send_response_pubkey E s = Some (io_send_response_pointer E
    ([65, 4] @ raw_public_key p @ [32] @ chain_code p) SW_OK s)"
proof -
  have z: "zeros (1 + 1 + 64 + 1 + 32) = 0 # 0 # zeros 97" by (simp add: zeros_def numeral_eq_Suc)
  show ?thesis using assms unfolding helper_send_response_pubkey_def z Let_def
    by (simp add: mem_simps arr_put_mem_write mem_write_def mem_read_def)
qed

lemma key_state_facts:
  "length (derived_key E ws) = 64" "length (derived_chain E ws) = 32"
  "member (G_context (key_state E ws s)) = Pk_info \<lparr>raw_public_key = derived_key E ws, chain_code = derived_chain E ws\<rparr>"
  "req_type (G_context (key_state E ws s)) = CONFIRM_ADDRESS" "state (G_context (key_state E ws s)) = STATE_NONE"
  using pubkey_len [of ws "fst (bip32_derive_get_pubkey_256 (sdk_crypto E) ws)"
      "fst (snd (bip32_derive_get_pubkey_256 (sdk_crypto E) ws))" "snd (snd (bip32_derive_get_pubkey_256 (sdk_crypto E) ws))"]
  by (simp_all add: derived_key_def derived_chain_def key_state_def set_simps)

text \<open>The address on the screen is that of the script that pays to the key.\<close>

lemma key_address:
  assumes "length pk = 64" and "n \<in> {67, 69}"
  shows "\<exists>a out. is_address_of (0x20 # take 32 pk @ [OP_CHECKSIG]) a \<and>
    address_from_pubkey pk SCHNORR (zeros n) n = Some (True, out) \<and>
    cstr (snprintf_buf 75 (prec_str n out)) = a"
proof -
  obtain enc where e: "encodes 0 (take 32 pk) enc" "length enc = 61"
    "address_from_pubkey pk SCHNORR (zeros n) n = Some (True, c_bytes ''kaspa:'' @ enc @ drop 67 (zeros n))"
    using address_from_pubkey_eq [OF assms(1), of n "zeros n" SCHNORR] assms(2) by auto
  let ?a = "c_bytes ''kaspa:'' @ enc"
  have a: "is_address_of (0x20 # take 32 pk @ [OP_CHECKSIG]) ?a"
    using e(1,2) assms(1) by (auto simp: is_address_of_def script_type_def script_key_def)
  have l: "length ?a = 67" using e(2) by simp
  have "cstr (snprintf_buf 75 (prec_str n (c_bytes ''kaspa:'' @ enc @ drop 67 (zeros n)))) = ?a"
    using prec_str_padded [of ?a n] cstr_snprintf [of ?a 75] address_nonzero [OF a] l assms(2) by auto
  with a e(3) show ?thesis by blast
qed

lemma display_key_ok:
  assumes "length ws \<le> 5" and "fst (bip32_path_format (sdk_text E) ws 60)"
  shows "\<exists>a texts. is_address_of (0x20 # take 32 (derived_key E ws) @ [OP_CHECKSIG]) a \<and> (''Address'', a) \<in> set texts \<and>
    ui_display_address E (key_state E ws s) = Some (0, (key_state E ws s)\<lparr>pending := Some (Review_Address, texts)\<rparr>)"
proof -
  let ?n = "if HAVE_NBGL E then 67 else 69" and ?s = "key_state E ws s"
  have nn: "?n \<in> {67, 69}" by simp
  obtain a out where a: "is_address_of (0x20 # take 32 (derived_key E ws) @ [OP_CHECKSIG]) a"
    "address_from_pubkey (derived_key E ws) SCHNORR (zeros ?n) ?n = Some (True, out)"
    "cstr (snprintf_buf 75 (prec_str ?n out)) = a"
    using key_address [OF key_state_facts(1) nn] by blast
  obtain ptxt where p: "bip32_path_format (sdk_text E) ws 60 = (True, ptxt)"
    using assms(2) by (metis prod.collapse)
  have mr: "mem_read (bip32_path (G_context ?s)) 0 (unat (bip32_path_len (G_context ?s))) = Some ws"
    using assms(1) by (simp add: key_state_def set_simps mem_read_def unat_of_nat)
  define texts where "texts = (if HAVE_NBGL E then [(''Address'', a), (''BIP32 Path'', cstr ptxt)]
    else [(''Path'', cstr ptxt), (''Address'', a)])"
  have "ui_display_address E ?s = Some (0, ?s\<lparr>pending := Some (Review_Address, texts)\<rparr>)"
    using a p mr key_state_facts(3-5) [of ws s]
    by (cases "HAVE_NBGL E") (simp_all add: ui_display_address_def bagl_ui_display_address_def
        nbgl_ui_display_address_def Let_def size_consts show_review_def texts_def)
  moreover have "(''Address'', a) \<in> set texts" by (simp add: texts_def)
  ultimately show ?thesis using a(1) by blast
qed

end

section \<open>SIGN_MESSAGE\<close>

definition msg_refusal :: "nat \<Rightarrow> bytes \<Rightarrow> int option" where
  "msg_refusal max_len d =
     (if length d < 9 \<or> d ! 0 \<notin> {0, 1} \<or> (be_word (take 4 (drop 5 d)) :: u32) < 0x80000000 then Some 0xB013
      else if length d < 10 then Some 0xB015
      else if d ! 9 = 0 then Some 0xB012
      else if max_len < unat (d ! 9) then Some 0xB011
      else if length d < 10 + unat (d ! 9) then Some 0xB010
      else None)"

definition read_message :: "bytes \<Rightarrow> message_sign_ctx_t" where
  "read_message d = zero_msg\<lparr>msg_address_type := d ! 0, msg_address_index := be_word (take 4 (drop 1 d)),
     msg_account := be_word (take 4 (drop 5 d)), message_len := unat (d ! 9),
     message := take (unat (d ! 9)) (drop 10 d) @ zeros (128 - unat (d ! 9))\<rparr>"

definition message_state :: "bytes \<Rightarrow> app \<Rightarrow> app" where
  "message_state d s = (let m = read_message d
     in set_ctx (zero_ctx\<lparr>req_type := CONFIRM_MESSAGE, state := STATE_NONE, member := Msg_info m,
          bip32_path := message_path m, bip32_path_len := 5\<rparr>) s)"

context device
begin

lemma sign_msg_eq:
  assumes v: "valid_buffer b"
  shows "case msg_refusal (MAX_MESSAGE_LEN E) (rest b) of
      Some sw \<Rightarrow> \<exists>c. handler_sign_msg E b s = Some (io_send_sw E sw (set_ctx c s)) \<and>
        (\<forall>t. member c \<noteq> Tx_info t)
    | None \<Rightarrow> handler_sign_msg E b s =
        (if unat (rest b ! 9) \<le> 128 then ui_display_message E (message_state (rest b) s) else None)"
proof -
  let ?d = "rest b" and ?n = "unat (rest b ! 9)"
  note ctx = set_ctx_set_ctx set_member_ctx set_simps zero_ctx_simps reset_ctx_def sw_consts
  have u8: "1 \<le> length ?d \<Longrightarrow> buffer_read_u8 (sdk_buffer E) b w = (True, ?d ! 0, advance 1 b)" for w
    using read_u8 [OF v] by simp
  have idx: "5 \<le> length ?d \<Longrightarrow> buffer_read_u32 (sdk_buffer E) (advance 1 b) w BE =
      (True, be_word (take 4 (drop 1 ?d)), advance 5 b)" for w
    using read_u32 [of "advance 1 b"] v by simp
  have acc: "9 \<le> length ?d \<Longrightarrow> buffer_read_u32 (sdk_buffer E) (advance 5 b) w BE =
      (True, be_word (take 4 (drop 5 ?d)), advance 9 b)" for w
    using read_u32 [of "advance 5 b"] v by simp
  have len: "10 \<le> length ?d \<Longrightarrow> buffer_read_u8 (sdk_buffer E) (advance 9 b) w = (True, ?d ! 9, advance 10 b)" for w
    using read_u8 [of "advance 9 b"] v by simp
  have can: "10 \<le> length ?d \<Longrightarrow> buffer_can_read (sdk_buffer E) (advance 10 b) k \<longleftrightarrow> 10 + k \<le> length ?d" for k
    using can_read [of "advance 10 b" k] v by auto
  have body: "10 + ?n \<le> length ?d \<Longrightarrow> mem_read (ptr b) (offset b + 10) ?n = Some (take ?n (drop 10 ?d))"
    using mem_read_ptr [of "advance 10 b" ?n] v by simp
  have seek: "10 + ?n \<le> length ?d \<Longrightarrow> buffer_seek_cur (sdk_buffer E) (advance 10 b) ?n = (True, advance (10 + ?n) b)"
    using seek_cur [of "advance 10 b" ?n] v by simp
  have idx_f: "1 \<le> length ?d \<Longrightarrow> length ?d < 5 \<Longrightarrow>
      \<exists>w b'. buffer_read_u32 (sdk_buffer E) (advance 1 b) 0 BE = (False, w, b')"
    by (rule read_u32_short [of "advance 1 b" 0]) (use v in auto)
  have acc_f: "5 \<le> length ?d \<Longrightarrow> length ?d < 9 \<Longrightarrow>
      \<exists>w b'. buffer_read_u32 (sdk_buffer E) (advance 5 b) 0 BE = (False, w, b')"
    by (rule read_u32_short [of "advance 5 b" 0]) (use v in auto)
  have len_f: "9 \<le> length ?d \<Longrightarrow> length ?d < 10 \<Longrightarrow>
      \<exists>w b'. buffer_read_u8 (sdk_buffer E) (advance 9 b) 0 = (False, w, b')"
    by (rule read_u8_short [of "advance 9 b" 0]) (use v in auto)
  note reads = u8 idx acc len can body seek
  note reads' = reads reads [unfolded One_nat_def]
  show ?thesis
  proof (cases "msg_refusal (MAX_MESSAGE_LEN E) ?d")
    case None
    then have n: "10 + ?n \<le> length ?d" "10 \<le> length ?d" "9 \<le> length ?d" "5 \<le> length ?d" "1 \<le> length ?d"
      "?n \<le> MAX_MESSAGE_LEN E" "?d ! 9 \<noteq> 0" "?d ! 0 = 0 \<or> ?d ! 0 = 1"
      "\<not> (be_word (take 4 (drop 5 ?d)) :: u32) < 0x80000000"
      by (auto simp: msg_refusal_def split: if_splits)
    have zl: "message zero_msg = zeros 128" by (simp add: zero_msg_def)
    have mw: "mem_write (zeros 128) 0 (take ?n (drop 10 ?d)) =
        (if ?n \<le> 128 then Some (take ?n (drop 10 ?d) @ zeros (128 - ?n)) else None)"
      using n by (simp add: mem_write_def)
    show ?thesis using n None
      by (auto simp: handler_sign_msg_def Let_def reads' ctx zl mw put_path_eq message_state_def read_message_def message_path_def)
  next
    case (Some sw)
    have z0: "msg_address_index zero_msg = 0" "msg_account zero_msg = 0" by (simp_all add: zero_msg_def)
    note defs = handler_sign_msg_def Let_def ctx msg_refusal_def
    consider "length ?d < 1" | "1 \<le> length ?d" "?d ! 0 \<notin> {0, 1}"
      | "1 \<le> length ?d" "?d ! 0 \<in> {0, 1}" "length ?d < 5"
      | "5 \<le> length ?d" "?d ! 0 \<in> {0, 1}" "length ?d < 9"
      | "9 \<le> length ?d" "?d ! 0 \<in> {0, 1}" "(be_word (take 4 (drop 5 ?d)) :: u32) < 0x80000000"
      | "9 \<le> length ?d" "?d ! 0 \<in> {0, 1}" "\<not> (be_word (take 4 (drop 5 ?d)) :: u32) < 0x80000000" "length ?d < 10"
      | "10 \<le> length ?d" "?d ! 0 \<in> {0, 1}" "\<not> (be_word (take 4 (drop 5 ?d)) :: u32) < 0x80000000"
      by (metis One_nat_def linorder_not_less)
    then show ?thesis
    proof cases
      case 1
      then obtain w b' where "buffer_read_u8 (sdk_buffer E) b (msg_address_type zero_msg) = (False, w, b')"
        using read_u8_short [OF v] by blast
      with 1 Some show ?thesis by (auto simp: defs)
    next
      case 2
      with Some show ?thesis by (auto simp: defs reads')
    next
      case 3
      then obtain w b' where "buffer_read_u32 (sdk_buffer E) (advance 1 b) 0 BE = (False, w, b')"
        using idx_f by blast
      with 3 Some show ?thesis by (auto simp: defs reads' z0)
    next
      case 4
      then obtain w b' where "buffer_read_u32 (sdk_buffer E) (advance 5 b) 0 BE = (False, w, b')"
        using acc_f by blast
      with 4 Some show ?thesis by (auto simp: defs reads' z0)
    next
      case 5
      with Some show ?thesis by (auto simp: defs reads')
    next
      case 6
      then obtain w b' where "buffer_read_u8 (sdk_buffer E) (advance 9 b) 0 = (False, w, b')"
        using len_f by blast
      with 6 Some show ?thesis by (auto simp: defs reads')
    next
      case 7
      with Some show ?thesis by (auto simp: defs reads' split: if_splits)
    qed
  qed
qed

end

end
