(* ===== verification/Format.thy ===== *)
theory Format
  imports Display
begin

text \<open>
  What \<open>format_message_to_sign\<close> leaves in the text buffer: the whole rendering of a message
  when it fits, one character for a printable byte or a space, four for an escape. Longer
  renderings are cut, and a rendering does not determine the message.
\<close>

definition render :: "u8 \<Rightarrow> bytes" where
  "render c = (let c = (if isspace c then 0x20 else c) in if isprint c then [c] else escape c)"

definition rendering :: "bytes \<Rightarrow> bytes" where
  "rendering msg = concat (map render msg)"

lemma hex_digit_nonzero: "d < 16 \<Longrightarrow> hex_digit d \<noteq> 0"
proof -
  have "\<forall>d\<in>set (map word_of_nat [0..<16]). hex_digit d \<noteq> 0" by code_simp
  moreover assume "d < 16"
  then have "d \<in> set (map word_of_nat [0..<16])"
    by (auto simp: word_less_nat_alt intro: image_eqI [of _ _ "unat d"])
  ultimately show ?thesis by blast
qed

lemma nibbles: "drop_bit 4 (c :: u8) < 16" "c AND 0x0f < 16"
proof -
  have "unat (drop_bit 4 c) < 16"
    using unat_u8_less [of c] by (simp add: drop_bit_eq_div unat_div)
  then show "drop_bit 4 c < 16" by (simp add: word_less_nat_alt)
  have "c AND 0x0f = take_bit 4 c" by (simp add: take_bit_eq_mask mask_eq_exp_minus_1)
  then show "c AND 0x0f < 16"
    by (simp add: word_less_nat_alt take_bit_eq_mod unat_mod)
qed

lemma render_nonzero: "0 \<notin> set (render c)"
  using hex_digit_nonzero [OF nibbles(1)] hex_digit_nonzero [OF nibbles(2)]
  by (auto simp: render_def Let_def escape_def isprint_def word_le_nat_alt)

lemma format_loop_exact:
  assumes "length p = i" and "i + length (rendering src) + 2 \<le> n" and "i + m = n"
  shows "format_loop n src (p @ zeros m) i = Some (p @ rendering src @ zeros (n - i - length (rendering src)))"
  using assms
proof (induction src arbitrary: p i m)
  case Nil
  then have "m = n - i" by simp
  then show ?case by (simp add: rendering_def)
next
  case (Cons c cs)
  let ?c = "if isspace c then 0x20 else c"
  have R: "rendering (c # cs) = render c @ rendering cs" by (simp add: rendering_def)
  have i: "i < n" using Cons.prems(2) by simp
  have m: "m = n - i" using Cons.prems(3) by simp
  have step: "format_loop n cs (p @ d @ zeros (n - i - length d)) (i + length d) =
      Some (p @ d @ rendering cs @ zeros (n - i - length (rendering (c # cs))))"
    if "d = render c" for d
    using Cons.IH [of "p @ d" "i + length d" "n - i - length d"] Cons.prems that
    by (simp add: R add.assoc)
  show ?case
  proof (cases "isprint ?c")
    case True
    then have rc: "render c = [?c]" by (simp add: render_def)
    have z: "zeros (n - i - 1) = 0 # zeros (n - i - 2)"
      using Cons.prems rc by (simp add: R zeros_def Suc_diff_Suc numeral_2_eq_2 flip: replicate_Suc)
    have "mem_write (p @ zeros m) i [?c, 0] = Some (p @ [?c] @ zeros (n - i - 1))"
      unfolding z using Cons.prems rc by (simp add: mem_write_def R m)
    with True i step [OF rc [symmetric]] show ?thesis by (simp add: R rc Let_def)
  next
    case False
    then have rc: "render c = escape c" by (auto simp: render_def isprint_def)
    have rem: "5 \<le> n - i - 1" using Cons.prems R rc by (simp add: escape_def)
    have e: "length (escape c) = 4" by (simp add: escape_def)
    have c: "?c = c" using False by (auto simp: isprint_def)
    have z: "zeros (n - i - 4) = 0 # zeros (n - i - 5)"
      using rem by (cases "n - i - 4") (simp_all add: zeros_def)
    have "mem_write (p @ zeros m) i (escape c @ [0]) = Some (p @ escape c @ zeros (n - i - 4))"
      unfolding z using Cons.prems(1) rem e by (simp add: mem_write_def m)
    with False i rem e c step [OF rc [symmetric]] show ?thesis by (simp add: R rc Let_def)
  qed
qed

lemma rendering_nonzero: "0 \<notin> set (rendering msg)"
  using render_nonzero by (auto simp: rendering_def)

lemma format_exact:
  assumes "k \<le> length msg" and "length (rendering (take k msg)) + 2 \<le> n"
  shows "\<exists>g. format_message_to_sign (zeros n) n msg k = Some g \<and> length g = n \<and> cstr g = rendering (take k msg)"
proof -
  let ?R = "rendering (take k msg)"
  have "format_loop n (take k msg) (zeros n) 0 = Some (?R @ zeros (n - length ?R))"
    using format_loop_exact [of "[]" 0 "take k msg" n n] assms(2) by simp
  moreover have "cstr (?R @ zeros (n - length ?R)) = ?R"
    using assms(2) rendering_nonzero [of "take k msg"]
    by (cases "n - length ?R") (auto simp: cstr_def zeros_def takeWhile_append takeWhile_eq_all_conv)
  ultimately show ?thesis
    using assms by (simp add: format_message_to_sign_def mem_read_def)
qed

section \<open>The cut\<close>

definition printable :: "u8 \<Rightarrow> bool" where
  "printable c \<longleftrightarrow> isspace c \<or> isprint c"

lemma printable_iff: "isprint (if isspace c then 0x20 else c) \<longleftrightarrow> printable c"
  by (auto simp: printable_def isprint_def)

lemma rendering_simps [simp]: "rendering [] = []" "rendering (c # cs) = render c @ rendering cs"
  by (simp_all add: rendering_def)

lemma render_cases:
  "printable c \<Longrightarrow> render c = [if isspace c then 0x20 else c]" "\<not> printable c \<Longrightarrow> render c = escape c"
  by (auto simp: render_def Let_def printable_def isprint_def)

text \<open>One round of the loop, on the rendering of the byte.\<close>

lemma format_step:
  assumes "i < n"
  shows "format_loop n (c # cs) g i =
    (if printable c then mem_write g i (render c @ [0]) \<bind> (\<lambda>g. format_loop n cs g (i + 1))
     else if 4 \<le> n - i - 1
     then mem_write g i (take (n - i - 2) (render c) @ [0]) \<bind> (\<lambda>g. format_loop n cs g (i + 4))
     else mem_write g i (replicate (n - i - 1) 0x20) \<bind> (\<lambda>g. format_loop n cs g (n - 1)))"
proof -
  have "\<not> printable c \<Longrightarrow> \<not> isspace c \<and> \<not> isprint c" by (simp add: printable_def)
  then show ?thesis using assms
    by (cases "printable c") (auto simp: render_cases printable_iff Let_def numeral_2_eq_2)
qed

declare format_loop.simps(2) [simp del]

text \<open>With the write position on the last byte only escapes are harmless.\<close>

lemma format_loop_full:
  assumes "length p = n"
  shows "format_loop (Suc n) src (p @ [0]) n = (if \<exists>c\<in>set src. printable c then None else Some (p @ [0]))"
  using assms by (induction src) (simp_all add: format_step mem_write_def render_cases)

definition late_printable :: "nat \<Rightarrow> nat \<Rightarrow> bytes \<Rightarrow> bool" where
  "late_printable n i src \<longleftrightarrow> (\<exists>j<length src. n \<le> i + length (rendering (take j src)) \<and> printable (src ! j))"

lemma late_printable_Cons:
  "late_printable n i (c # cs) \<longleftrightarrow> n \<le> i \<and> printable c \<or> late_printable n (i + length (render c)) cs"
  unfolding late_printable_def
  by (simp add: Ex_less_Suc2 add.assoc)

lemma late_printable_full: "n \<le> i \<Longrightarrow> late_printable n i src \<longleftrightarrow> (\<exists>c\<in>set src. printable c)"
  by (induction src arbitrary: i) (simp_all add: late_printable_Cons, simp add: late_printable_def)

lemma format_loop_shows:
  assumes "length p + m = n" and "0 < m"
  shows "(format_loop n src (p @ zeros m) (length p) = None \<longleftrightarrow> late_printable (n - 1) (length p) src) \<and>
    (\<forall>g. format_loop n src (p @ zeros m) (length p) = Some g \<longrightarrow>
       length g = n \<and> take (n - 5) g = take (n - 5) (p @ rendering src @ zeros m))"
  using assms
proof (induction src arbitrary: p m)
  case Nil
  then show ?case by (simp add: late_printable_def)
next
  case (Cons c cs)
  have i: "length p < n" and m: "n = length p + m" using Cons.prems by simp_all
  note step = format_step [OF i, of c cs "p @ zeros m"]
  have zs: "zeros (m - j) = 0 # zeros (m - Suc j)" if "j < m" for j
    using that by (simp add: zeros_def Suc_diff_Suc flip: replicate_Suc)
  have z1: "zeros (Suc 0) = [0]" by (simp add: zeros_def)
  have R: "0 < length (render c)" by (cases "printable c") (simp_all add: render_cases escape_def)
  have cut: ?case if q: "length q = n - 1" "take (n - 5) q = take (n - 5) p"
      "\<not> printable c" "n - 1 \<le> length p + length (render c)" "n - 5 \<le> length p"
      "format_loop n (c # cs) (p @ zeros m) (length p) = format_loop n cs (q @ [0]) (n - 1)" for q
  proof -
    have n: "Suc (n - 1) = n" using i by simp
    have "format_loop n cs (q @ [0]) (n - 1) = (if \<exists>c\<in>set cs. printable c then None else Some (q @ [0]))"
      using format_loop_full [OF q(1), of cs] unfolding n .
    moreover have "late_printable (n - 1) (length p) (c # cs) \<longleftrightarrow> (\<exists>c\<in>set cs. printable c)"
      using q(3,4) by (simp only: late_printable_Cons late_printable_full simp_thms)
    ultimately show ?thesis unfolding q(6) using q(1,2,5) i by simp
  qed
  have go: ?case if d: "length p + length (render c) < n"
      "format_loop n (c # cs) (p @ zeros m) (length p) =
        format_loop n cs ((p @ render c) @ zeros (m - length (render c))) (length (p @ render c))"
  proof -
    have "\<not> n - 1 \<le> length p" using d(1) R by linarith
    then have late: "late_printable (n - 1) (length p) (c # cs) \<longleftrightarrow> late_printable (n - 1) (length p + length (render c)) cs"
      by (simp add: late_printable_Cons)
    have t: "take (n - 5) (p @ rendering (c # cs) @ zeros m) =
        take (n - 5) ((p @ render c) @ rendering cs @ zeros (m - length (render c)))"
      using m by (simp add: take_append zeros_def)
    have "length (p @ render c) + (m - length (render c)) = n" "0 < m - length (render c)"
      using d(1) m by simp_all
    from Cons.IH [OF this] show ?thesis unfolding d(2) late t length_append .
  qed
  show ?case
  proof (cases "printable c")
    case True
    then have r: "length (render c) = 1" by (simp add: render_cases)
    show ?thesis
    proof (cases "m = 1")
      case full: True
      then have "n - 1 \<le> length p" using m i by simp
      then show ?thesis using True full step r m i
        by (simp add: mem_write_None late_printable_Cons)
    next
      case False
      show ?thesis
      proof (rule go)
        show "length p + length (render c) < n" using False r m i by linarith
        show "format_loop n (c # cs) (p @ zeros m) (length p) =
          format_loop n cs ((p @ render c) @ zeros (m - length (render c))) (length (p @ render c))"
          using True False step r m i zs [of 1] by (simp add: mem_write_def numeral_2_eq_2)
      qed
    qed
  next
    case False
    then have r: "render c = escape c" "length (escape c) = 4" by (simp_all add: render_cases escape_def)
    consider (fits) "6 \<le> m" | (five) "m = 5" | (less) "m < 5" by linarith
    then show ?thesis
    proof cases
      case fits
      then have b: "4 \<le> m - Suc 0" by simp
      show ?thesis
      proof (rule go)
        show "length p + length (render c) < n" using fits r m i by simp
        show "format_loop n (c # cs) (p @ zeros m) (length p) =
          format_loop n cs ((p @ render c) @ zeros (m - length (render c))) (length (p @ render c))"
          using False fits step r m i zs [of 4] b by (simp add: mem_write_def)
      qed
    next
      case five
      let ?q = "p @ take 3 (escape c) @ [0]"
      have "format_loop n (c # cs) (p @ zeros m) (length p) = format_loop n cs (?q @ [0]) (n - 1)"
        using False five step r m i by (simp add: mem_write_def z1 add.commute)
      then show ?thesis by (rule cut [rotated 5]) (use False five r m i in simp_all)
    next
      case less
      then have b: "\<not> 4 \<le> m - Suc 0" by simp
      let ?q = "p @ replicate (m - 1) 0x20"
      have "format_loop n (c # cs) (p @ zeros m) (length p) = format_loop n cs (?q @ [0]) (n - 1)"
        using False less step r m i b by (simp add: mem_write_def z1)
      then show ?thesis by (rule cut [rotated 5]) (use False less r m i in simp_all)
    qed
  qed
qed

text \<open>C33. What the screen shows of a message: with a buffer of \<open>n\<close> bytes the formatter writes
  outside of it exactly when a printable byte comes after \<open>n - 1\<close> characters of rendering;
  otherwise the text agrees with the rendering of the message on its first \<open>n - 5\<close> characters,
  and is the whole rendering when that has at most \<open>n - 2\<close> characters.\<close>

theorem format_message_shows:
  assumes "k \<le> length msg" and "0 < n"
  shows "(format_message_to_sign (zeros n) n msg k = None \<longleftrightarrow>
      (\<exists>j<k. n - 1 \<le> length (rendering (take j msg)) \<and> printable (msg ! j))) \<and>
    (\<forall>g. format_message_to_sign (zeros n) n msg k = Some g \<longrightarrow> length g = n \<and>
      take (n - 5) (cstr g) = take (n - 5) (rendering (take k msg)) \<and>
      (length (rendering (take k msg)) + 2 \<le> n \<longrightarrow> cstr g = rendering (take k msg)))"
proof -
  let ?R = "rendering (take k msg)"
  have f: "format_message_to_sign (zeros n) n msg k = format_loop n (take k msg) (zeros n) 0"
    using assms by (simp add: format_message_to_sign_def mem_read_def)
  have late: "late_printable (n - 1) 0 (take k msg) \<longleftrightarrow>
      (\<exists>j<k. n - 1 \<le> length (rendering (take j msg)) \<and> printable (msg ! j))"
    unfolding late_printable_def using assms(1) by (simp add: min_def cong: conj_cong)
  have cut: "take (n - 5) (cstr g) = take (n - 5) ?R"
    if g: "take (n - 5) g = take (n - 5) (?R @ zeros n)" and long: "n - 5 \<le> length ?R" for g
  proof -
    have g': "take (n - 5) g = take (n - 5) ?R" unfolding g using long by simp
    have nz: "\<And>x. x \<in> set (take (n - 5) ?R) \<Longrightarrow> x \<noteq> 0" using rendering_nonzero by (blast dest: in_set_takeD)
    have "cstr g = cstr (take (n - 5) ?R @ drop (n - 5) g)" by (simp only: g' [symmetric] append_take_drop_id)
    also have "\<dots> = take (n - 5) ?R @ cstr (drop (n - 5) g)" unfolding cstr_def by (rule takeWhile_append2) (rule nz)
    finally have c: "cstr g = take (n - 5) ?R @ cstr (drop (n - 5) g)" .
    show ?thesis unfolding c using long by simp
  qed
  have fits: "cstr g = ?R" if "format_loop n (take k msg) (zeros n) 0 = Some g" "length ?R + 2 \<le> n" for g
    using format_exact [OF assms(1) that(2)] that(1) f by auto
  have r: "(format_loop n (take k msg) (zeros n) 0 = None \<longleftrightarrow> late_printable (n - 1) 0 (take k msg)) \<and>
    (\<forall>g. format_loop n (take k msg) (zeros n) 0 = Some g \<longrightarrow>
       length g = n \<and> take (n - 5) g = take (n - 5) (?R @ zeros n))"
    using format_loop_shows [of "[]" n n "take k msg", unfolded list.size append_Nil add_0, OF refl assms(2)] .
  have "length g = n \<and> take (n - 5) (cstr g) = take (n - 5) ?R \<and> (length ?R + 2 \<le> n \<longrightarrow> cstr g = ?R)"
    if g: "format_loop n (take k msg) (zeros n) 0 = Some g" for g
  proof -
    have l: "length g = n" "take (n - 5) g = take (n - 5) (?R @ zeros n)" using r g by blast+
    show ?thesis
    proof (cases "length ?R + 2 \<le> n")
      case True
      with l(1) fits [OF g] show ?thesis by simp
    next
      case False
      then have "n - 5 \<le> length ?R" by simp
      from cut [OF l(2) this] False l(1) show ?thesis by simp
    qed
  qed
  with r show ?thesis unfolding f late [symmetric] by blast
qed

theorem format_message_shows_witness:
  "\<exists>g. format_message_to_sign (zeros 8) 8 [0x41, 7, 0x42] 3 = Some g \<and> cstr g = c_bytes (''A'' @ CHR 0x5C # ''x07B'')"
proof -
  let ?m = "[0x41, 7, 0x42] :: bytes"
  have R: "rendering (take 3 ?m) = c_bytes (''A'' @ CHR 0x5C # ''x07B'')"
    "length (rendering [0x41]) = 1" "length (rendering [0x41, 7]) = 5"
    by (simp_all add: render_def escape_def isprint_def isspace_def hex_digit_def c_bytes_def)
  have "\<not> (\<exists>j<3. 8 - 1 \<le> length (rendering (take j ?m)) \<and> printable (?m ! j))"
    by (simp add: numeral_3_eq_3 Ex_less_Suc2 R(2,3) del: rendering_simps(2))
  then obtain g where g: "format_message_to_sign (zeros 8) 8 ?m 3 = Some g"
    using format_message_shows [of 3 ?m 8] by auto
  have "length (rendering (take 3 ?m)) + 2 \<le> 8" unfolding R(1) by simp
  then show ?thesis using format_message_shows [of 3 ?m 8] R(1) g by (simp del: rendering_simps)
qed

text \<open>What the text therefore does not show: the buffer of a 126-byte screen is full after 31
  escapes, so messages that differ later show the same text, a printed escape shows the same
  text as the byte it stands for, and a printable byte at the last position of the buffer makes
  the terminating zero fall outside it.\<close>

theorem format_message_ambiguous:
  "(\<exists>g. format_message_to_sign (zeros 126) 126 (replicate 40 1 @ [2]) 41 = Some g \<and>
     format_message_to_sign (zeros 126) 126 (replicate 40 1 @ [3]) 41 = Some g) \<and>
   rendering [0x07] = rendering (c_bytes (CHR 0x5C # ''x07'')) \<and>
   format_message_to_sign (zeros 126) 126 (replicate 31 1 @ [0, 0x41]) 33 = None"
proof -
  have "format_message_to_sign (zeros 126) 126 (replicate 40 1 @ [2]) 41 =
      format_message_to_sign (zeros 126) 126 (replicate 40 1 @ [3]) 41" by code_simp
  moreover have "format_message_to_sign (zeros 126) 126 (replicate 40 1 @ [2]) 41 \<noteq> None" by code_simp
  moreover have "rendering [0x07] = rendering (c_bytes (CHR 0x5C # ''x07''))" by code_simp
  moreover have "format_message_to_sign (zeros 126) 126 (replicate 31 1 @ [0, 0x41]) 33 = None" by code_simp
  ultimately show ?thesis by auto
qed

declare format_loop.simps(2) [simp] rendering_simps [simp del]

end
