(* ===== verification/Answers.thy ===== *)
theory Answers
  imports Commands Format
begin

text \<open>
  Properties of single commands, on every input: refusals of the dispatcher, public keys,
  messages, the decision on a transaction and its review, and the exceptions that the code
  leaves open.
\<close>

section \<open>Dispatch and refusals\<close>

text \<open>C18. Every command either gets the one refusal of the table or reaches its handler: a wrong class
  is answered 0x6E00, an unknown instruction 0x6D00, wrong parameters 0x6A86, missing data
  0x6A87, in this order of precedence and without any other change of the state; every other
  command is given to the handler of its instruction. The table is the code's: it tests P2 also
  when the next signature is asked for, where the documentation says that P2 is ignored, and it
  tests no parameter of SIGN_MESSAGE, where the documentation has zeros.\<close>

theorem dispatcher_table:
  "apdu_dispatcher E c s = (case refusal E c of Some sw \<Rightarrow> Some (io_send_sw E sw s) | None \<Rightarrow> handle E c s)"
  by (rule dispatch_eq)

text \<open>The state after the user's refusal of a transaction or message.\<close>

definition refused_state :: "app \<Rightarrow> app" where
  "refused_state s = s\<lparr>G_context := (G_context s)\<lparr>state := STATE_NONE\<rparr>, pending := None,
     responses := responses s @ [([], 0x6985)]\<rparr>"

lemma review_refused:
  "r \<noteq> Review_Address \<Longrightarrow> review_choice E r False s = Some (refused_state s)"
  by (cases r) (auto simp: refused_state_def sw_consts review_choice_def validate_transaction_def
      validate_message_def io_simps set_defs)

context device
begin

lemma unapproved_run:
  assumes "run (app_step E) s0 es s" and "app_inv E s0" and "state (G_context s0) \<noteq> STATE_APPROVED"
    and "Chosen True \<notin> set es"
  shows "app_inv E s \<and> sign_log s = sign_log s0 \<and> state (G_context s) \<noteq> STATE_APPROVED"
  using assms
proof (induction rule: run.induct)
  case run_start
  then show ?case by simp
next
  case (run_step es s e s')
  then have i: "app_inv E s" "sign_log s = sign_log s0" "state (G_context s) \<noteq> STATE_APPROVED" and e: "e \<noteq> Chosen True"
    by auto
  show ?case
    using step_gate [OF run_step.hyps(2) inv_path [OF i(1)]] step_keeps [OF run_step.hyps(2) i(1)] i e
    by (auto simp: approves_def asks_next_def)
qed

end

text \<open>C19. What refusals do. The command for the next signature outside an approved transaction is
  answered 0xB007 and clears the context. The user's refusal of a transaction or message is
  answered 0x6985, takes the request from the screen and resets its state, and whatever follows,
  nothing is signed before a further approval. The refused transaction itself is not cleared: it
  stays the current request with its outputs and inputs, so the host can still send items that
  are missing and have it shown again.\<close>

theorem refusals_reset_state:
  assumes "device E" and "app_inv E s"
  shows "(req_type (G_context s) \<noteq> CONFIRM_TRANSACTION \<or> state (G_context s) \<noteq> STATE_APPROVED \<longrightarrow>
      handler_sign_tx E b P1_NEXT_SIGNATURE m s = Some (io_send_sw E 0xB007 (set_ctx zero_ctx s))) \<and>
    (\<forall>r texts. running s \<and> pending s = Some (r, texts) \<and> r \<noteq> Review_Address \<longrightarrow>
      (\<forall>s'. app_step E s (Chosen False) s' \<longleftrightarrow> s' = refused_state s) \<and>
      (r = Review_Transaction \<longrightarrow> idle E (refused_state s) \<and>
        req_type (G_context (refused_state s)) = CONFIRM_TRANSACTION) \<and>
      (\<forall>es s''. run (app_step E) (refused_state s) es s'' \<and> Chosen True \<notin> set es \<longrightarrow>
        sign_log s'' = sign_log s))"
proof (intro conjI impI allI)
  have "zero_ctx\<lparr>state := STATE_NONE\<rparr> = zero_ctx" by (simp add: zero_ctx_def)
  then show "handler_sign_tx E b P1_NEXT_SIGNATURE m s = Some (io_send_sw E 0xB007 (set_ctx zero_ctx s))"
    if "req_type (G_context s) \<noteq> CONFIRM_TRANSACTION \<or> state (G_context s) \<noteq> STATE_APPROVED"
    using that by (auto simp: handler_sign_tx_def apdu_consts sw_consts)
next
  fix r texts assume a: "running s \<and> pending s = Some (r, texts) \<and> r \<noteq> Review_Address"
  then have step: "app_step E s (Chosen False) s' \<longleftrightarrow> s' = refused_state s" for s'
    using review_refused [of r E s] by (auto elim: chosen_cases intro: app_step.chosen)
  then show "app_step E s (Chosen False) s' \<longleftrightarrow> s' = refused_state s" for s' .
  have i: "app_inv E (refused_state s)"
    using device.step_keeps [OF assms(1) _ assms(2), of "Chosen False"] step by blast
  show "idle E (refused_state s)" using i by (simp add: app_inv_def idle_def refused_state_def)
  show "req_type (G_context (refused_state s)) = CONFIRM_TRANSACTION" if "r = Review_Transaction"
    using a that assms(2) by (simp add: app_inv_def pending_fits_def refused_state_def)
  show "sign_log s'' = sign_log s"
    if "run (app_step E) (refused_state s) es s'' \<and> Chosen True \<notin> set es" for es s''
    using device.unapproved_run [OF assms(1) _ i, of es s''] that by (auto simp: refused_state_def)
qed

theorem refusals_reset_state_witness:
  "handler_sign_tx std_env (cmd_buffer undefined) P1_NEXT_SIGNATURE False app_main_start =
     Some (io_send_sw std_env 0xB007 (set_ctx zero_ctx app_main_start)) \<and>
   app_step std_env ex_msg_state (Chosen False) (refused_state ex_msg_state) \<and>
   (\<exists>s. pending s \<noteq> None \<and> app_step std_env s (Chosen False) (refused_state s) \<and>
      member (G_context (refused_state s)) = Tx_info (add_input (ex_input 4) ex_sent))"
proof -
  obtain es s where s: "run (app_step std_env) app_main_start es s" "running s"
    "pending s = Some (Review_Transaction, tx_texts std_env ex_tx)"
    "member (G_context s) = Tx_info (add_input (ex_input 4) ex_sent)"
    using ex_tx_run by auto
  show ?thesis
    using refusals_reset_state [OF std_device std_dev.start_inv, of "cmd_buffer undefined" False]
      refusals_reset_state [OF std_device std_dev.app.run_inv [OF ex_msg_run]]
      refusals_reset_state [OF std_device std_dev.app.run_inv [OF s(1)]] ex_msg_facts(1,3) s(2-4)
    by (intro conjI exI [of _ s]) (auto simp: app_main_start_def zero_ctx_def refused_state_def)
qed

section \<open>Public keys\<close>

definition pubkey_answer :: "env \<Rightarrow> u32 list \<Rightarrow> response" where
  "pubkey_answer E ws = (case pubkey_refusal E ws of
     Some sw \<Rightarrow> ([], word_of_int sw)
   | None \<Rightarrow> ([65, 4] @ derived_key E ws @ [32] @ derived_chain E ws, 0x9000))"

text \<open>C16. GET_PUBLIC_KEY without display, for paths of one to five words: one answer, which is the
  refusal of the path (shorter than two words, wrong purpose, wrong coin type, failed
  derivation) or the key derived at that path with its length and format byte and its chain
  code; nothing is signed or put on the screen.\<close>

theorem get_public_key_sends:
  assumes "device E" and "valid_buffer b" and "rest b = n # bs" and "1 \<le> unat n" and "unat n \<le> 5"
    and "4 * unat n \<le> length bs"
  shows "\<exists>s'. handler_get_public_key E b False s = Some (sdk_io E (responses s'), s') \<and>
    responses s' = responses s @ [pubkey_answer E (be_words (unat n) bs)] \<and>
    pending s' = pending s \<and> sign_log s' = sign_log s"
proof -
  let ?ws = "be_words (unat n) bs"
  note eq = device.get_public_key_eq [OF assms refl, of False s]
  show ?thesis
  proof (cases "pubkey_refusal E ?ws")
    case None
    note k = device.key_state_facts [OF assms(1)]
    have "helper_send_response_pubkey E (key_state E ?ws s) = Some (io_send_response_pointer E
        ([65, 4] @ derived_key E ?ws @ [32] @ derived_chain E ?ws) SW_OK (key_state E ?ws s))"
      using device.response_pubkey_eq [OF assms(1), of "key_state E ?ws s"] k by simp
    then show ?thesis using None eq by (simp add: pubkey_answer_def io_simps SW_OK_def key_state_def set_defs)
  next
    case (Some sw)
    then show ?thesis using eq by (auto simp: pubkey_answer_def io_simps set_defs)
  qed
qed

lemma ex_words: "be_words 2 (be_bytes 4 (0x8000002c :: u32) @ be_bytes 4 (0x8001b207 :: u32)) = [0x8000002c, 0x8001b207]"
  by (simp add: numeral_2_eq_2 be_word_be_bytes)

theorem get_public_key_sends_witness:
  "\<exists>s'. handler_get_public_key std_env (mk_buffer ([2] @ be_bytes 4 (0x8000002c :: u32) @ be_bytes 4 (0x8001b207 :: u32)))
      False app_main_start = Some (0, s') \<and>
     responses s' = [pubkey_answer std_env [0x8000002c, 0x8001b207]]"
proof -
  let ?bs = "be_bytes 4 (0x8000002c :: u32) @ be_bytes 4 (0x8001b207 :: u32)"
  have w: "be_words 2 ?bs = [0x8000002c, 0x8001b207]" by (rule ex_words)
  have "responses app_main_start = []" "sdk_io std_env r = 0" for r
    by (simp_all add: app_main_start_def std_env_def)
  then show ?thesis
    using get_public_key_sends [OF std_device, of "mk_buffer (2 # ?bs)" 2 ?bs app_main_start] w by auto
qed

text \<open>C17. GET_PUBLIC_KEY with display: when the path is accepted and can be formatted, the request
  waits for the user with the address on the screen that a transaction output paying to the
  derived key would show; the key itself is sent only after the approval.\<close>

theorem get_public_key_shows:
  assumes "device E" and "valid_buffer b" and "rest b = n # bs" and "1 \<le> unat n" and "unat n \<le> 5"
    and "4 * unat n \<le> length bs" and "ws = be_words (unat n) bs" and "pubkey_refusal E ws = None"
    and "fst (bip32_path_format (sdk_text E) ws 60)"
  shows "\<exists>s' a texts. handler_get_public_key E b True s = Some (0, s') \<and>
    pending s' = Some (Review_Address, texts) \<and> (''Address'', a) \<in> set texts \<and>
    is_address_of (0x20 # take 32 (derived_key E ws) @ [OP_CHECKSIG]) a \<and> responses s' = responses s \<and>
    (\<exists>s''. review_choice E Review_Address True s' = Some s'' \<and>
      responses s'' = responses s @ [pubkey_answer E ws] \<and> pending s'' = None)"
proof -
  have l: "length ws \<le> 5" using assms(5,7) by simp
  obtain a texts where a: "is_address_of (0x20 # take 32 (derived_key E ws) @ [OP_CHECKSIG]) a"
    "(''Address'', a) \<in> set texts"
    "ui_display_address E (key_state E ws s) = Some (0, (key_state E ws s)\<lparr>pending := Some (Review_Address, texts)\<rparr>)"
    using device.display_key_ok [OF assms(1) l assms(9), of s] by blast
  let ?s = "(key_state E ws s)\<lparr>pending := Some (Review_Address, texts)\<rparr>"
  have h: "handler_get_public_key E b True s = Some (0, ?s)"
    using device.get_public_key_eq [OF assms(1-7), of True s] assms(8) a(3) by simp
  note k = device.key_state_facts [OF assms(1)]
  have "helper_send_response_pubkey E (key_state E ws s\<lparr>pending := None\<rparr>) = Some (io_send_response_pointer E
      ([65, 4] @ derived_key E ws @ [32] @ derived_chain E ws) SW_OK (key_state E ws s\<lparr>pending := None\<rparr>))"
    using device.response_pubkey_eq [OF assms(1), of "key_state E ws s\<lparr>pending := None\<rparr>"] k by simp
  then have "\<exists>s''. review_choice E Review_Address True ?s = Some s'' \<and>
      responses s'' = responses s @ [pubkey_answer E ws] \<and> pending s'' = None"
    using assms(8) by (simp add: review_choice_def validate_pubkey_def io_simps pubkey_answer_def SW_OK_def
        key_state_def set_defs)
  moreover have "responses ?s = responses s" by (simp add: key_state_def set_defs)
  ultimately show ?thesis using h a(1,2)
    by (intro exI [of _ ?s] exI [of _ a] exI [of _ texts]) simp
qed

theorem get_public_key_shows_witness:
  "\<exists>s' texts. handler_get_public_key std_env (mk_buffer ([2] @ be_bytes 4 (0x8000002c :: u32) @ be_bytes 4 (0x8001b207 :: u32)))
      True app_main_start = Some (0, s') \<and> pending s' = Some (Review_Address, texts)"
proof -
  let ?bs = "be_bytes 4 (0x8000002c :: u32) @ be_bytes 4 (0x8001b207 :: u32)"
  have w: "[0x8000002c, 0x8001b207] = be_words (unat (2 :: u8)) ?bs" using ex_words by simp
  have r: "pubkey_refusal std_env [0x8000002c, 0x8001b207] = None"
    by (simp add: pubkey_refusal_def std_env_def std_crypto_def)
  have f: "fst (bip32_path_format (sdk_text std_env) [0x8000002c, 0x8001b207] 60)" by (simp add: std_env_def)
  show ?thesis
    using get_public_key_shows [OF std_device, of "mk_buffer (2 # ?bs)" 2 ?bs, OF _ _ _ _ _ w r f, of app_main_start]
    by auto
qed

section \<open>Messages\<close>

lemma display_message_shows:
  assumes "member (G_context s) = Msg_info m" and "req_type (G_context s) = CONFIRM_MESSAGE"
    and "state (G_context s) = STATE_NONE" and "bip32_path (G_context s) = message_path m"
    and "bip32_path_len (G_context s) = 5" and "message_len m \<le> length (message m)"
    and "fst (bip32_path_format (sdk_text E) (message_path m) 60)"
    and "length (rendering (take (message_len m) (message m))) + 2 \<le> MAX_MESSAGE_LEN E"
  shows "\<exists>title path. ui_display_message E s = Some (0, s\<lparr>pending := Some (Review_Message,
    [(title, path), (''Message'', rendering (take (message_len m) (message m)))])\<rparr>)"
proof -
  let ?n = "if HAVE_NBGL E then MAX_MESSAGE_LEN E else MAX_MESSAGE_LEN E + 6"
  have fits: "length (rendering (take (message_len m) (message m))) + 2 \<le> ?n"
    using assms(8) by (cases "HAVE_NBGL E") auto
  obtain g where g: "format_message_to_sign (zeros ?n) ?n (message m) (message_len m) = Some g"
    "cstr g = rendering (take (message_len m) (message m))"
    using format_exact [OF assms(6) fits] by blast
  obtain path where p: "bip32_path_format (sdk_text E) (message_path m) 60 = (True, path)"
    using assms(7) by (metis prod.collapse)
  have mr: "mem_read (message_path m) 0 5 = Some (message_path m)"
    by (simp add: message_path_def mem_read_def)
  show ?thesis using assms(1-5) g p mr
    by (cases "HAVE_NBGL E") (auto simp: ui_display_message_def bagl_ui_display_message_def
        nbgl_ui_display_message_def Let_def show_review_def)
qed

lemma display_message_refused:
  assumes "req_type (G_context s) = CONFIRM_MESSAGE" and "state (G_context s) = STATE_NONE"
    and "bip32_path (G_context s) = message_path m" and "bip32_path_len (G_context s) = 5"
    and "\<not> fst (bip32_path_format (sdk_text E) (message_path m) 60)"
  shows "ui_display_message E s = Some (io_send_sw E 0xB001 s)"
proof -
  obtain path where p: "bip32_path_format (sdk_text E) (message_path m) 60 = (False, path)"
    using assms(5) by (metis (full_types) prod.collapse)
  have mr: "mem_read (message_path m) 0 5 = Some (message_path m)"
    by (simp add: message_path_def mem_read_def)
  show ?thesis using assms(1-4) p mr
    by (simp add: ui_display_message_def bagl_ui_display_message_def nbgl_ui_display_message_def Let_def sw_consts)
qed

text \<open>C15. SIGN_MESSAGE. Every input that the table refuses (address type, index or account missing or
  not allowed 0xB013, length missing 0xB015, length zero 0xB012, longer than MAX_MESSAGE_LEN
  0xB011, bytes missing 0xB010) is answered with the refusal and nothing is shown; the
  documentation has 0xB014 for a missing index and a maximum of 128, which differ. Every other
  message of at most 128 bytes whose text fits the screen waits for the user, with its whole
  rendering on the screen, or is answered 0xB001 when its path cannot be formatted. Nothing is
  signed.\<close>

theorem sign_message_reviewed:
  assumes "device E" and "valid_buffer b" and "d = rest b"
    and "msg_refusal (MAX_MESSAGE_LEN E) d = None \<Longrightarrow> unat (d ! 9) \<le> 128 \<and>
      length (rendering (take (unat (d ! 9)) (drop 10 d))) + 2 \<le> MAX_MESSAGE_LEN E"
  shows "\<exists>r s'. handler_sign_msg E b s = Some (r, s') \<and> sign_log s' = sign_log s \<and> test_log s' = test_log s \<and>
    (case msg_refusal (MAX_MESSAGE_LEN E) d of
       Some sw \<Rightarrow> responses s' = responses s @ [([], word_of_int sw)] \<and> pending s' = pending s
     | None \<Rightarrow>
        if fst (bip32_path_format (sdk_text E) (message_path (read_message d)) 60)
        then responses s' = responses s \<and> (\<exists>title path. pending s' =
          Some (Review_Message, [(title, path), (''Message'', rendering (take (unat (d ! 9)) (drop 10 d)))]))
        else responses s' = responses s @ [([], 0xB001)] \<and> pending s' = pending s)"
proof (cases "msg_refusal (MAX_MESSAGE_LEN E) d")
  case (Some sw)
  then show ?thesis
    using device.sign_msg_eq [OF assms(1,2), of s] assms(3) by (auto simp: io_simps set_defs)
next
  case None
  let ?m = "read_message d" and ?s = "message_state d s"
  have n: "unat (d ! 9) \<le> 128" "10 + unat (d ! 9) \<le> length d"
    using assms(4) [OF None] None by (auto simp: msg_refusal_def split: if_splits)
  have m: "message_len ?m = unat (d ! 9)" "length (message ?m) = 128"
    "take (unat (d ! 9)) (message ?m) = take (unat (d ! 9)) (drop 10 d)"
    using n by (simp_all add: read_message_def)
  have st: "member (G_context ?s) = Msg_info ?m" "req_type (G_context ?s) = CONFIRM_MESSAGE"
    "state (G_context ?s) = STATE_NONE" "bip32_path (G_context ?s) = message_path ?m"
    "bip32_path_len (G_context ?s) = 5"
    by (simp_all add: message_state_def Let_def set_simps)
  have same: "pending ?s = pending s" "responses ?s = responses s" "sign_log ?s = sign_log s" "test_log ?s = test_log s"
    by (simp_all add: message_state_def Let_def set_defs)
  have h: "handler_sign_msg E b s = ui_display_message E ?s"
    using device.sign_msg_eq [OF assms(1,2), of s] None assms(3) n(1) by auto
  show ?thesis
  proof (cases "fst (bip32_path_format (sdk_text E) (message_path ?m) 60)")
    case True
    have "\<exists>title path. ui_display_message E ?s = Some (0, ?s\<lparr>pending := Some (Review_Message,
        [(title, path), (''Message'', rendering (take (unat (d ! 9)) (drop 10 d)))])\<rparr>)"
      using display_message_shows [OF st _ True] m n assms(4) [OF None] by simp
    with True None same h show ?thesis by auto
  next
    case False
    with display_message_refused [OF st(2-5) False] None same h show ?thesis by (simp add: io_simps)
  qed
qed

theorem sign_message_reviewed_witness:
  "\<exists>r s' title path. handler_sign_msg std_env (mk_buffer (drop 5 ex_message)) app_main_start = Some (r, s') \<and>
     pending s' = Some (Review_Message, [(title, path), (''Message'', [72, 105, 33])])"
proof -
  have r: "msg_refusal (MAX_MESSAGE_LEN std_env) (drop 5 ex_message) = None" by code_simp
  have t: "take (unat (drop 5 ex_message ! 9)) (drop 10 (drop 5 ex_message)) = [72, 105, 33]" by code_simp
  have l: "unat (drop 5 ex_message ! 9) \<le> 128 \<and>
      length (rendering (take (unat (drop 5 ex_message ! 9)) (drop 10 (drop 5 ex_message)))) + 2 \<le> MAX_MESSAGE_LEN std_env"
    by code_simp
  have g: "rendering [72, 105, 33] = [72, 105, 33]" by code_simp
  have f: "fst (bip32_path_format (sdk_text std_env) p 60)" for p by (simp add: std_env_def)
  show ?thesis
    using sign_message_reviewed [OF std_device, of "mk_buffer (drop 5 ex_message)" "drop 5 ex_message" app_main_start]
      l f r t g by auto
qed

section \<open>Transactions\<close>

text \<open>C14. The check of a parsed transaction decides exactly, for every transaction whose inputs fit the
  array: it accepts when there are one or two outputs and at least one input, a second output pays to the key derived at the context's path
  in the transaction's account, and the total of the inputs modulo 2^64 is at least that of the
  outputs; it never fails to return, and changes at most the path of the context. Equal totals,
  a fee of zero, are accepted, where the documentation requires more inputs than outputs.\<close>

theorem validation_decides:
  assumes "device E" and "wf_transaction (MAX_INPUT_COUNT E) tx" and "tx_input_len tx \<le> MAX_INPUT_COUNT E"
    and "length (bip32_path (G_context s)) = 5"
  shows "\<exists>s'. tx_validate_parsed_transaction E tx s = Some (tx_valid E (bip32_path (G_context s)) tx, s') \<and>
    s' \<in> {s, set_ctx ((G_context s)\<lparr>bip32_path := header_path (account tx) (bip32_path (G_context s) ! 3)
      (bip32_path (G_context s) ! 4), bip32_path_len := 5\<rparr>) s}"
  by (rule device.tx_validate_decides [OF assms])

theorem validation_decides_witness:
  "(\<exists>s'. tx_validate_parsed_transaction std_env ex_tx ex_state = Some (True, s')) \<and>
   (\<exists>s'. tx_validate_parsed_transaction std_env (ex_tx\<lparr>tx_output_len := 3\<rparr>) ex_state = Some (False, s'))"
proof -
  have w: "wf_transaction 15 ex_tx" by code_simp
  then have w': "wf_transaction 15 (ex_tx\<lparr>tx_output_len := 3\<rparr>)" by (simp add: wf_transaction_def)
  have l: "tx_input_len ex_tx = 2" by (rule ex_index(2))
  have p: "bip32_path (G_context ex_state) = header_path 0x80000000 0 0" by (rule ex_context(3))
  show ?thesis
    using validation_decides [OF std_device, of ex_tx ex_state] w l p ex_valid
      validation_decides [OF std_device, of "ex_tx\<lparr>tx_output_len := 3\<rparr>" ex_state] w'
    by (auto simp: tx_valid_def [of _ _ "ex_tx\<lparr>tx_output_len := 3\<rparr>"])
qed

text \<open>C13. The last chunk: an input that the header expects is stored, the transaction is checked, and
  then either waits for the user with its amount, address and fees on the screen, or is refused
  with 0xB005; nothing is signed.\<close>

theorem last_input_reviewed:
  assumes "device E" and "valid_buffer b" and "length (rest b) = 46" and "idle E s"
    and "req_type (G_context s) = CONFIRM_TRANSACTION"
    and "tx_info (MAX_INPUT_COUNT E) (member (G_context s)) = Some t" and "expects_input E t"
    and "t' = add_input (rest b) t" and "tx_input_len (transaction t) \<le> MAX_INPUT_COUNT E"
    and "formats E (out_value (tx_outputs (transaction t') ! 0))" and "formats E (tx_fees (transaction t'))"
  shows "\<exists>r s'. handler_sign_tx E b P1_INPUTS False s = Some (r, s') \<and> sign_log s' = sign_log s \<and>
    (if tx_valid E (bip32_path (G_context s)) (transaction t')
     then pending s' = Some (Review_Transaction, tx_texts E (transaction t')) \<and> responses s' = responses s \<and> r = 0 \<and>
       state (G_context s') = STATE_PARSED \<and> member (G_context s') = Tx_info t' \<and> running s' = running s
     else pending s' = None \<and> responses s' = responses s @ [([], 0xB005)])"
  by (rule device.last_input [OF assms])

theorem last_input_reviewed_witness:
  "\<exists>r s'. handler_sign_tx std_env ex_buffer P1_INPUTS False ex_state = Some (r, s') \<and>
     pending s' = Some (Review_Transaction, tx_texts std_env ex_tx)"
  using last_input_reviewed [OF std_device ex_buffer_rest(2) _ ex_idle ex_context(1) _ ex_expects refl _ std_formats std_formats]
    ex_buffer_rest ex_context ex_valid by (auto simp: ex_tx_def)

section \<open>What the code leaves open\<close>

text \<open>C20. After the approval the request stays open: a further input of 46 bytes that the header still
  expects is stored in the approved transaction, which stays approved without a new review, so
  the next signature is over other data than the screen showed; and the command for the next
  signature is not limited to the inputs counted by the header, it signs for every element of
  the input array.\<close>

theorem approved_request_stays_open:
  assumes "device E" and "crypto_works E" and "signing E tx m i s" and "wf_transaction (MAX_INPUT_COUNT E) tx"
  shows "(\<forall>b t. valid_buffer b \<longrightarrow> length (rest b) = 46 \<longrightarrow>
      tx_info (MAX_INPUT_COUNT E) (member (G_context s)) = Some t \<longrightarrow> wf_tx_ctx (MAX_INPUT_COUNT E) t \<longrightarrow>
      expects_input E t \<longrightarrow>
      (\<exists>r s'. handler_sign_tx E b P1_INPUTS True s = Some (r, s') \<and>
         signing E (transaction (add_input (rest b) t)) m i s')) \<and>
    (\<forall>bs. next_command E bs \<longrightarrow> signable tx \<longrightarrow> tx_input_len tx \<le> i \<longrightarrow> i < MAX_INPUT_COUNT E \<longrightarrow>
      (\<exists>s'. app_exec E s (Received bs) = Some s' \<and>
         sign_log s' = sign_log s @ [(input_key E tx i, input_digest E tx i)]))"
proof (intro conjI allI impI)
  fix b t
  assume b: "valid_buffer b" "length (rest b) = 46" and t: "tx_info (MAX_INPUT_COUNT E) (member (G_context s)) = Some t"
    "wf_tx_ctx (MAX_INPUT_COUNT E) t" "expects_input E t"
  have "req_type (G_context s) = CONFIRM_TRANSACTION" using assms(3) by (simp add: signing_def)
  from device.more_input [OF assms(1) b this t]
  have "handler_sign_tx E b P1_INPUTS True s =
      Some (io_send_sw E SW_OK (set_member (Tx_info (add_input (rest b) t)) s))" .
  moreover have "signing E (transaction (add_input (rest b) t)) m i
      (snd (io_send_sw E SW_OK (set_member (Tx_info (add_input (rest b) t)) s)))"
    using assms(3) t(1) by (auto simp: signing_def io_simps set_defs add_input_def Let_def)
  ultimately show "\<exists>r s'. handler_sign_tx E b P1_INPUTS True s = Some (r, s') \<and>
      signing E (transaction (add_input (rest b) t)) m i s'" by (auto simp: io_simps)
next
  fix bs
  assume c: "next_command E bs" "signable tx" "tx_input_len tx \<le> i" "i < MAX_INPUT_COUNT E"
  have "i < length (tx_inputs tx)" "wf_input (tx_inputs tx ! i)" "i < 255"
    using c(4) assms(4) wf_transaction_nth(1) device.input_count(2) [OF assms(1)] by (auto simp: wf_transaction_def)
  then show "\<exists>s'. app_exec E s (Received bs) = Some s' \<and>
      sign_log s' = sign_log s @ [(input_key E tx i, input_digest E tx i)]"
    using device.next_signature_ok [OF assms(1,2) c(1) assms(3) c(2)] by blast
qed

theorem approved_request_stays_open_witness:
  "\<exists>s s'. signing std_env ex_tx 0 2 s \<and> tx_input_len ex_tx = 2 \<and>
     app_exec std_env s (Received ex_next) = Some s' \<and> length (sign_log s') = 3"
proof -
  obtain es s texts where s: "run (app_step std_env) app_main_start es s" "running s"
    "pending s = Some (Review_Transaction, texts)" "sign_log s = []"
    "member (G_context s) = Tx_info (add_input (ex_input 4) ex_sent)"
    using ex_tx_run by auto
  obtain s1 where s1: "signing std_env ex_tx 0 1 s1"
    using ex_tx_step [OF s(1,2,3,5,4)] by auto
  obtain s2 where s2: "signing std_env ex_tx 0 2 s2"
    using std_dev.next_signature_ok [OF std_crypto_works ex_next_command s1 ex_signable]
      signable_input [OF ex_signable, of 1] ex_index(2) by (auto simp: numeral_2_eq_2)
  have w: "wf_transaction (MAX_INPUT_COUNT std_env) ex_tx" by code_simp
  have l: "tx_input_len ex_tx \<le> 2" "2 < MAX_INPUT_COUNT std_env" using ex_index(2) by simp_all
  obtain s3 where s3: "app_exec std_env s2 (Received ex_next) = Some s3"
    "sign_log s3 = sign_log s2 @ [(input_key std_env ex_tx 2, input_digest std_env ex_tx 2)]"
    using approved_request_stays_open [OF std_device std_crypto_works s2 w] ex_next_command ex_signable l by blast
  have "length (sign_log s2) = 2" using s2 by (simp add: signing_def)
  with s2 s3 ex_index(2) show ?thesis by auto
qed

text \<open>Further places where the code is undefined or answers what its interface does not say.\<close>

theorem long_path_overflows:
  assumes "device E" and "valid_buffer b" and "rest b = n # bs" and "5 < unat n" and "unat n \<le> 10"
    and "4 * unat n \<le> length bs"
  shows "handler_get_public_key E b d s = None"
  by (rule device.get_public_key_long [OF assms])

theorem long_message_overflows:
  assumes "device E" and "valid_buffer b" and "msg_refusal (MAX_MESSAGE_LEN E) (rest b) = None"
    and "128 < unat (rest b ! 9)"
  shows "handler_sign_msg E b s = None"
  using device.sign_msg_eq [OF assms(1,2), of s] assms(3,4) by simp

theorem rejected_header_starts_request:
  assumes "device E" and "valid_buffer b" and "header_status (MAX_INPUT_COUNT E) (rest b) \<noteq> PARSING_OK"
  shows "\<exists>r s'. handler_sign_tx E b P1_START m s = Some (r, s') \<and>
    responses s' = responses s @ [([], 0xB005)] \<and> req_type (G_context s') = CONFIRM_TRANSACTION"
proof -
  let ?n = "MAX_INPUT_COUNT E"
  have w: "wf_transaction ?n (transaction (zero_tx ?n))" "length (bip32_path zero_ctx) = 5"
    by (simp_all add: zero_tx_def zero_ctx_def size_consts)
  have B: "buffer_api (sdk_buffer E)" using assms(1) by (simp add: device_def path_api_def)
  from buffer_api.header_deserialize_status [OF B assms(2) w(2,1)] assms(3) show ?thesis
    by (auto simp: handler_sign_tx_def apdu_consts sign_tx_header_def reset_ctx_def set_simps zero_ctx_simps
        io_simps sw_consts Let_def) (auto simp: set_defs)
qed

text \<open>The totals are summed over as many inputs as the header announced, also when the header was
  rejected because that is more than the array holds.\<close>

theorem oversized_header_overreads:
  assumes "device E" and "valid_buffer b" and "length (rest b) = 46"
    and "idle E s" and "req_type (G_context s) = CONFIRM_TRANSACTION"
    and t: "tx_info (MAX_INPUT_COUNT E) (member (G_context s)) = Some t" and "expects_input E t"
    and n: "tx_output_len (transaction t) = 1" "MAX_INPUT_COUNT E < tx_input_len (transaction t)"
  shows "handler_sign_tx E b P1_INPUTS False s = None"
proof -
  have w: "wf_tx_ctx (MAX_INPUT_COUNT E) t"
    using assms(4) t by (cases "member (G_context s)") (auto simp: idle_iff)
  let ?tx = "transaction (add_input (rest b) t)"
  have "length (tx_inputs ?tx) < tx_input_len ?tx" "tx_output_len ?tx = 1"
    using w n by (simp_all add: add_input_def Let_def wf_tx_ctx_def wf_transaction_def)
  then have "tx_validate_parsed_transaction E ?tx s' = None" for s'
    by (simp add: tx_validate_parsed_transaction_def mem_read_def)
  then show ?thesis
    using assms(5) t device.sign_tx_input_ok [OF assms(1-3) w assms(7)]
    by (simp add: handler_sign_tx_def sign_tx_data_def apdu_consts set_simps)
qed

theorem signature_beyond_inputs:
  assumes "state (G_context s) = STATE_APPROVED" and "req_type (G_context s) = CONFIRM_TRANSACTION"
    and "tx_info (MAX_INPUT_COUNT E) (member (G_context s)) = Some t"
    and "length (tx_inputs (transaction t)) \<le> unat (signing_input_index t)"
  shows "handler_sign_tx E b P1_NEXT_SIGNATURE m s = None"
  using assms by (simp add: handler_sign_tx_def apdu_consts sign_input_and_send_def crypto_sign_transaction_def
      arr_get_def Let_def)

text \<open>A run: a header with 16 inputs is rejected, an output follows, and the last chunk reads past the
  array of 15 inputs.\<close>

definition oversized_commands :: "bytes list" where
  "oversized_commands =
    [[0xE0, 6, 0, 0x80, 13, 0, 1, 1, 16, 0, 0, 0, 0, 0, 0x80, 0, 0, 0],
     [0xE0, 6, 1, 0x80, 42] @ be_bytes 8 (7 :: u64) @ ex_script]"

theorem oversized_header_run:
  "map_option responses (app_run std_env app_main_start (map Received oversized_commands)) =
     Some [([], 0xB005), ([], 0x9000)] \<and>
   app_run std_env app_main_start (map Received (oversized_commands @ [ex_last])) = None"
  by code_simp

text \<open>C21. Inputs beyond the areas: a path of 6 to 10 words is stored in an array of 5, a message of more
  than 128 bytes in an array of 128, both before any check, which is undefined behaviour; and a
  header that the parser rejects is answered 0xB005 but still opens a transaction request, whose
  totals, when it announced more inputs than the array holds, are read past the array; and so is
  the input of a next signature after the last element of the array.\<close>

theorem inputs_beyond_areas:
  assumes "device E" and "valid_buffer b"
  shows "(\<forall>n bs. rest b = n # bs \<longrightarrow> 5 < unat n \<longrightarrow> unat n \<le> 10 \<longrightarrow> 4 * unat n \<le> length bs \<longrightarrow>
      handler_get_public_key E b d s = None) \<and>
    (msg_refusal (MAX_MESSAGE_LEN E) (rest b) = None \<longrightarrow> 128 < unat (rest b ! 9) \<longrightarrow>
      handler_sign_msg E b s = None) \<and>
    (header_status (MAX_INPUT_COUNT E) (rest b) \<noteq> PARSING_OK \<longrightarrow>
      (\<exists>r s'. handler_sign_tx E b P1_START m s = Some (r, s') \<and>
         responses s' = responses s @ [([], 0xB005)] \<and> req_type (G_context s') = CONFIRM_TRANSACTION)) \<and>
    (\<forall>t. req_type (G_context s) = CONFIRM_TRANSACTION \<longrightarrow>
      tx_info (MAX_INPUT_COUNT E) (member (G_context s)) = Some t \<longrightarrow>
      (idle E s \<longrightarrow> expects_input E t \<longrightarrow> length (rest b) = 46 \<longrightarrow> tx_output_len (transaction t) = 1 \<longrightarrow>
         MAX_INPUT_COUNT E < tx_input_len (transaction t) \<longrightarrow> handler_sign_tx E b P1_INPUTS False s = None) \<and>
      (state (G_context s) = STATE_APPROVED \<longrightarrow>
         length (tx_inputs (transaction t)) \<le> unat (signing_input_index t) \<longrightarrow>
         handler_sign_tx E b P1_NEXT_SIGNATURE m s = None))"
  using long_path_overflows [OF assms] long_message_overflows [OF assms] rejected_header_starts_request [OF assms]
    oversized_header_overreads [OF assms] signature_beyond_inputs
  by blast

theorem inputs_beyond_areas_witness:
  "handler_get_public_key std_env (mk_buffer (6 # zeros 24)) False app_main_start = None \<and>
   (\<exists>r s'. handler_sign_tx std_env (mk_buffer [0]) P1_START True app_main_start = Some (r, s') \<and>
      req_type (G_context s') = CONFIRM_TRANSACTION)"
proof -
  have "header_status 15 [0] \<noteq> PARSING_OK" by (simp add: header_status_def)
  then show ?thesis
    using inputs_beyond_areas [OF std_device, of "mk_buffer (6 # zeros 24)" False app_main_start True]
      inputs_beyond_areas [OF std_device, of "mk_buffer [0]" False app_main_start True] by auto
qed

end
