(* ===== verification/Definedness.thy ===== *)
theory Definedness
  imports Answers
begin

text \<open>
  No undefined behaviour: for commands whose data fits the areas of the code, every handler,
  every screen and every decision of the user has a result, in every reachable state.
\<close>

section \<open>Safe states\<close>

text \<open>
  The counts of the transaction in the context fit its arrays and its scripts end inside their
  buffers. A zeroed union reads as a transaction without inputs and outputs.
\<close>

definition safe_tx :: "env \<Rightarrow> transaction_t \<Rightarrow> bool" where
  "safe_tx E tx \<longleftrightarrow> tx_input_len tx \<le> MAX_INPUT_COUNT E \<and> tx_output_len tx \<le> MAX_OUTPUT_COUNT \<and>
     list_all readable_output (tx_outputs tx)"

definition safe :: "env \<Rightarrow> app \<Rightarrow> bool" where
  "safe E s \<longleftrightarrow> (\<forall>t. tx_info (MAX_INPUT_COUNT E) (member (G_context s)) = Some t \<longrightarrow> safe_tx E (transaction t))"

text \<open>The computation is defined and ends in a safe state.\<close>

definition fine :: "env \<Rightarrow> (int \<times> app) option \<Rightarrow> bool" where
  "fine E m \<longleftrightarrow> returns m (\<lambda>(r, s). safe E s)"

lemma fine_Some [simp]: "fine E (Some x) \<longleftrightarrow> safe E (snd x)"
  by (simp add: fine_def split: prod.splits)

lemma fine_if: "(c \<Longrightarrow> fine E a) \<Longrightarrow> (\<not> c \<Longrightarrow> fine E b) \<Longrightarrow> fine E (if c then a else b)"
  by simp

lemma fineD: "fine E m \<Longrightarrow> \<exists>r s. m = Some (r, s) \<and> safe E s"
  by (auto simp: fine_def returns_def)

lemma readable_zero: "readable_output zero_output"
  by (simp add: readable_output_def zero_output_def size_consts script_len_def op_consts zeros_def)

lemma safe_zero_tx: "safe_tx E (transaction (zero_tx (MAX_INPUT_COUNT E)))"
  by (simp add: safe_tx_def zero_tx_def zero_transaction_def size_consts list_all_iff readable_zero)

lemma safe_member: "member (G_context s') = member (G_context s) \<Longrightarrow> safe E s' \<longleftrightarrow> safe E s"
  by (simp add: safe_def)

lemma safe_simps [simp]:
  "safe E (snd (io_send_response_pointer E d sw s)) \<longleftrightarrow> safe E s"
  "safe E (snd (io_send_sw E sw s)) \<longleftrightarrow> safe E s"
  "safe E (set_state st s) \<longleftrightarrow> safe E s"
  "safe E (s\<lparr>pending := p\<rparr>) \<longleftrightarrow> safe E s"
  "safe E (s\<lparr>running := b\<rparr>) \<longleftrightarrow> safe E s"
  "safe E (log_sign k h s) \<longleftrightarrow> safe E s"
  "(case io_send_sw E sw s of (r, s') \<Rightarrow> safe E s') \<longleftrightarrow> safe E s"
  by (simp_all add: safe_def io_simps set_defs log_sign_def)

lemma safe_union [simp]:
  "safe E (set_member Zeroed s)" "safe E (set_member (Pk_info p) s)" "safe E (set_member (Msg_info m) s)"
  "safe E (set_member (Tx_info t) s) \<longleftrightarrow> safe_tx E (transaction t)"
  by (simp_all add: safe_def set_defs safe_zero_tx)

lemma safe_ctx: "\<forall>t. member c \<noteq> Tx_info t \<Longrightarrow> safe E (set_ctx c s)"
  by (cases "member c") (simp_all add: safe_def set_defs safe_zero_tx)

lemma safe_signable:
  "safe_tx E tx \<Longrightarrow> wf_transaction (MAX_INPUT_COUNT E) tx \<Longrightarrow> signable tx"
  by (auto simp: safe_tx_def wf_transaction_def signable_def tx_ins_def tx_outs_def list_all_iff size_consts
      dest: in_set_takeD)

section \<open>The screens\<close>

lemma bad_state_fine: "safe E s \<Longrightarrow> fine E (bad_state E s)"
  by (simp add: bad_state_def)

lemma show_review_fine:
  "safe E s \<Longrightarrow> shown_texts g pairs = Some texts \<Longrightarrow> fine E (show_review r g pairs s)"
  by (simp add: show_review_def)

context device
begin

lemma display_address_fine:
  assumes "safe E s" and "length (bip32_path (G_context s)) = 5" and "unat (bip32_path_len (G_context s)) \<le> 5"
    and "pk_info (member (G_context s)) = Some p" and "length (raw_public_key p) = 64"
  shows "fine E (ui_display_address E s)"
proof -
  let ?c = "G_context s" and ?n = "if HAVE_NBGL E then 67 else 69"
  have nn: "?n \<in> {67, 69}" by simp
  obtain ok pt where f: "bip32_path_format (sdk_text E) (take (unat (bip32_path_len ?c)) (bip32_path ?c)) 60 = (ok, pt)"
    by (metis surj_pair)
  have mr: "mem_read (bip32_path ?c) 0 (unat (bip32_path_len ?c)) =
      Some (take (unat (bip32_path_len ?c)) (bip32_path ?c))"
    using assms(2,3) by (simp add: mem_read_Some)
  obtain out where a: "address_from_pubkey (raw_public_key p) SCHNORR (zeros ?n) ?n = Some (True, out)"
    using key_address [OF assms(5) nn] by blast
  show ?thesis
    using assms(1,4) f mr a bad_state_fine
    by (cases "HAVE_NBGL E") (simp_all add: ui_display_address_def bagl_ui_display_address_def
        nbgl_ui_display_address_def Let_def size_consts show_review_def)
qed

lemma display_transaction_fine:
  assumes "safe E s" and "tx_info (MAX_INPUT_COUNT E) (member (G_context s)) = Some t"
    and w: "wf_transaction (MAX_INPUT_COUNT E) (transaction t)"
  shows "fine E (ui_display_transaction E s)"
proof -
  let ?tx = "transaction t"
  have n: "length (tx_outputs ?tx) = 2" "length (tx_inputs ?tx) = MAX_INPUT_COUNT E"
    using w by (simp_all add: wf_transaction_def size_consts)
  have c: "tx_input_len ?tx \<le> MAX_INPUT_COUNT E" "tx_output_len ?tx \<le> 2"
    using assms(1,2) by (auto simp: safe_def safe_tx_def size_consts)
  have sc: "length (out_script_public_key (tx_outputs ?tx ! 0)) = 40"
    using wf_transaction_nth(2) [OF w, of 0] by (simp add: wf_output_def size_consts)
  have "\<exists>x. script_public_key_to_address (zeros 69) 69 (out_script_public_key (tx_outputs ?tx ! 0)) 40 = Some x"
    using script_address [of 40 "out_script_public_key (tx_outputs ?tx ! 0)" 69 "zeros 69"] sc by auto
  then obtain a b where addr: "script_public_key_to_address (zeros 69) 69
      (out_script_public_key (tx_outputs ?tx ! 0)) 40 = Some (a, b)" by (metis surj_pair)
  obtain ok v where v: "format_fpu64_trimmed (sdk_text E) 30 (out_value (tx_outputs ?tx ! 0)) EXPONENT_SMALLEST_UNIT = (ok, v)"
    by (metis surj_pair)
  obtain ok' w' where f: "format_fpu64_trimmed (sdk_text E) 30 (tx_fees ?tx) EXPONENT_SMALLEST_UNIT = (ok', w')"
    by (metis surj_pair)
  have a0: "arr_get (tx_outputs ?tx) 0 = Some (tx_outputs ?tx ! 0)" using n by (simp add: arr_get_def)
  have fees: "calc_fees (tx_inputs ?tx) (tx_input_len ?tx) (tx_outputs ?tx) (tx_output_len ?tx) = Some (tx_fees ?tx)"
    using fees_eq c n by simp
  show ?thesis
    using assms(1,2) v f a0 fees addr bad_state_fine
    by (cases "HAVE_NBGL E") (simp_all add: ui_display_transaction_def bagl_ui_display_transaction_def
        nbgl_ui_display_transaction_def Let_def size_consts show_review_def)
qed

text \<open>The room of the text buffer, beside its last byte.\<close>

lemma display_message_fine:
  assumes "safe E s" and "msg_info (member (G_context s)) = Some m" and "length (bip32_path (G_context s)) = 5"
    and "unat (bip32_path_len (G_context s)) \<le> 5" and "message_len m \<le> length (message m)"
    and "length (rendering (take (message_len m) (message m))) + 2 \<le>
      (if HAVE_NBGL E then MAX_MESSAGE_LEN E else MAX_MESSAGE_LEN E + 6)"
  shows "fine E (ui_display_message E s)"
proof -
  let ?c = "G_context s" and ?n = "if HAVE_NBGL E then MAX_MESSAGE_LEN E else MAX_MESSAGE_LEN E + 6"
  obtain ok pt where f: "bip32_path_format (sdk_text E) (take (unat (bip32_path_len ?c)) (bip32_path ?c)) 60 = (ok, pt)"
    by (metis surj_pair)
  have mr: "mem_read (bip32_path ?c) 0 (unat (bip32_path_len ?c)) =
      Some (take (unat (bip32_path_len ?c)) (bip32_path ?c))"
    using assms(3,4) by (simp add: mem_read_Some)
  obtain g where g: "format_message_to_sign (zeros ?n) ?n (message m) (message_len m) = Some g"
    using format_exact [OF assms(5,6)] by blast
  show ?thesis
    using assms(1,2) f mr g bad_state_fine
    by (cases "HAVE_NBGL E") (simp_all add: ui_display_message_def bagl_ui_display_message_def
        nbgl_ui_display_message_def Let_def show_review_def)
qed

end

section \<open>Commands\<close>

lemma debug_vectors:
  "length (fst (snd debug_vector_1)) = 32" "length (fst (snd debug_vector_2)) = 32"
  "length (fst (snd debug_vector_3)) = 32" "length (fst (snd debug_vector_4)) = 32"
  by (simp_all add: debug_vector_1_def debug_vector_2_def debug_vector_3_def debug_vector_4_def)

context device
begin

lemma debug_response_fine:
  assumes "safe E s" and "64 \<le> length sig"
  shows "fine E (debug_send_response_sig E sig s)"
proof -
  have z: "zeros 66 = 0 # zeros 65" by (simp add: zeros_def numeral_eq_Suc)
  show ?thesis using assms unfolding debug_send_response_sig_def z Let_def
    by (simp add: arr_put_mem_write mem_write_def mem_read_def)
qed

lemma debug_case_fine:
  assumes "safe E s" and "length (fst (snd v)) = 32"
  shows "fine E (do { (sig, s) \<leftarrow> debug_test_case E v (zeros 72) s; debug_send_response_sig E sig s })"
proof -
  obtain k a h where v: "v = (k, a, h)" by (cases v)
  have "safe E (log_test k h s)" using assms(1) by (simp add: safe_def log_test_def)
  then show ?thesis
    using assms v by (simp add: debug_test_case_def mem_write_Some debug_response_fine debug_sig_len)
qed

lemma plain_fine:
  assumes "safe E s"
  shows "fine E (handler_get_version E s)" "fine E (handler_get_app_name E s)" "fine E (handler_debug E n s)"
  using assms debug_case_fine [OF assms] debug_vectors
  by (simp_all add: handler_get_version_def handler_get_app_name_def handler_debug_def debug_vector_def Let_def)

lemma key_state_fine:
  assumes "length ws \<le> 5"
  shows "fine E (ui_display_address E (key_state E ws s))" "fine E (helper_send_response_pubkey E (key_state E ws s))"
proof -
  have sf: "safe E (key_state E ws s)" using key_state_facts(3) [of ws s] by (simp add: safe_def)
  have p: "length (bip32_path (G_context (key_state E ws s))) = 5"
    "unat (bip32_path_len (G_context (key_state E ws s))) \<le> 5"
    using assms by (simp_all add: key_state_def set_simps unat_of_nat)
  show "fine E (ui_display_address E (key_state E ws s))"
    using display_address_fine [OF sf p, of "\<lparr>raw_public_key = derived_key E ws, chain_code = derived_chain E ws\<rparr>"]
    by (simp add: key_state_facts)
  show "fine E (helper_send_response_pubkey E (key_state E ws s))"
    using response_pubkey_eq [of "key_state E ws s"] sf by (simp add: key_state_facts)
qed

lemma get_public_key_fine:
  assumes "valid_buffer b" and "rest b = [] \<or> unat (rest b ! 0) \<le> 5"
  shows "fine E (handler_get_public_key E b d s)"
proof (cases "rest b = [] \<or> rest b ! 0 = 0 \<or> length (tl (rest b)) < 4 * unat (rest b ! 0)")
  case True
  then have "rest b = [] \<or> rest b = hd (rest b) # tl (rest b) \<and> unat (hd (rest b)) \<le> 5 \<and>
      (hd (rest b) = 0 \<or> length (tl (rest b)) < 4 * unat (hd (rest b)))"
    using assms(2) by (cases "rest b") auto
  from get_public_key_short [OF assms(1) this, of d s] show ?thesis by (auto intro: safe_ctx)
next
  case False
  then obtain n bs where r: "rest b = n # bs" by (cases "rest b") auto
  then have n: "1 \<le> unat n" "unat n \<le> 5" "4 * unat n \<le> length bs"
    using False assms(2) by (auto simp: Suc_le_eq unat_gt_0)
  let ?ws = "be_words (unat n) bs"
  have "length ?ws \<le> 5" using n by simp
  note k = key_state_fine [OF this]
  show ?thesis using get_public_key_eq [OF assms(1) r n refl, of d s] k
    by (cases "pubkey_refusal E ?ws") (auto intro: safe_ctx)
qed

lemma sign_msg_fine:
  assumes "valid_buffer b" and "msg_refusal (MAX_MESSAGE_LEN E) (rest b) = None \<Longrightarrow> unat (rest b ! 9) \<le> 128 \<and>
      length (rendering (take (unat (rest b ! 9)) (drop 10 (rest b)))) + 2 \<le>
        (if HAVE_NBGL E then MAX_MESSAGE_LEN E else MAX_MESSAGE_LEN E + 6)"
  shows "fine E (handler_sign_msg E b s)"
proof (cases "msg_refusal (MAX_MESSAGE_LEN E) (rest b)")
  case (Some sw)
  then show ?thesis using sign_msg_eq [OF assms(1), of s] by (auto intro: safe_ctx)
next
  case None
  let ?d = "rest b" and ?s = "message_state (rest b) s" and ?m = "read_message (rest b)"
  note a = assms(2) [OF None]
  have n: "10 + unat (?d ! 9) \<le> length ?d" using None by (auto simp: msg_refusal_def split: if_splits)
  have m: "message_len ?m = unat (?d ! 9)" "length (message ?m) = 128"
    "take (unat (?d ! 9)) (message ?m) = take (unat (?d ! 9)) (drop 10 ?d)"
    using n a by (simp_all add: read_message_def)
  have c: "member (G_context ?s) = Msg_info ?m" "length (bip32_path (G_context ?s)) = 5"
    "bip32_path_len (G_context ?s) = 5"
    by (simp_all add: message_state_def Let_def set_simps message_path_def)
  have "fine E (ui_display_message E ?s)"
    by (rule display_message_fine [of _ ?m]) (use a m in \<open>simp_all add: c safe_def\<close>)
  then show ?thesis using sign_msg_eq [OF assms(1), of s] None a by simp
qed

end

section \<open>Transactions\<close>

lemma readable_known:
  assumes "known_script sc" and "out_script_public_key x = sc @ r"
  shows "readable_output x"
  using assms by (intro known_readable) (simp add: known_output_def Let_def script_len_append)

context buffer_api
begin

lemma output_deserialize_readable:
  assumes v: "valid_buffer b" and w: "wf_output x" and r: "readable_output x"
  shows "\<exists>b' x'. transaction_output_deserialize B b x = Some (output_status (rest b), b', x') \<and>
    wf_output x' \<and> readable_output x'"
proof -
  obtain b' x' where d: "transaction_output_deserialize B b x = Some (output_status (rest b), b', x')" "wf_output x'"
    using output_deserialize_status [OF v w] by blast
  let ?s = "drop 8 (rest b)"
  have same: "readable_output y" if "out_script_public_key y = out_script_public_key x" for y
    using r that by (simp add: readable_output_def)
  consider "length (rest b) < 8" | "8 \<le> length (rest b)" "known_script (take (script_len ?s) ?s)"
    | "8 \<le> length (rest b)" "\<not> known_script (take (script_len ?s) ?s)" by linarith
  then have "readable_output x'"
  proof cases
    case 1
    then obtain val b'' where "buffer_read_u64 B b (out_value x) BE = (False, val, b'')"
      using read_u64_short [OF v] by blast
    then show ?thesis using d(1) by (auto simp: transaction_output_deserialize_def intro: same)
  next
    case 2
    note split = append_take_drop_id [of "script_len ?s" ?s, symmetric]
    show ?thesis using output_deserialize_known [OF v w 2 split] d(1) readable_known [OF 2(2)] by auto
  next
    case 3
    show ?thesis using output_deserialize_unknown [OF v 3] d(1) by (auto intro: same)
  qed
  with d show ?thesis by blast
qed

lemma header_deserialize_counts:
  assumes v: "valid_buffer b" and p: "length path = 5" and h: "header_status n (rest b) = PARSING_OK"
  shows "\<exists>b' tx' path'. transaction_deserialize B n b tx path = Some (PARSING_OK, b', tx', path') \<and>
    tx_input_len tx' \<le> n \<and> tx_output_len tx' \<le> 2 \<and> tx_outputs tx' = tx_outputs tx"
proof -
  have f: "rest b ! 2 \<in> {1, 2}" "rest b ! 3 \<noteq> 0" "unat (rest b ! 3) \<le> n" "length (rest b) = 13"
    "rest b ! 4 \<in> {0, 1}" "0x80000000 \<le> (be_word (drop 9 (rest b)) :: u32)"
    using h by (auto simp: header_status_def split: if_splits)
  then have "13 \<le> length (rest b)" "0x80000000 \<le> (be_word (take 4 (drop 9 (rest b))) :: u32)" by simp_all
  from header_deserialize_full [OF v this(1) p f(1,2,3,5) this(2), of tx] f(1,3,4) show ?thesis by auto
qed

end

context device
begin

lemma sign_tx_header_fine:
  assumes "valid_buffer b" and "header_status (MAX_INPUT_COUNT E) (rest b) = PARSING_OK"
  shows "fine E (sign_tx_header E b s)"
proof -
  let ?n = "MAX_INPUT_COUNT E"
  have "length (bip32_path zero_ctx) = 5" by (simp add: zero_ctx_def size_consts)
  from header_deserialize_counts [OF assms(1) this assms(2), of "transaction (zero_tx ?n)"]
  obtain b' tx' p where d: "transaction_deserialize (sdk_buffer E) ?n b (transaction (zero_tx ?n))
      (bip32_path zero_ctx) = Some (PARSING_OK, b', tx', p)" and tx: "safe_tx E tx'"
    using safe_zero_tx [of E] by (auto simp: safe_tx_def size_consts)
  then show ?thesis
    by (simp add: sign_tx_header_def reset_ctx_def Let_def set_simps zero_ctx_simps) (simp add: safe_def set_defs)
qed

lemma safe_update_output:
  assumes "safe_tx E tx" and "readable_output x"
  shows "safe_tx E (tx\<lparr>tx_outputs := (tx_outputs tx)[i := x]\<rparr>)"
  using assms by (auto simp: safe_tx_def list_all_iff dest: set_update_subset_insert [THEN subsetD])

lemma sign_tx_output_fine:
  assumes "safe E s" and "safe_tx E (transaction t)" and "wf_tx_ctx (MAX_INPUT_COUNT E) t" and "valid_buffer b"
  shows "returns (sign_tx_output E b t s) (\<lambda>(g, r, s'). safe E s')"
proof (cases "expects_output t")
  case False
  moreover have "2 \<le> parsing_output_index t \<longleftrightarrow> \<not> unat (parsing_output_index t) < 2"
    by (simp add: word_le_nat_alt not_less)
  ultimately show ?thesis using assms(1)
    by (simp add: sign_tx_output_def u8_le expects_output_def size_consts)
next
  case True
  let ?i = "unat (parsing_output_index t)"
  have i: "?i < length (tx_outputs (transaction t))" "wf_output (tx_outputs (transaction t) ! ?i)"
    using assms(3) True wf_transaction_nth(2) by (auto simp: wf_tx_ctx_def wf_transaction_def expects_output_def size_consts)
  have "readable_output (tx_outputs (transaction t) ! ?i)"
    using assms(2) i(1) by (simp add: safe_tx_def list_all_length)
  from output_deserialize_readable [OF assms(4) i(2) this]
  obtain st b' x' where d: "transaction_output_deserialize (sdk_buffer E) b (tx_outputs (transaction t) ! ?i) =
      Some (st, b', x')" and x: "readable_output x'" by blast
  have "\<not> 2 \<le> parsing_output_index t" using True by (simp add: expects_output_def word_le_nat_alt)
  then show ?thesis using True i d safe_update_output [OF assms(2) x]
    by (simp add: sign_tx_output_def u8_le expects_output_def arr_get_Some Let_def size_consts)
qed

lemma sign_tx_input_fine:
  assumes "safe E s" and "safe_tx E (transaction t)" and "wf_tx_ctx (MAX_INPUT_COUNT E) t" and "valid_buffer b"
  shows "returns (sign_tx_input E b t s) (\<lambda>(g, r, s'). safe E s')"
proof (cases "expects_input E t")
  case False
  then show ?thesis using assms(1) sign_tx_input_reject by simp
next
  case True
  let ?i = "unat (parsing_input_index t)"
  have i: "?i < length (tx_inputs (transaction t))" "wf_input (tx_inputs (transaction t) ! ?i)"
    using assms(3) True wf_transaction_nth(1) by (auto simp: wf_tx_ctx_def wf_transaction_def expects_input_def)
  obtain st b' x' where d: "transaction_input_deserialize (sdk_buffer E) b (tx_inputs (transaction t) ! ?i) =
      Some (st, b', x')"
    using input_deserialize_status [OF assms(4) i(2)] by blast
  have "safe_tx E ((transaction t)\<lparr>tx_inputs := l\<rparr>)" for l using assms(2) by (simp add: safe_tx_def)
  moreover have "MAX_INPUT_COUNT E mod 256 = MAX_INPUT_COUNT E" using input_count(2) by simp
  ultimately show ?thesis using True i d
    by (simp add: sign_tx_input_def u8_le expects_input_def arr_get_Some Let_def)
qed

end

text \<open>The input that is signed next is an element of the input array.\<close>

definition index_fits :: "env \<Rightarrow> app \<Rightarrow> bool" where
  "index_fits E s \<longleftrightarrow> (case tx_info (MAX_INPUT_COUNT E) (member (G_context s)) of
     Some t \<Rightarrow> unat (signing_input_index t) < MAX_INPUT_COUNT E | None \<Rightarrow> True)"

lemma idle_tx_info:
  assumes "idle E s" and "req_type (G_context s) = CONFIRM_TRANSACTION"
  obtains t where "tx_info (MAX_INPUT_COUNT E) (member (G_context s)) = Some t"
    and "wf_tx_ctx (MAX_INPUT_COUNT E) t"
  using assms by (cases "member (G_context s)") (auto simp: idle_iff member_fits_def)

context device
begin

lemma review_transaction_fine:
  assumes "idle E s" and "safe E s" and m: "member (G_context s) = Tx_info t"
  shows "fine E (do {
         (valid, s) \<leftarrow> tx_validate_parsed_transaction E (transaction t) s;
         if \<not> valid then Some (io_send_sw E SW_TX_PARSING_FAIL s)
         else ui_display_transaction E (set_state STATE_PARSED s)
       })"
proof -
  have w: "wf_transaction (MAX_INPUT_COUNT E) (transaction t)" and p: "length (bip32_path (G_context s)) = 5"
    using assms(1) m by (auto simp: idle_iff wf_tx_ctx_def)
  have c: "tx_input_len (transaction t) \<le> MAX_INPUT_COUNT E" using assms(2) m by (simp add: safe_def safe_tx_def)
  obtain v s2 where v: "tx_validate_parsed_transaction E (transaction t) s = Some (v, s2)"
    and s2: "member (G_context s2) = Tx_info t"
    using tx_validate_decides [OF w c p] m by (auto simp: set_simps)
  have sf: "safe E s2" using assms(2) s2 m safe_member by metis
  have "fine E (ui_display_transaction E (set_state STATE_PARSED s2))"
    by (rule display_transaction_fine [OF _ _ w]) (simp_all add: sf s2 set_simps)
  then show ?thesis using v sf by simp
qed

lemma sign_tx_data_fine:
  assumes "idle E s" and "safe E s" and "valid_buffer b"
  shows "fine E (sign_tx_data E b ty has_more s)"
proof (cases "req_type (G_context s) = CONFIRM_TRANSACTION")
  case False
  then show ?thesis using assms(2) by (simp add: sign_tx_data_def)
next
  case True
  obtain t where t: "tx_info (MAX_INPUT_COUNT E) (member (G_context s)) = Some t" "wf_tx_ctx (MAX_INPUT_COUNT E) t"
    using idle_tx_info [OF assms(1) True] by blast
  have sf: "safe_tx E (transaction t)" using assms(2) t(1) by (simp add: safe_def)
  let ?m = "if ty = P1_OUTPUTS then sign_tx_output E b t s
      else if ty = P1_INPUTS then sign_tx_input E b t s
      else Some (False, io_send_sw E SW_WRONG_P1P2 s)"
  have "returns ?m (\<lambda>(g, r, s'). safe E s')"
    using sign_tx_output_fine [OF assms(2) sf t(2) assms(3)] sign_tx_input_fine [OF assms(2) sf t(2) assms(3)] assms(2)
    by simp
  then obtain g r s' where m: "?m = Some (g, r, s')" "safe E s'" by (auto simp: returns_def)
  have i: "g \<longrightarrow> idle E s' \<and> (\<exists>t'. member (G_context s') = Tx_info t')"
    using m(1) yieldsD [OF output_step_keeps [OF assms(1) t(1) True assms(3)]]
      yieldsD [OF input_step_keeps [OF assms(1) t(1) True assms(3)]] by (auto split: if_splits)
  show ?thesis
  proof (cases "g \<and> \<not> has_more")
    case False
    then show ?thesis using True t(1) m by (auto simp: sign_tx_data_def)
  next
    case g: True
    then obtain t' where t': "idle E s'" "member (G_context s') = Tx_info t'" using i by blast
    show ?thesis using review_transaction_fine [OF t'(1) m(2) t'(2)] True t(1) m(1) t'(2) g
      by (simp add: sign_tx_data_def)
  qed
qed

lemma crypto_sign_transaction_fine:
  assumes "idle E s" and "safe E s" and "req_type (G_context s) = CONFIRM_TRANSACTION" and "index_fits E s"
  shows "fine E (crypto_sign_transaction E s)"
proof -
  obtain t where t: "tx_info (MAX_INPUT_COUNT E) (member (G_context s)) = Some t" "wf_tx_ctx (MAX_INPUT_COUNT E) t"
    using idle_tx_info [OF assms(1,3)] by blast
  let ?tx = "transaction t" and ?i = "unat (signing_input_index t)"
  let ?in = "tx_inputs ?tx ! ?i"
  have sf: "safe_tx E ?tx" using assms(2) t(1) by (simp add: safe_def)
  have w: "wf_transaction (MAX_INPUT_COUNT E) ?tx" using t(2) by (simp add: wf_tx_ctx_def)
  have i: "?i < length (tx_inputs ?tx)" "wf_input ?in"
    using assms(4) t(1) w wf_transaction_nth(1) [OF w] by (auto simp: index_fits_def wf_transaction_def)
  have p: "length (bip32_path (G_context s)) = 5" using assms(1) by (simp add: idle_iff)
  obtain err key where key: "bip32_derive_init_privkey_256 (sdk_crypto E)
      (header_path (account ?tx) (ucast (in_address_type ?in)) (in_address_index ?in)) = (err, key)"
    by (metis surj_pair)
  obtain err' W where W: "cx_ecfp_generate_pair_no_throw (sdk_crypto E) key = (err', W)" by (metis surj_pair)
  have dig: "\<exists>h. calc_sighash (sdk_write E) ?tx ?in (drop (Suc 0) W) (zeros 32) 32 = Some (True, h)"
    using calc_sighash_correct [OF safe_signable [OF sf w] i(2), of "drop (Suc 0) W" 32 "zeros 32"] pair_len [OF W]
    by simp
  then obtain h where h: "calc_sighash (sdk_write E) ?tx ?in (drop (Suc 0) W) (zeros 32) 32 = Some (True, h)" ..
  obtain err'' sig where sig: "cx_ecschnorr_sign_no_throw (sdk_crypto E) (length (sign_log s)) key h = (err'', sig)"
    by (metis surj_pair)
  have mr: "mem_read (header_path a b c) 0 5 = Some (header_path a b c)" for a b c
    by (simp add: mem_read_Some)
  have s1: "safe E (set_ctx ((G_context s)\<lparr>bip32_path := q, bip32_path_len := 5\<rparr>) s)" for q
    using assms(2) safe_member [of "set_ctx ((G_context s)\<lparr>bip32_path := q, bip32_path_len := 5\<rparr>) s" s] by (simp add: set_simps)
  have log: "sign_log (set_member u (set_member u' (set_ctx c s))) = sign_log s" for u u' c by (simp add: set_defs)
  show ?thesis unfolding crypto_sign_transaction_def Let_def
    using sf by (simp add: mr t arr_get_Some i put_path_eq p key W h s1 log sig)
qed

lemma send_signature_fine:
  assumes "idle E s" and "safe E s" and "req_type (G_context s) = CONFIRM_TRANSACTION"
  shows "fine E (do {
      (_, s) \<leftarrow> helper_send_response_sig E s;
      t \<leftarrow> tx_info (MAX_INPUT_COUNT E) (member (G_context s));
      Some (r, set_member (Tx_info (t\<lparr>signing_input_index := signing_input_index t + 1\<rparr>)) s)
    })"
proof -
  obtain t where t: "tx_info (MAX_INPUT_COUNT E) (member (G_context s)) = Some t" "wf_tx_ctx (MAX_INPUT_COUNT E) t"
    using idle_tx_info [OF assms(1,3)] by blast
  then have "length (signature t) = 64" "length (sighash t) = 32" by (simp_all add: wf_tx_ctx_def)
  moreover have "safe_tx E (transaction t)" using assms(2) t(1) by (simp add: safe_def)
  ultimately show ?thesis using response_sig_eq [OF t(1)] t(1) by (simp add: io_simps)
qed

lemma sign_input_and_send_fine:
  assumes "idle E s" and "safe E s" and "req_type (G_context s) = CONFIRM_TRANSACTION" and "index_fits E s"
  shows "fine E (sign_input_and_send E s)"
proof -
  obtain err s1 where c: "crypto_sign_transaction E s = Some (err, s1)" "safe E s1"
    using fineD [OF crypto_sign_transaction_fine [OF assms]] by blast
  have "idle E s1" "req_type (G_context s1) = CONFIRM_TRANSACTION"
    using yieldsD [OF sign_transaction_keeps [OF assms(1,3)] c(1)] by auto
  from send_signature_fine [OF this(1) c(2) this(2)] show ?thesis
    using c by (simp add: sign_input_and_send_def)
qed

end

section \<open>Steps\<close>

text \<open>A message that fits the message area and whose rendering fits the text buffer.\<close>

definition message_fits :: "env \<Rightarrow> bytes \<Rightarrow> bool" where
  "message_fits E d \<longleftrightarrow> msg_refusal (MAX_MESSAGE_LEN E) d = None \<longrightarrow> unat (d ! 9) \<le> 128 \<and>
     length (rendering (take (unat (d ! 9)) (drop 10 d))) + 2 \<le>
       (if HAVE_NBGL E then MAX_MESSAGE_LEN E else MAX_MESSAGE_LEN E + 6)"

text \<open>
  The commands and choices the code is written for: paths of at most five words, headers that
  the parser accepts, messages that fit, and no signature asked for beyond the input array.
\<close>

definition proper_command :: "env \<Rightarrow> app \<Rightarrow> command_t \<Rightarrow> bool" where
  "proper_command E s c \<longleftrightarrow> (let d = rest (cmd_buffer c) in
     (ins c = 5 \<longrightarrow> d = [] \<or> unat (d ! 0) \<le> 5) \<and>
     (ins c = 6 \<and> p1 c = 0 \<longrightarrow> header_status (MAX_INPUT_COUNT E) d = PARSING_OK) \<and>
     (ins c = 6 \<and> p1 c = 3 \<longrightarrow> index_fits E s) \<and>
     (ins c = 7 \<longrightarrow> message_fits E d))"

fun proper :: "env \<Rightarrow> app \<Rightarrow> event \<Rightarrow> bool" where
  "proper E s (Received bs) \<longleftrightarrow> (case apdu_parser E bs of
     None \<Rightarrow> True
   | Some c \<Rightarrow> refusal E c = None \<longrightarrow> proper_command E s c)"
| "proper E s Receive_failed \<longleftrightarrow> True"
| "proper E s (Chosen choice) \<longleftrightarrow> choice \<longrightarrow> index_fits E s"

definition proper_step :: "env \<Rightarrow> app \<Rightarrow> event \<Rightarrow> app \<Rightarrow> bool" where
  "proper_step E s e s' \<longleftrightarrow> app_step E s e s' \<and> proper E s e"

lemma safe_zero_ctx: "safe E (set_ctx (zero_ctx\<lparr>state := st\<rparr>) s)"
  by (rule safe_ctx) (simp add: zero_ctx_def)

context device
begin

lemma handler_sign_tx_fine:
  assumes "idle E s" and "safe E s" and "valid_buffer b"
    and "ty = 0 \<Longrightarrow> header_status (MAX_INPUT_COUNT E) (rest b) = PARSING_OK" and "ty = 3 \<Longrightarrow> index_fits E s"
  shows "fine E (handler_sign_tx E b ty m s)"
  unfolding handler_sign_tx_def
proof (intro fine_if)
  assume "ty = 3" and "\<not> (req_type (G_context s) \<noteq> CONFIRM_TRANSACTION \<or> state (G_context s) \<noteq> STATE_APPROVED)"
  then show "fine E (do { (_, s) \<leftarrow> sign_input_and_send E s; Some (0, s) })"
    using fineD [OF sign_input_and_send_fine [OF assms(1,2)]] assms(5) by fastforce
qed (simp_all add: assms safe_zero_ctx sign_tx_header_fine sign_tx_data_fine)

lemma handle_fine:
  assumes "idle E s" and "safe E s" and v: "valid_buffer (cmd_buffer c)" and p: "proper_command E s c"
  shows "fine E (handle E c s)"
  unfolding handle_def
proof (intro fine_if)
  assume "ins c = 5"
  then show "fine E (handler_get_public_key E (cmd_buffer c) (p1 c = 1) s)"
    using p by (intro get_public_key_fine [OF v]) (simp add: proper_command_def Let_def)
next
  assume "ins c = 6"
  then show "fine E (handler_sign_tx E (cmd_buffer c) (p1 c) (p2 c = 0x80) s)"
    using p by (intro handler_sign_tx_fine [OF assms(1,2) v]) (simp_all add: proper_command_def Let_def)
next
  assume "ins c = 7"
  then show "fine E (handler_sign_msg E (cmd_buffer c) s)"
    using p by (intro sign_msg_fine [OF v]) (simp add: proper_command_def message_fits_def Let_def)
qed (simp_all add: plain_fine assms(2))

lemma round_fine:
  assumes "idle E s" and "safe E s" and "proper E s (Received bs)"
  shows "returns (app_main_round E bs s) (safe E)"
proof (cases "apdu_parser E bs")
  case None
  then show ?thesis using assms(2) by (simp add: app_main_round_def)
next
  case (Some c)
  have "fine E (apdu_dispatcher E c s)"
    using handle_fine [OF assms(1,2) cmd_buffer_valid [OF Some]] assms(2,3) Some
    by (simp add: dispatch_eq split: option.splits)
  from fineD [OF this] show ?thesis using Some by (auto simp: app_main_round_def)
qed

lemma validate_message_fine:
  assumes "safe E s" and m: "msg_ready (G_context s) m" and w: "length (message m) = 128" "length (message_hash m) = 32"
    "length (msg_signature m) = 64"
  shows "returns (validate_message E choice s) (safe E)"
proof (cases choice)
  case False
  then show ?thesis using assms(1) by (simp add: validate_message_def)
next
  case True
  let ?d = "message_digest (take (message_len m) (message m))"
  have h: "hash_personal_message (message m) (message_len m) (message_hash m) 32 = Some (True, ?d)"
    using m w by (simp add: hash_personal_message_eq msg_ready_def)
  have path: "mem_read (bip32_path (G_context s)) 0 (unat (bip32_path_len (G_context s))) = Some (message_path m)"
    using m by (simp add: msg_ready_def mem_read_def message_path_def)
  obtain err key where key: "bip32_derive_init_privkey_256 (sdk_crypto E) (message_path m) = (err, key)"
    by (metis surj_pair)
  obtain err' sig where sig: "cx_ecschnorr_sign_no_throw (sdk_crypto E) (length (sign_log s)) key ?d = (err', sig)"
    by (metis surj_pair)
  let ?m = "m\<lparr>message_hash := ?d, msg_signature := sig\<rparr>"
  let ?s = "log_sign key ?d (set_member (Msg_info ?m) (set_state STATE_APPROVED s))"
  have c: "crypto_sign_personal_message E (set_state STATE_APPROVED s) = Some (err', ?s)"
    using h path key sig m w by (simp add: crypto_sign_personal_message_def Let_def set_defs log_sign_def msg_ready_def)
  have "length ?d = 32" by (rule pw.digest_len)
  then have "helper_send_response_personal_message_sig E ?s =
      Some (io_send_response_pointer E (message_response sig ?d) SW_OK ?s)"
    using response_message_eq [of ?s ?m E] sig_len [OF sig] by (simp add: set_defs log_sign_def)
  then show ?thesis using True c by (simp add: validate_message_def io_simps) (simp add: safe_def set_defs log_sign_def)
qed

lemma choice_fine:
  assumes "app_inv E s" and "safe E s" and p: "pending s = Some (r, texts)" and "proper E s (Chosen choice)"
  shows "returns (review_choice E r choice s) (safe E)"
proof -
  let ?s = "s\<lparr>pending := None\<rparr>"
  have i: "idle E ?s" using assms(1) p by (simp add: app_inv_def idle_def)
  show ?thesis
  proof (cases r)
    case Review_Address
    then have "req_type (G_context s) = CONFIRM_ADDRESS" using assms(1) p by (simp add: app_inv_def pending_fits_def)
    then obtain k where "pk_info (member (G_context ?s)) = Some k" "length (raw_public_key k) = 64" "length (chain_code k) = 32"
      using i by (cases "member (G_context s)") (auto simp: idle_iff member_fits_def zero_pk_def)
    from response_pubkey_eq [OF this] show ?thesis
      using assms(2) Review_Address by (simp add: review_choice_def validate_pubkey_def Let_def io_simps) (simp add: safe_def)
  next
    case Review_Transaction
    have rq: "req_type (G_context s) = CONFIRM_TRANSACTION"
      using assms(1) p Review_Transaction by (simp add: app_inv_def pending_fits_def)
    have "fine E (sign_input_and_send E (set_state STATE_APPROVED ?s))" if choice
      by (rule sign_input_and_send_fine)
        (use i assms(2,4) rq that in \<open>simp_all add: idle_set_state set_simps index_fits_def\<close>)
    then show ?thesis
      using fineD [of E "sign_input_and_send E (set_state STATE_APPROVED ?s)"] assms(2) Review_Transaction
      by (cases choice) (auto simp: review_choice_def validate_transaction_eq validate_transaction_def [of _ False])
  next
    case Review_Message
    then obtain m where m: "msg_ready (G_context ?s) m" using assms(1) p by (auto simp: app_inv_def pending_fits_def)
    moreover have "length (message m) = 128" "length (message_hash m) = 32" "length (msg_signature m) = 64"
      using i m by (auto simp: idle_iff msg_ready_def)
    ultimately show ?thesis using validate_message_fine [of ?s m choice] assms(2) Review_Message
      by (simp add: review_choice_def Let_def)
  qed
qed

text \<open>An event that the interface allows: commands when nothing is on the screen, choices otherwise.\<close>

lemma step_fine:
  assumes "app_inv E s" and "safe E s" and "running s" and "proper E s e"
    and "(case e of Chosen c \<Rightarrow> pending s \<noteq> None | _ \<Rightarrow> pending s = None)"
  shows "returns (app_exec E s e) (safe E)"
proof (cases e)
  case (Received bs)
  have "idle E s" using assms(1,5) Received by (simp add: app_inv_def idle_def)
  from round_fine [OF this assms(2)] show ?thesis using assms(3-5) Received by (simp add: app_exec_def)
next
  case Receive_failed
  then show ?thesis using assms(2,3,5) by (simp add: app_exec_def)
next
  case (Chosen c)
  then obtain r texts where p: "pending s = Some (r, texts)" using assms(5) by auto
  from choice_fine [OF assms(1,2) p] show ?thesis using assms(3,4) Chosen p by (simp add: app_exec_def)
qed

lemma proper_step_safe:
  assumes "proper_step E s e s'" and "app_inv E s \<and> safe E s"
  shows "app_inv E s' \<and> safe E s'"
proof -
  have st: "app_step E s e s'" "proper E s e" using assms(1) by (simp_all add: proper_step_def)
  then have "running s" "(case e of Chosen c \<Rightarrow> pending s \<noteq> None | _ \<Rightarrow> pending s = None)"
    by (auto elim: step_cases)
  from step_fine [OF _ _ this(1) st(2) this(2)] assms(2) st(1) have "safe E s'"
    by (auto simp: returns_def app_exec_iff [symmetric])
  then show ?thesis using app.inv_step [OF st(1)] assms(2) by blast
qed

lemma start_safe: "app_inv E app_main_start \<and> safe E app_main_start"
  using start_inv by (simp add: app_main_start_def safe_def zero_ctx_def safe_zero_tx)

end

sublocale device \<subseteq> proper_app: invariant_system "proper_step E" app_main_start "\<lambda>s. app_inv E s \<and> safe E s"
  by unfold_locales (rule start_safe, rule proper_step_safe)

context device
begin

lemma run_proper: "run (proper_step E) app_main_start es s \<Longrightarrow> app_inv E s \<and> safe E s"
  by (rule proper_app.run_inv)

end

section \<open>Properties\<close>

text \<open>C11. No undefined behaviour: in every state that proper commands and choices reach (paths of at
  most five words, headers the parser accepts, messages that fit the message area and the text
  buffer, no signature asked for beyond the input array), every further proper command and every
  choice has a result: no access leaves its array, no member of the union is read in place of
  another, no page shows a buffer that was not filled.\<close>

theorem no_undefined_behaviour:
  assumes "device E" and "run (proper_step E) app_main_start es s" and "running s" and "proper E s e"
    and "(case e of Chosen c \<Rightarrow> pending s \<noteq> None | _ \<Rightarrow> pending s = None)"
  shows "\<exists>s'. app_step E s e s'"
  using device.step_fine [OF assms(1) _ _ assms(3-5)] device.run_proper [OF assms(1,2)]
  by (auto simp: returns_def app_exec_iff)

theorem no_undefined_behaviour_witness:
  "run (proper_step std_env) app_main_start [Received ex_message] ex_msg_state \<and>
   (\<exists>s'. app_step std_env ex_msg_state (Chosen True) s')"
proof -
  have "proper std_env app_main_start (Received ex_message)" by code_simp
  moreover have "app_step std_env app_main_start (Received ex_message) ex_msg_state"
    using ex_msg_received by (simp add: bind_eq_Some_conv app_exec_iff)
  ultimately have r: "run (proper_step std_env) app_main_start [Received ex_message] ex_msg_state"
    by (intro run_one) (simp add: proper_step_def)
  have "proper std_env ex_msg_state (Chosen True)" using ex_msg_facts(2) by (simp add: index_fits_def)
  from no_undefined_behaviour [OF std_device r ex_msg_facts(3) this] show ?thesis
    using r ex_msg_facts(1) by simp
qed

end
