(* ===== verification/Screens.thy ===== *)
theory Screens
  imports App_Safety
begin

text \<open>
  The user interface around the requests: the menus of \<open>src/ui/menu_bagl.c\<close> and
  \<open>src/ui/menu_nbgl.c\<close>, the buttons of the review flows of \<open>src/ui/bagl_display.c\<close>, and the
  pages, callbacks and status pages of \<open>src/ui/nbgl_display_*.c\<close>. Which page is in view and
  how the user moves between pages is the SDK; the events are the press of a step's button on
  one family, and the result of a review, the end of a status page and the quit button on the
  other. Every run of this interface is a run of the application in which the user's choices
  are the presses of the approve and reject buttons.
\<close>

section \<open>menu_bagl.c\<close>

text \<open>The version text of the build: the three numbers in decimal, with dots.\<close>

fun decimal :: "nat \<Rightarrow> bytes" where
  "decimal n = (if n < 10 then [word_of_nat (48 + n)] else decimal (n div 10) @ [word_of_nat (48 + n mod 10)])"

declare decimal.simps [simp del]

definition version_text :: "env \<Rightarrow> bytes" where
  "version_text E = decimal (unat (APPVERSION E ! 0)) @ c_bytes ''.'' @
     decimal (unat (APPVERSION E ! 1)) @ c_bytes ''.'' @ decimal (unat (APPVERSION E ! 2))"

definition ux_menu_ready_step :: "env \<Rightarrow> ux_step" where
  "ux_menu_ready_step E = Step_nocb [APPNAME E, c_bytes ''is ready'']"

definition ux_menu_version_step :: "env \<Rightarrow> ux_step" where
  "ux_menu_version_step E = Step_nocb [c_bytes ''Version'', version_text E]"

definition ux_menu_about_step :: ux_step where
  "ux_menu_about_step = Step_cb ''About'' Cb_menu_about"

definition ux_menu_exit_step :: ux_step where
  "ux_menu_exit_step = Step_cb ''Quit'' Cb_exit"

definition ux_menu_main_flow :: "env \<Rightarrow> ux_step list" where
  "ux_menu_main_flow E =
     [ux_menu_ready_step E, ux_menu_version_step E, ux_menu_about_step, ux_menu_exit_step]"

definition ux_menu_info_step :: ux_step where
  "ux_menu_info_step = Step_nocb [c_bytes ''Kaspa App'', c_bytes ''(c) 2023 coderofstuff'']"

definition ux_menu_back_step :: ux_step where
  "ux_menu_back_step = Step_cb ''Back'' Cb_menu_main"

definition ux_menu_about_flow :: "ux_step list" where
  "ux_menu_about_flow = [ux_menu_info_step, ux_menu_back_step]"

lemmas ux_menus = ux_menu_main_flow_def ux_menu_about_flow_def ux_menu_ready_step_def
  ux_menu_version_step_def ux_menu_about_step_def ux_menu_exit_step_def ux_menu_info_step_def
  ux_menu_back_step_def

section \<open>The pages of the other family\<close>

datatype status_e =
    STATUS_TYPE_ADDRESS_VERIFIED
  | STATUS_TYPE_ADDRESS_REJECTED
  | STATUS_TYPE_TRANSACTION_SIGNED
  | STATUS_TYPE_TRANSACTION_REJECTED
  | STATUS_TYPE_MESSAGE_SIGNED
  | STATUS_TYPE_MESSAGE_REJECTED

text \<open>What is below the requests: a menu, or the status page after a decision.\<close>

datatype screen = Menu_main | Menu_about | Status status_e

text \<open>The application with its interface; \<open>closed\<close> once \<open>os_sched_exit\<close> was called.\<close>

record ui =
  ui_app :: app
  ui_screen :: screen
  closed :: bool

definition ui_menu_main :: "ui \<Rightarrow> ui" where
  "ui_menu_main u = u\<lparr>ui_screen := Menu_main\<rparr>"

definition ui_menu_about :: "ui \<Rightarrow> ui" where
  "ui_menu_about u = u\<lparr>ui_screen := Menu_about\<rparr>"

definition app_quit :: "ui \<Rightarrow> ui" where
  "app_quit u = u\<lparr>closed := True\<rparr>"

text \<open>The home page: name, and the titles and texts of its information list.\<close>

definition nbgl_home :: "env \<Rightarrow> bytes \<times> (string \<times> bytes) list" where
  "nbgl_home E = (APPNAME E, [(''Version'', version_text E), (''Developer'', c_bytes ''coderofstuff'')])"

text \<open>The callbacks: decide, and show a status page that ends in the home page.\<close>

definition nbgl_address_choice :: "env \<Rightarrow> bool \<Rightarrow> ui \<Rightarrow> ui option" where
  "nbgl_address_choice E confirm u = do {
     s \<leftarrow> validate_pubkey E confirm ((ui_app u)\<lparr>pending := None\<rparr>);
     Some (u\<lparr>ui_app := s, ui_screen :=
       Status (if confirm then STATUS_TYPE_ADDRESS_VERIFIED else STATUS_TYPE_ADDRESS_REJECTED)\<rparr>)
   }"

definition nbgl_transaction_choice :: "env \<Rightarrow> bool \<Rightarrow> ui \<Rightarrow> ui option" where
  "nbgl_transaction_choice E confirm u = do {
     s \<leftarrow> validate_transaction E confirm ((ui_app u)\<lparr>pending := None\<rparr>);
     Some (u\<lparr>ui_app := s, ui_screen :=
       Status (if confirm then STATUS_TYPE_TRANSACTION_SIGNED else STATUS_TYPE_TRANSACTION_REJECTED)\<rparr>)
   }"

definition nbgl_message_choice :: "env \<Rightarrow> bool \<Rightarrow> ui \<Rightarrow> ui option" where
  "nbgl_message_choice E confirm u = do {
     s \<leftarrow> validate_message E confirm ((ui_app u)\<lparr>pending := None\<rparr>);
     Some (u\<lparr>ui_app := s, ui_screen :=
       Status (if confirm then STATUS_TYPE_MESSAGE_SIGNED else STATUS_TYPE_MESSAGE_REJECTED)\<rparr>)
   }"

fun nbgl_choice :: "env \<Rightarrow> review_e \<Rightarrow> bool \<Rightarrow> ui \<Rightarrow> ui option" where
  "nbgl_choice E Review_Address = nbgl_address_choice E"
| "nbgl_choice E Review_Transaction = nbgl_transaction_choice E"
| "nbgl_choice E Review_Message = nbgl_message_choice E"

section \<open>The buttons\<close>

fun review_flow :: "review_e \<Rightarrow> ux_step list" where
  "review_flow Review_Address = ux_display_pubkey_flow"
| "review_flow Review_Transaction = ux_display_transaction_flow"
| "review_flow Review_Message = ux_display_message_flow"

definition bagl_flow :: "env \<Rightarrow> ui \<Rightarrow> ux_step list" where
  "bagl_flow E u =
     (case pending (ui_app u) of
        Some (r, texts) \<Rightarrow> review_flow r
      | None \<Rightarrow> if ui_screen u = Menu_about then ux_menu_about_flow else ux_menu_main_flow E)"

text \<open>The callbacks of the flows: decide, and go back to the main menu.\<close>

definition ui_action_validate_pubkey :: "env \<Rightarrow> bool \<Rightarrow> ui \<Rightarrow> ui option" where
  "ui_action_validate_pubkey E choice u = do {
     s \<leftarrow> validate_pubkey E choice ((ui_app u)\<lparr>pending := None\<rparr>);
     Some (ui_menu_main (u\<lparr>ui_app := s\<rparr>))
   }"

definition ui_action_validate_transaction :: "env \<Rightarrow> bool \<Rightarrow> ui \<Rightarrow> ui option" where
  "ui_action_validate_transaction E choice u = do {
     s \<leftarrow> validate_transaction E choice ((ui_app u)\<lparr>pending := None\<rparr>);
     Some (ui_menu_main (u\<lparr>ui_app := s\<rparr>))
   }"

definition ui_action_validate_message :: "env \<Rightarrow> bool \<Rightarrow> ui \<Rightarrow> ui option" where
  "ui_action_validate_message E choice u = do {
     s \<leftarrow> validate_message E choice ((ui_app u)\<lparr>pending := None\<rparr>);
     Some (ui_menu_main (u\<lparr>ui_app := s\<rparr>))
   }"

text \<open>The callback that the display functions put into \<open>g_validate_callback\<close>.\<close>

fun g_validate_callback :: "env \<Rightarrow> review_e \<Rightarrow> bool \<Rightarrow> ui \<Rightarrow> ui option" where
  "g_validate_callback E Review_Address = ui_action_validate_pubkey E"
| "g_validate_callback E Review_Transaction = ui_action_validate_transaction E"
| "g_validate_callback E Review_Message = ui_action_validate_message E"

fun bagl_callback :: "env \<Rightarrow> ux_callback \<Rightarrow> ui \<Rightarrow> ui option" where
  "bagl_callback E (Cb_choice choice) u =
     (case pending (ui_app u) of
        Some (r, texts) \<Rightarrow> g_validate_callback E r choice u
      | None \<Rightarrow> None)"
| "bagl_callback E Cb_menu_main u = Some (ui_menu_main u)"
| "bagl_callback E Cb_menu_about u = Some (ui_menu_about u)"
| "bagl_callback E Cb_exit u = Some (app_quit u)"

definition bagl_press :: "env \<Rightarrow> nat \<Rightarrow> ui \<Rightarrow> ui option" where
  "bagl_press E i u =
     (if i < length (bagl_flow E u)
      then case bagl_flow E u ! i of Step_cb label cb \<Rightarrow> bagl_callback E cb u | _ \<Rightarrow> Some u
      else None)"

section \<open>The interface as a transition system\<close>

datatype ui_event =
    Apdu bytes
  | Apdu_failed
  | Pressed nat
  | Confirmed bool
  | Status_end
  | Quit_pressed

definition ui_exec :: "env \<Rightarrow> ui \<Rightarrow> ui_event \<Rightarrow> ui option" where
  "ui_exec E u e =
     (if closed u \<or> \<not> running (ui_app u) then None
      else case e of
        Apdu bs \<Rightarrow> do { s \<leftarrow> app_exec E (ui_app u) (Received bs); Some (u\<lparr>ui_app := s\<rparr>) }
      | Apdu_failed \<Rightarrow> do { s \<leftarrow> app_exec E (ui_app u) Receive_failed; Some (u\<lparr>ui_app := s\<rparr>) }
      | Pressed i \<Rightarrow> if HAVE_NBGL E then None else bagl_press E i u
      | Confirmed c \<Rightarrow>
          if HAVE_NBGL E then
            (case pending (ui_app u) of Some (r, texts) \<Rightarrow> nbgl_choice E r c u | None \<Rightarrow> None)
          else None
      | Status_end \<Rightarrow>
          if HAVE_NBGL E then
            (case ui_screen u of Status st \<Rightarrow> Some (ui_menu_main u) | _ \<Rightarrow> None)
          else None
      | Quit_pressed \<Rightarrow>
          if HAVE_NBGL E \<and> pending (ui_app u) = None \<and> ui_screen u = Menu_main
          then Some (app_quit u) else None)"

definition ui_step :: "env \<Rightarrow> ui \<Rightarrow> ui_event \<Rightarrow> ui \<Rightarrow> bool" where
  "ui_step E u e u' \<longleftrightarrow> ui_exec E u e = Some u'"

definition ui_start :: ui where
  "ui_start = ui_menu_main \<lparr>ui_app = app_main_start, ui_screen = Menu_main, closed = False\<rparr>"

text \<open>The user approves: the button of the approve step, or the confirmation of the review.\<close>

definition button :: "env \<Rightarrow> ui \<Rightarrow> nat \<Rightarrow> ux_callback option" where
  "button E u i = (if i < length (bagl_flow E u)
     then case bagl_flow E u ! i of Step_cb label cb \<Rightarrow> Some cb | _ \<Rightarrow> None else None)"

text \<open>The application's event in an event of the interface.\<close>

fun app_event :: "env \<Rightarrow> ui \<Rightarrow> ui_event \<Rightarrow> event option" where
  "app_event E u (Apdu bs) = Some (Received bs)"
| "app_event E u Apdu_failed = Some Receive_failed"
| "app_event E u (Pressed i) = (case button E u i of Some (Cb_choice c) \<Rightarrow> Some (Chosen c) | _ \<Rightarrow> None)"
| "app_event E u (Confirmed c) = Some (Chosen c)"
| "app_event E u Status_end = None"
| "app_event E u Quit_pressed = None"

lemma press_button:
  "bagl_press E i u = Some u' \<Longrightarrow>
   (case button E u i of None \<Rightarrow> u' = u | Some cb \<Rightarrow> bagl_callback E cb u = Some u')"
  by (auto simp: bagl_press_def button_def split: if_splits ux_step.splits)

text \<open>The callbacks of both families decide as \<open>review_choice\<close> does.\<close>

lemma validate_callback_app: "g_validate_callback E r c u = Some u' \<Longrightarrow> review_choice E r c (ui_app u) = Some (ui_app u')"
  by (cases r) (auto simp: ui_action_validate_pubkey_def ui_action_validate_transaction_def
      ui_action_validate_message_def review_choice_def ui_menu_main_def bind_eq_Some_conv)

lemma nbgl_choice_app: "nbgl_choice E r c u = Some u' \<Longrightarrow> review_choice E r c (ui_app u) = Some (ui_app u')"
  by (cases r) (auto simp: nbgl_address_choice_def nbgl_transaction_choice_def nbgl_message_choice_def
      review_choice_def bind_eq_Some_conv)

lemmas ui_simps = ui_menu_main_def ui_menu_about_def app_quit_def

lemma ui_step_idle: "ui_step E u f u' \<Longrightarrow> app_event E u f = None \<Longrightarrow> ui_app u' = ui_app u"
  by (cases f)
    (auto simp: ui_step_def ui_exec_def ui_simps dest!: press_button
      split: if_splits option.splits ux_callback.splits screen.splits)

lemma ui_step_app: "ui_step E u f u' \<Longrightarrow> app_event E u f = Some e \<Longrightarrow> app_step E (ui_app u) e (ui_app u')"
  by (cases f)
    (auto simp: ui_step_def ui_exec_def app_exec_iff bind_eq_Some_conv app_step.simps
      dest!: press_button validate_callback_app nbgl_choice_app split: if_splits option.splits ux_callback.splits)

interpretation ui_sim: simulation "ui_step E" ui_start "app_step E" app_main_start ui_app "app_event E" for E
  by unfold_locales (simp_all add: ui_start_def ui_menu_main_def ui_step_idle ui_step_app)

section \<open>Properties\<close>

text \<open>The approval as the user gives it.\<close>

definition approves_on_screen :: "env \<Rightarrow> ui \<Rightarrow> ui_event \<Rightarrow> bool" where
  "approves_on_screen E u f \<longleftrightarrow>
     (\<exists>r texts. pending (ui_app u) = Some (r, texts) \<and> r \<noteq> Review_Address \<and>
        (if HAVE_NBGL E then f = Confirmed True
         else \<exists>i. f = Pressed i \<and> i < length (review_flow r) \<and>
           review_flow r ! i = ux_display_approve_step))"

lemma flow_choice:
  "st \<in> set (review_flow r) \<Longrightarrow> st = Step_cb l (Cb_choice True) \<Longrightarrow> st = ux_display_approve_step"
  by (cases r) (auto simp: ux_flows ux_steps)

lemma menu_choice: "Step_cb l (Cb_choice c) \<notin> set (ux_menu_main_flow E)"
  "Step_cb l (Cb_choice c) \<notin> set ux_menu_about_flow"
  by (simp_all add: ux_menus)

lemma button_choice:
  assumes "button E u i = Some (Cb_choice True)"
  shows "\<exists>r texts. pending (ui_app u) = Some (r, texts) \<and> i < length (review_flow r) \<and>
    review_flow r ! i = ux_display_approve_step"
proof -
  obtain l where i: "i < length (bagl_flow E u)" "bagl_flow E u ! i = Step_cb l (Cb_choice True)"
    using assms by (auto simp: button_def split: if_splits ux_step.splits)
  then have m: "Step_cb l (Cb_choice True) \<in> set (bagl_flow E u)" by (metis nth_mem)
  then obtain r texts where p: "pending (ui_app u) = Some (r, texts)"
    using menu_choice by (auto simp: bagl_flow_def split: option.splits if_splits)
  then show ?thesis using i m flow_choice [of "review_flow r ! i" r l] by (auto simp: bagl_flow_def)
qed

lemma approves_screen:
  assumes "ui_step E u f u'" and "app_event E u f = Some e" and "approves (ui_app u) e r texts"
    and "r \<noteq> Review_Address"
  shows "approves_on_screen E u f"
  using assms button_choice [of E u]
  by (cases f) (auto simp: approves_def approves_on_screen_def ui_step_def ui_exec_def
      split: if_splits option.splits ux_callback.splits)

context device
begin

lemma ui_signs:
  assumes "run (ui_step E) ui_start fs u" and st: "ui_step E u f u'"
  shows "sign_log (ui_app u') = sign_log (ui_app u) \<and> test_log (ui_app u') = test_log (ui_app u) \<or>
    (\<exists>kh. sign_log (ui_app u') = sign_log (ui_app u) @ [kh]) \<and> test_log (ui_app u') = test_log (ui_app u) \<and>
      (approves_on_screen E u f \<or> (\<exists>bs. f = Apdu bs \<and> asks_next E (ui_app u) (Received bs))) \<or>
    (\<exists>bs n. f = Apdu bs \<and> asks_test E (Received bs) n \<and> sign_log (ui_app u') = sign_log (ui_app u) \<and>
      test_log (ui_app u') = test_log (ui_app u) @ [test_call n])"
proof (cases "app_event E u f")
  case None
  then show ?thesis using ui_step_idle [OF st] by simp
next
  case (Some e)
  obtain es where r: "run (app_step E) app_main_start es (ui_app u)"
    using ui_sim.sim_run [OF assms(1)] by blast
  have asked: "\<exists>bs. f = Apdu bs \<and> e = Received bs" if "asks_next E (ui_app u) e \<or> asks_test E e n" for n
    using that Some by (cases f) (auto simp: asks_next_def asks_test_def split: option.splits ux_callback.splits)
  from run_step_calls [OF r ui_step_app [OF st Some]] show ?thesis
  proof (elim disjE exE conjE)
    fix n assume t: "sign_log (ui_app u') = sign_log (ui_app u)"
      "test_log (ui_app u') = test_log (ui_app u) @ [test_call n]" "asks_test E e n"
    then obtain bs where "f = Apdu bs" "e = Received bs" using asked by blast
    with t show ?thesis by blast
  qed (use approves_screen [OF st Some] asked in blast)+
qed

end

text \<open>C12. The interface refines the application: every run of the screens, menus and buttons is, as
  far as the application is concerned, a run of commands and choices, no longer than the run of
  the interface; and a step of the interface makes a signing call of \<open>crypto.c\<close> only when the
  user presses the step titled Approve in the flow of a transaction or message (or confirms its
  review, on the other family of devices), or when the command for the next signature of an
  approved transaction arrives. The only other signing call is that of a test case, with
  constants for key and message, on a debug command in builds that have it. The menus, the
  reject step and the status pages never sign.\<close>

theorem screens_refine:
  assumes "device E" and "run (ui_step E) ui_start fs u"
  shows "(\<exists>es. run (app_step E) app_main_start es (ui_app u) \<and> length es \<le> length fs) \<and>
    (\<forall>f u'. ui_step E u f u' \<longrightarrow>
      sign_log (ui_app u') = sign_log (ui_app u) \<and> test_log (ui_app u') = test_log (ui_app u) \<or>
      (\<exists>kh. sign_log (ui_app u') = sign_log (ui_app u) @ [kh]) \<and> test_log (ui_app u') = test_log (ui_app u) \<and>
        (approves_on_screen E u f \<or> (\<exists>bs. f = Apdu bs \<and> asks_next E (ui_app u) (Received bs))) \<or>
      (\<exists>bs n. f = Apdu bs \<and> asks_test E (Received bs) n \<and> sign_log (ui_app u') = sign_log (ui_app u) \<and>
        test_log (ui_app u') = test_log (ui_app u) @ [test_call n]))"
  using ui_sim.sim_run [OF assms(2)] device.ui_signs [OF assms] by blast

theorem screens_refine_witness:
  "\<exists>u u'. run (ui_step std_env) ui_start [Apdu ex_message] u \<and> ui_step std_env u (Pressed 3) u' \<and>
     (\<exists>kh. sign_log (ui_app u') = [kh]) \<and> approves_on_screen std_env u (Pressed 3)"
proof -
  let ?u = "ui_start\<lparr>ui_app := ex_msg_state\<rparr>"
  obtain s' where s': "app_step std_env ex_msg_state (Chosen True) s'" "sign_log s' \<noteq> []"
    using ex_msg_step by auto
  have n: "\<not> HAVE_NBGL std_env" by (simp add: std_env_def)
  have m: "app_exec std_env app_main_start (Received ex_message) = Some ex_msg_state"
    using ex_msg_received by (simp add: bind_eq_Some_conv)
  have "ui_step std_env ui_start (Apdu ex_message) ?u"
    using m by (simp add: ui_step_def ui_exec_def ui_start_def ui_menu_main_def app_main_start_def)
  then have r: "run (ui_step std_env) ui_start [Apdu ex_message] ?u" by (rule run_one)
  have "review_choice std_env Review_Message True ex_msg_state = Some s'"
    using s'(1) ex_msg_facts(1) by (auto elim: chosen_cases)
  then have st: "ui_step std_env ?u (Pressed 3) (ui_menu_main (?u\<lparr>ui_app := s'\<rparr>))"
    using ex_msg_facts n by (simp add: ui_step_def ui_exec_def bagl_press_def bagl_flow_def ux_flows ux_steps
        ui_action_validate_message_def review_choice_def ui_start_def ui_menu_main_def)
  have no_test: "\<not> asks_test std_env e k" for e k by (simp add: asks_test_def std_env_def)
  have "sign_log (ui_app (ui_menu_main (?u\<lparr>ui_app := s'\<rparr>))) \<noteq> sign_log (ui_app ?u)"
    using s'(2) ex_msg_facts(4) by (simp add: ui_menu_main_def)
  then have "(\<exists>kh. sign_log (ui_app (ui_menu_main (?u\<lparr>ui_app := s'\<rparr>))) = sign_log (ui_app ?u) @ [kh])"
    and "approves_on_screen std_env ?u (Pressed 3)"
    using screens_refine [OF std_device r] st no_test by fastforce+
  then show ?thesis using r st ex_msg_facts(4) by fastforce
qed

end
