(* ===== verification/Fuzz.thy ===== *)
theory Fuzz
  imports Wire
begin

text \<open>
  The fuzzing harnesses of \<open>src/fuzzing\<close>: each parses the given bytes into a zeroed structure
  and, when the parser accepts, formats the fields into local buffers. The formatting functions
  of the SDK are parameters: they return a verdict and the content of the destination, whose
  size is given. The result is the harness's return value and its buffers at that point;
  no input makes a parser or a harness leave its arrays.
\<close>

record format_ops =
  format_u64 :: "nat \<Rightarrow> u64 \<Rightarrow> bool \<times> bytes"
  format_hex :: "bytes \<Rightarrow> nat \<Rightarrow> int \<times> bytes"

definition fuzz_tx_parser ::
  "format_ops \<Rightarrow> buffer_ops \<Rightarrow> nat \<Rightarrow> u32 list \<Rightarrow> bytes \<Rightarrow> (int \<times> bytes list) option" where
  "fuzz_tx_parser F B max_inputs bip32_path data = do {
     let buf = \<lparr>ptr = data, bsize = length data, offset = 0\<rparr>;
     (status, _, tx, _) \<leftarrow> transaction_deserialize B max_inputs buf (zero_transaction max_inputs) bip32_path;
     if status = PARSING_OK then do {
       let (_, version_text) = format_u64 F 3 (ucast (version tx));
       let (_, output_text) = format_u64 F 3 (word_of_nat (tx_output_len tx));
       let (_, input_text) = format_u64 F 3 (word_of_nat (tx_input_len tx));
       Some (0, [version_text, input_text, output_text])
     } else Some (0, [zeros 3, zeros 3, zeros 3])
   }"

definition fuzz_txin_parser :: "format_ops \<Rightarrow> buffer_ops \<Rightarrow> bytes \<Rightarrow> (int \<times> bytes list) option" where
  "fuzz_txin_parser F B data = do {
     let buf = \<lparr>ptr = data, bsize = length data, offset = 0\<rparr>;
     (status, _, txin) \<leftarrow> transaction_input_deserialize B buf zero_input;
     if status = PARSING_OK then do {
       let (_, address_type) = format_u64 F 2 (ucast (in_address_type txin));
       let (_, address_index) = format_u64 F 5 (ucast (in_address_index txin));
       let (_, sequence) = format_u64 F 9 (in_sequence txin);
       let (_, val) = format_u64 F 9 (in_value txin);
       d \<leftarrow> mem_read (in_tx_id txin) 0 32;
       let (_, tx_id) = format_hex F d 33;
       let (_, index) = format_u64 F 2 (ucast (in_index txin));
       Some (0, [address_type, address_index, sequence, val, tx_id, index])
     } else Some (0, [zeros 2, zeros 5, zeros 9, zeros 9, zeros 33, zeros 2])
   }"

definition fuzz_txout_parser :: "format_ops \<Rightarrow> buffer_ops \<Rightarrow> bytes \<Rightarrow> (int \<times> bytes list) option" where
  "fuzz_txout_parser F B data = do {
     let buf = \<lparr>ptr = data, bsize = length data, offset = 0\<rparr>;
     (status, _, txout) \<leftarrow> transaction_output_deserialize B buf zero_output;
     if status = PARSING_OK then do {
       let (_, val) = format_u64 F 9 (out_value txout);
       d \<leftarrow> mem_read (out_script_public_key txout) 0 35;
       let (_, script_public_key) = format_hex F d 36;
       Some (0, [val, script_public_key])
     } else Some (0, [zeros 9, zeros 36])
   }"

context buffer_api
begin

lemma fuzz_buffer: "valid_buffer \<lparr>ptr = data, bsize = length data, offset = 0\<rparr>"
  by (simp add: valid_buffer_def)

lemma fuzz_tx_returns:
  assumes "length path = 5"
  shows "\<exists>texts. fuzz_tx_parser F B n path data = Some (0, texts)"
  using header_deserialize_status [OF fuzz_buffer assms wf_zero(3), of n data]
  by (auto simp: fuzz_tx_parser_def split: prod.splits)

lemma fuzz_txin_returns: "\<exists>texts. fuzz_txin_parser F B data = Some (0, texts)"
  using input_deserialize_status [OF fuzz_buffer wf_zero(1), of data]
  by (auto simp: fuzz_txin_parser_def mem_read_Some wf_input_def split: prod.splits)

lemma fuzz_txout_returns: "\<exists>texts. fuzz_txout_parser F B data = Some (0, texts)"
  using output_deserialize_status [OF fuzz_buffer wf_zero(2), of data]
  by (auto simp: fuzz_txout_parser_def mem_read_Some wf_output_def size_consts split: prod.splits)

end

text \<open>All three harnesses return 0 on every input, for every behaviour of the formatting functions.\<close>

theorem fuzz_targets_return:
  assumes "buffer_api B" and "length path = 5"
  shows "map_option fst (fuzz_tx_parser F B n path data) = Some 0 \<and>
    map_option fst (fuzz_txin_parser F B data) = Some 0 \<and>
    map_option fst (fuzz_txout_parser F B data) = Some 0"
  using buffer_api.fuzz_tx_returns [OF assms] buffer_api.fuzz_txin_returns [OF assms(1)]
    buffer_api.fuzz_txout_returns [OF assms(1)]
  by (metis fst_conv option.map(2))

end
