(* ===== verification/Byte_Helpers.thy ===== *)
theory Byte_Helpers
  imports Blake2b_Spec
begin

text \<open>
  The byte helpers of \<open>src/import/blake2-impl.h\<close> as a family: a loader and a storer of \<open>k\<close>
  bytes in little-endian order, for \<open>k\<close> = 2, 4, 6 and 8. BLAKE2b itself uses the widths 4 and 8
  (theory \<open>Blake2b\<close>); the others complete the file.
\<close>

section \<open>The remaining helpers\<close>

definition load32 :: "bytes \<Rightarrow> nat \<Rightarrow> u32 option" where
  "load32 src off = do {
     p \<leftarrow> mem_read src off 4;
     Some (push_bit 0 (ucast (p ! 0)) OR push_bit 8 (ucast (p ! 1)) OR
           push_bit 16 (ucast (p ! 2)) OR push_bit 24 (ucast (p ! 3)))
   }"

definition load16 :: "bytes \<Rightarrow> nat \<Rightarrow> u16 option" where
  "load16 src off = do {
     p \<leftarrow> mem_read src off 2;
     Some (ucast (push_bit 0 (ucast (p ! 0) :: u32) OR push_bit 8 (ucast (p ! 1))))
   }"

definition store16 :: "u16 \<Rightarrow> bytes" where
  "store16 w = (let b0 = ucast w; w = drop_bit 8 w; b1 = ucast w in [b0, b1])"

definition load48 :: "bytes \<Rightarrow> nat \<Rightarrow> u64 option" where
  "load48 src off = do {
     p \<leftarrow> mem_read src off 6;
     Some (push_bit 0 (ucast (p ! 0)) OR push_bit 8 (ucast (p ! 1)) OR
           push_bit 16 (ucast (p ! 2)) OR push_bit 24 (ucast (p ! 3)) OR
           push_bit 32 (ucast (p ! 4)) OR push_bit 40 (ucast (p ! 5)))
   }"

definition store48 :: "u64 \<Rightarrow> bytes" where
  "store48 w = [ucast (drop_bit 0 w), ucast (drop_bit 8 w), ucast (drop_bit 16 w),
     ucast (drop_bit 24 w), ucast (drop_bit 32 w), ucast (drop_bit 40 w)]"

definition rotr32 :: "u32 \<Rightarrow> nat \<Rightarrow> u32" where
  "rotr32 w c = (drop_bit c w OR push_bit (32 - c) w)"

definition secure_zero_memory :: "bytes \<Rightarrow> nat \<Rightarrow> bytes option" where
  "secure_zero_memory v n = mem_write v 0 (zeros n)"

section \<open>Loading what was stored\<close>

locale little_endian =
  fixes k :: nat
    and store :: "'a::len word \<Rightarrow> bytes"
    and load :: "bytes \<Rightarrow> nat \<Rightarrow> 'a word option"
  assumes store_bytes: "store w = le_bytes k w"
    and load_bytes: "load src off = map_option le_word (mem_read src off k)"
    and fits: "8 * k \<le> LENGTH('a)"
begin

lemma store_length [simp]: "length (store w) = k"
  by (simp add: store_bytes)

lemma load_defined: "load src off = None \<longleftrightarrow> length src < off + k"
  by (simp add: load_bytes mem_read_def not_le)

lemma load_store: "load (pre @ store w @ post) (length pre) = Some (take_bit (8 * k) w)"
proof -
  have "(le_word (le_bytes k w) :: 'a word) = take_bit (8 * k) w"
  proof (rule bit_word_eqI)
    fix n assume n: "n < LENGTH('a)"
    have "n div 8 < k \<longleftrightarrow> n < 8 * k" by (simp add: div_less_iff_less_mult mult.commute)
    then show "bit (le_word (le_bytes k w) :: 'a word) n = bit (take_bit (8 * k) w) n"
      using n by (auto simp: bit_le_word bit_le_bytes bit_take_bit_iff)
  qed
  then show ?thesis by (simp add: load_bytes store_bytes mem_read_def)
qed

lemma store_load: "load src off = Some w \<Longrightarrow> store w = take k (drop off src)"
  using le_bytes_le_word [of "take k (drop off src)", where ?'a = 'a] fits
  by (auto simp: load_bytes store_bytes mem_read_def split: if_splits)

end

lemma list_of_length:
  "length xs = 2 \<Longrightarrow> xs = [xs ! 0, xs ! 1]"
  "length xs = 4 \<Longrightarrow> xs = [xs ! 0, xs ! 1, xs ! 2, xs ! 3]"
  "length xs = 6 \<Longrightarrow> xs = [xs ! 0, xs ! 1, xs ! 2, xs ! 3, xs ! 4, xs ! 5]"
  by (auto simp: numeral_eq_Suc length_Suc_conv)

lemma load16_bytes: "load16 src off = map_option le_word (mem_read src off 2)"
proof (cases "mem_read src off 2")
  case (Some p)
  then have "p = [p ! 0, p ! 1]" using list_of_length(1) mem_read_length by blast
  then obtain a b where p: "p = [a, b]" by blast
  have "ucast (ucast a OR push_bit 8 (ucast b) :: u32) = (ucast a OR push_bit 8 (ucast b) :: u16)" for a b :: u8
    by (rule bit_word_eqI) (auto simp: bit_or_iff bit_push_bit_iff bit_ucast_iff)
  with Some p show ?thesis by (simp add: load16_def)
qed (simp add: load16_def)

lemma load32_bytes: "load32 src off = map_option le_word (mem_read src off 4)"
proof (cases "mem_read src off 4")
  case (Some p)
  then have "p = [p ! 0, p ! 1, p ! 2, p ! 3]" using list_of_length(2) mem_read_length by blast
  then obtain a b c d where "p = [a, b, c, d]" by blast
  with Some show ?thesis by (simp add: load32_def push_bit_or push_bit_push_bit or.assoc)
qed (simp add: load32_def)

lemma load48_bytes: "load48 src off = map_option le_word (mem_read src off 6)"
proof (cases "mem_read src off 6")
  case (Some p)
  then have "p = [p ! 0, p ! 1, p ! 2, p ! 3, p ! 4, p ! 5]" using list_of_length(3) mem_read_length by blast
  then obtain a b c d e f where "p = [a, b, c, d, e, f]" by blast
  with Some show ?thesis by (simp add: load48_def push_bit_or push_bit_push_bit or.assoc)
qed (simp add: load48_def)

lemma load64_bytes: "load64 src off = map_option le_word (mem_read src off 8)"
proof (cases "off + 8 \<le> length src")
  case True
  then show ?thesis by (simp add: load64_le_word mem_read_def)
qed (simp add: load64_def mem_read_def)

interpretation le16: little_endian 2 store16 load16
  by unfold_locales (simp_all add: store16_def load16_bytes Let_def numeral_2_eq_2)

interpretation le32: little_endian 4 store32 load32
  by unfold_locales (simp_all add: store32_def load32_bytes numeral_eq_Suc drop_bit_drop_bit)

interpretation le48: little_endian 6 store48 load48
  by unfold_locales (simp_all add: store48_def load48_bytes numeral_eq_Suc drop_bit_drop_bit)

interpretation le64: little_endian 8 store64 load64
  by unfold_locales (simp_all add: store64_le_bytes load64_bytes)

theorem helpers_round_trip:
  "load16 (pre @ store16 a @ post) (length pre) = Some a"
  "load32 (pre @ store32 b @ post) (length pre) = Some b"
  "load64 (pre @ store64 c @ post) (length pre) = Some c"
  "load48 (pre @ store48 d @ post) (length pre) = Some (take_bit 48 d)"
  using le16.load_store [of pre a post] le32.load_store [of pre b post] le64.load_store [of pre c post]
    le48.load_store [of pre d post] by (simp_all add: take_bit_word_beyond_length_eq)

lemma rotr32_word_rotr:
  assumes "0 < c" and "c < 32"
  shows "rotr32 w c = word_rotr c w"
proof (rule bit_word_eqI)
  fix n assume "n < LENGTH(32)"
  then have n: "n < 32" by simp
  show "bit (rotr32 w c) n = bit (word_rotr c w) n"
  proof (cases "n + c < 32")
    case True
    with n assms show ?thesis
      by (auto simp: rotr32_def bit_or_iff bit_drop_bit_eq bit_push_bit_iff bit_word_rotr_iff add.commute)
  next
    case False
    then have "(n + c) mod 32 = n + c - 32" using n assms by (simp add: mod_if)
    moreover have "\<not> bit w (c + n)" using False by (auto dest: bit_imp_le_length)
    ultimately show ?thesis using n assms False
      by (auto simp: rotr32_def bit_or_iff bit_drop_bit_eq bit_push_bit_iff bit_word_rotr_iff)
  qed
qed

end
