(* ===== verification/Wallet.thy ===== *)
theory Wallet
  imports Commands
begin

text \<open>
  A wallet on one page: what the application promises its user, without handlers, buffers and
  status words. It is at home, takes in a payment item by item, asks the user, or spends: signs
  the inputs of a confirmed payment one at a time, from the first to the last. The application
  refines it as long as the host sends a payment completely before it is confirmed and asks for
  no more signatures than it has inputs. Otherwise it has a few moves more, which are listed as
  deviations at the end (theories \<open>Wallet_Refinement\<close>, \<open>Wallet_Safety\<close>).
\<close>

section \<open>States\<close>

text \<open>A payment: the transaction, how many outputs and inputs have been taken in, and the next
  input to sign.\<close>

record payment =
  pay_tx :: transaction_t
  outputs_in :: nat
  inputs_in :: nat
  next_input :: nat

record message_request =
  req_account :: u32
  req_address_type :: u8
  req_address_index :: u32
  req_text :: bytes

datatype question = Confirm_key | Confirm_payment payment | Confirm_message message_request

datatype phase =
    Home
  | Entering payment
  | Asking question "(string \<times> bytes) list"
  | Spending payment

record wallet =
  phase :: phase
  alive :: bool
  signatures :: "(bytes \<times> bytes) list"

datatype order =
    Ask_key | Ask_message | New_payment | Add_output | Add_input | Ask_next | Other

datatype action = Host order | Hang_up | Answer bool

definition wallet_start :: wallet where
  "wallet_start = \<lparr>phase = Home, alive = True, signatures = []\<rparr>"

section \<open>Payments\<close>

definition new_payment :: "nat \<Rightarrow> payment \<Rightarrow> bool" where
  "new_payment n p \<longleftrightarrow> outputs_in p = 0 \<and> inputs_in p = 0 \<and> next_input p = 0 \<and>
     tx_outputs (pay_tx p) = tx_outputs (zero_transaction n) \<and>
     tx_inputs (pay_tx p) = tx_inputs (zero_transaction n)"

definition put_output :: "transaction_output_t \<Rightarrow> payment \<Rightarrow> payment" where
  "put_output x p = p\<lparr>pay_tx := (pay_tx p)\<lparr>tx_outputs := (tx_outputs (pay_tx p))[outputs_in p := x]\<rparr>\<rparr>"

definition put_input :: "transaction_input_t \<Rightarrow> payment \<Rightarrow> payment" where
  "put_input x p = p\<lparr>pay_tx := (pay_tx p)\<lparr>tx_inputs := (tx_inputs (pay_tx p))[inputs_in p := x]\<rparr>\<rparr>"

text \<open>One item: not expected, or written to the next place and kept or rejected there.\<close>

inductive add_item :: "order \<Rightarrow> bool \<Rightarrow> payment \<Rightarrow> payment \<Rightarrow> bool" where
  not_expected: "add_item a False p p"
| output_rejected: "outputs_in p < tx_output_len (pay_tx p) \<Longrightarrow> wf_output x \<Longrightarrow>
    add_item Add_output False p (put_output x p)"
| output_kept: "outputs_in p < tx_output_len (pay_tx p) \<Longrightarrow> wf_output x \<Longrightarrow>
    add_item Add_output True p ((put_output x p)\<lparr>outputs_in := outputs_in p + 1\<rparr>)"
| input_rejected: "inputs_in p < tx_input_len (pay_tx p) \<Longrightarrow> wf_input x \<Longrightarrow>
    add_item Add_input False p (put_input x p)"
| input_kept: "inputs_in p < tx_input_len (pay_tx p) \<Longrightarrow> wf_input x \<Longrightarrow>
    add_item Add_input True p ((put_input x p)\<lparr>inputs_in := inputs_in p + 1\<rparr>)"

text \<open>Nothing is missing: every output and input of the header has arrived.\<close>

definition complete :: "payment \<Rightarrow> bool" where
  "complete p \<longleftrightarrow> tx_output_len (pay_tx p) \<le> outputs_in p \<and> tx_input_len (pay_tx p) \<le> inputs_in p"

lemma add_item_complete: "add_item a b p p' \<Longrightarrow> complete p \<Longrightarrow> \<not> b \<and> p' = p"
  by (induction rule: add_item.induct) (simp_all add: complete_def)

text \<open>An input of the payment is left to sign.\<close>

definition input_left :: "payment \<Rightarrow> bool" where
  "input_left p \<longleftrightarrow> next_input p < tx_input_len (pay_tx p)"

definition signs_next :: "env \<Rightarrow> payment \<Rightarrow> bytes \<times> bytes \<Rightarrow> bool" where
  "signs_next E p kh \<longleftrightarrow> signs_transaction E (pay_tx p) (next_input p) kh"

definition may_sign :: "env \<Rightarrow> payment \<Rightarrow> (bytes \<times> bytes) list \<Rightarrow> bool" where
  "may_sign E p ks \<longleftrightarrow> ks = [] \<or> (\<exists>kh. ks = [kh] \<and> signs_next E p kh)"

definition count_signature :: "payment \<Rightarrow> payment" where
  "count_signature p = p\<lparr>next_input := next_input p + 1\<rparr>"

section \<open>Questions\<close>

text \<open>The call for a message: its digest, with what the derivation at its path leaves as the key.\<close>

definition request_signature :: "env \<Rightarrow> message_request \<Rightarrow> bytes \<times> bytes" where
  "request_signature E m =
     (snd (bip32_derive_init_privkey_256 (sdk_crypto E)
        (header_path (req_account m) (ucast (req_address_type m)) (req_address_index m))),
      message_digest (req_text m))"

definition proper_request :: "message_request \<Rightarrow> bool" where
  "proper_request m \<longleftrightarrow> 0x80000000 \<le> req_account m \<and> req_address_type m \<in> {0, 1} \<and>
     req_text m \<noteq> [] \<and> length (req_text m) \<le> 128"

text \<open>The texts with which a question is asked.\<close>

fun asks :: "env \<Rightarrow> question \<Rightarrow> (string \<times> bytes) list \<Rightarrow> bool" where
  "asks E Confirm_key texts \<longleftrightarrow> True"
| "asks E (Confirm_payment p) texts \<longleftrightarrow>
     tx_checked E (pay_tx p) \<and> shows_transaction E (pay_tx p) texts"
| "asks E (Confirm_message m) texts \<longleftrightarrow> proper_request m \<and>
     (\<exists>n title g path. n \<in> {MAX_MESSAGE_LEN E, MAX_MESSAGE_LEN E + 6} \<and>
        format_message_to_sign (zeros n) n (req_text m) (length (req_text m)) = Some g \<and>
        texts = [(title, path), (''Message'', cstr g)])"

section \<open>Moves\<close>

text \<open>What the host can bring about, with the signatures made.\<close>

inductive host_move :: "env \<Rightarrow> phase \<Rightarrow> order \<Rightarrow> phase \<Rightarrow> (bytes \<times> bytes) list \<Rightarrow> bool" for E where
  refused: "host_move E ph a ph []"
| key_sent: "host_move E ph Ask_key Home []"
| key_shown: "asks E Confirm_key texts \<Longrightarrow> host_move E ph Ask_key (Asking Confirm_key texts) []"
| message_refused: "host_move E ph Ask_message Home []"
| message_shown: "asks E (Confirm_message m) texts \<Longrightarrow>
    host_move E ph Ask_message (Asking (Confirm_message m) texts) []"
| payment_begun: "new_payment (MAX_INPUT_COUNT E) p \<Longrightarrow> host_move E ph New_payment (Entering p) []"
| item_entered: "add_item a b p p' \<Longrightarrow> host_move E (Entering p) a (Entering p') []"
| item_shown: "add_item a True p p' \<Longrightarrow> asks E (Confirm_payment p') texts \<Longrightarrow>
    host_move E (Entering p) a (Asking (Confirm_payment p') texts) []"
| next_refused: "host_move E Home Ask_next Home []"
| next_aborts: "host_move E (Entering p) Ask_next Home []"
| next_signed: "input_left p \<Longrightarrow> signs_next E p kh \<Longrightarrow>
    host_move E (Spending p) Ask_next (Spending (count_signature p)) [kh]"
| next_failed: "input_left p \<Longrightarrow> may_sign E p ks \<Longrightarrow>
    host_move E (Spending p) Ask_next (Entering p) ks"

text \<open>What an answer of the user to a question brings about.\<close>

inductive user_move :: "env \<Rightarrow> question \<Rightarrow> bool \<Rightarrow> phase \<Rightarrow> (bytes \<times> bytes) list \<Rightarrow> bool" for E where
  key_answered: "user_move E Confirm_key b Home []"
| payment_denied: "user_move E (Confirm_payment p) False (Entering p) []"
| payment_confirmed: "next_input p = 0 \<Longrightarrow> signs_next E p kh \<Longrightarrow>
    user_move E (Confirm_payment p) True (Spending (count_signature p)) [kh]"
| payment_failed: "next_input p = 0 \<Longrightarrow> may_sign E p ks \<Longrightarrow>
    user_move E (Confirm_payment p) True (Entering p) ks"
| message_denied: "user_move E (Confirm_message m) b Home []"
| message_confirmed: "user_move E (Confirm_message m) True Home [request_signature E m]"

inductive_simps user_move_simps [simp]:
  "user_move E Confirm_key b ph ks"
  "user_move E (Confirm_payment p) b ph ks"
  "user_move E (Confirm_message m) b ph ks"

inductive_cases spending_host_move: "host_move E ph a (Spending p) ks"
inductive_cases next_host_move: "host_move E (Spending p) Ask_next ph ks"
inductive_cases entering_host_move: "host_move E ph a (Entering p) ks"
inductive_cases asking_host_move: "host_move E ph a (Asking (Confirm_payment p) texts) ks"

text \<open>A wallet takes an answer while it asks, and commands while it does not.\<close>

fun asking :: "phase \<Rightarrow> bool" where
  "asking (Asking q texts) = True"
| "asking _ = False"

inductive wallet_step :: "env \<Rightarrow> wallet \<Rightarrow> action \<Rightarrow> wallet \<Rightarrow> bool" for E where
  host: "alive w \<Longrightarrow> \<not> asking (phase w) \<Longrightarrow> host_move E (phase w) a ph ks \<Longrightarrow>
    wallet_step E w (Host a) \<lparr>phase = ph, alive = b, signatures = signatures w @ ks\<rparr>"
| hang_up: "alive w \<Longrightarrow> \<not> asking (phase w) \<Longrightarrow> wallet_step E w Hang_up (w\<lparr>alive := False\<rparr>)"
| user: "alive w \<Longrightarrow> phase w = Asking q texts \<Longrightarrow> user_move E q b ph ks \<Longrightarrow>
    wallet_step E w (Answer b) \<lparr>phase = ph, alive = True, signatures = signatures w @ ks\<rparr>"

section \<open>Deviations\<close>

text \<open>
  What the application also does and a wallet should not: it takes in the missing items of a
  payment that was confirmed before they had arrived (without a question, or reopening the
  payment), signs for a further command after the last input, and after the second confirmation
  of a reopened payment goes on where it was.
\<close>

inductive deviation :: "env \<Rightarrow> phase \<Rightarrow> action \<Rightarrow> phase \<Rightarrow> (bytes \<times> bytes) list \<Rightarrow> bool" for E where
  late_item: "\<not> complete p \<Longrightarrow> add_item a b p p' \<Longrightarrow> deviation E (Spending p) (Host a) (Spending p') []"
| late_reopens: "\<not> complete p \<Longrightarrow> add_item a True p p' \<Longrightarrow> deviation E (Spending p) (Host a) (Entering p') []"
| late_asked: "\<not> complete p \<Longrightarrow> add_item a True p p' \<Longrightarrow> asks E (Confirm_payment p') texts \<Longrightarrow>
    deviation E (Spending p) (Host a) (Asking (Confirm_payment p') texts) []"
| extra_signed: "\<not> input_left p \<Longrightarrow> signs_next E p kh \<Longrightarrow>
    deviation E (Spending p) (Host Ask_next) (Spending (count_signature p)) [kh]"
| extra_failed: "\<not> input_left p \<Longrightarrow> may_sign E p ks \<Longrightarrow>
    deviation E (Spending p) (Host Ask_next) (Entering p) ks"
| resumed: "next_input p \<noteq> 0 \<Longrightarrow> signs_next E p kh \<Longrightarrow>
    deviation E (Asking (Confirm_payment p) texts) (Answer True) (Spending (count_signature p)) [kh]"
| resume_failed: "next_input p \<noteq> 0 \<Longrightarrow> may_sign E p ks \<Longrightarrow>
    deviation E (Asking (Confirm_payment p) texts) (Answer True) (Entering p) ks"

inductive_cases spending_deviation: "deviation E ph (Host a) (Spending p) ks"
inductive_cases next_deviation: "deviation E (Spending p) (Host Ask_next) ph ks"
inductive_cases answer_deviation: "deviation E ph (Answer b) ph' ks"

text \<open>The steps of a wallet with the deviations.\<close>

inductive loose_step :: "env \<Rightarrow> wallet \<Rightarrow> action \<Rightarrow> wallet \<Rightarrow> bool" for E where
  proper: "wallet_step E w a w' \<Longrightarrow> loose_step E w a w'"
| deviates: "alive w \<Longrightarrow> deviation E (phase w) a ph ks \<Longrightarrow>
    loose_step E w a \<lparr>phase = ph, alive = b, signatures = signatures w @ ks\<rparr>"

text \<open>Moves and answers, proper or not, by what they do to the payment.\<close>

definition any_move :: "env \<Rightarrow> phase \<Rightarrow> order \<Rightarrow> phase \<Rightarrow> (bytes \<times> bytes) list \<Rightarrow> bool" where
  "any_move E ph a ph' ks \<longleftrightarrow> host_move E ph a ph' ks \<or> deviation E ph (Host a) ph' ks"

definition any_answer ::
  "env \<Rightarrow> question \<Rightarrow> (string \<times> bytes) list \<Rightarrow> bool \<Rightarrow> phase \<Rightarrow> (bytes \<times> bytes) list \<Rightarrow> bool"
where
  "any_answer E q texts b ph ks \<longleftrightarrow> user_move E q b ph ks \<or> deviation E (Asking q texts) (Answer b) ph ks"

lemma any_proper: "host_move E ph a ph' ks \<Longrightarrow> any_move E ph a ph' ks"
  "user_move E q b ph ks \<Longrightarrow> any_answer E q texts b ph ks"
  by (simp_all add: any_move_def any_answer_def)

lemma item_added: "add_item a b p p' \<Longrightarrow> any_move E (Spending p) a (Spending p') []"
  using add_item_complete [of a b p p'] unfolding any_move_def
  by (cases "complete p") (auto intro: refused late_item)

lemma item_reopens: "add_item a True p p' \<Longrightarrow> any_move E (Spending p) a (Entering p') []"
  using add_item_complete [of a True p p'] unfolding any_move_def
  by (cases "complete p") (auto intro: late_reopens)

lemma item_asked: "add_item a True p p' \<Longrightarrow> asks E (Confirm_payment p') texts \<Longrightarrow>
    any_move E (Spending p) a (Asking (Confirm_payment p') texts) []"
  using add_item_complete [of a True p p'] unfolding any_move_def
  by (cases "complete p") (auto intro: late_asked simp del: asks.simps)

lemma any_next:
  "signs_next E p kh \<Longrightarrow> any_move E (Spending p) Ask_next (Spending (count_signature p)) [kh]"
  "may_sign E p ks \<Longrightarrow> any_move E (Spending p) Ask_next (Entering p) ks"
  unfolding any_move_def
  by (blast intro: next_signed extra_signed) (blast intro: next_failed extra_failed)

lemma any_confirmed:
  "signs_next E p kh \<Longrightarrow> any_answer E (Confirm_payment p) texts True (Spending (count_signature p)) [kh]"
  "may_sign E p ks \<Longrightarrow> any_answer E (Confirm_payment p) texts True (Entering p) ks"
  unfolding any_answer_def
  by (blast intro: payment_confirmed resumed) (blast intro: payment_failed resume_failed)

lemma loose_host:
  assumes "alive w" and "\<not> asking (phase w)" and "any_move E (phase w) a ph ks"
  shows "loose_step E w (Host a) \<lparr>phase = ph, alive = b, signatures = signatures w @ ks\<rparr>"
  using assms(3) unfolding any_move_def
  by (elim disjE) (rule proper [OF host [OF assms(1,2)]] deviates [OF assms(1)], assumption)+

lemma loose_user:
  assumes "alive w" and "phase w = Asking q texts" and "any_answer E q texts b ph ks"
  shows "loose_step E w (Answer b) \<lparr>phase = ph, alive = True, signatures = signatures w @ ks\<rparr>"
  using assms(3) unfolding any_answer_def assms(2) [symmetric]
  by (elim disjE) (rule proper [OF user [OF assms(1,2)]] deviates [OF assms(1)], assumption)+

lemma loose_cases:
  assumes "loose_step E w act w'"
  obtains (move) a ks where "act = Host a" and "any_move E (phase w) a (phase w') ks"
      and "signatures w' = signatures w @ ks"
  | (over) "act = Hang_up" and "phase w' = phase w" and "signatures w' = signatures w"
  | (answer) q texts b ks where "act = Answer b" and "phase w = Asking q texts"
      and "any_answer E q texts b (phase w') ks" and "signatures w' = signatures w @ ks"
  using assms
proof (cases rule: loose_step.cases)
  case proper
  then show thesis
  proof (cases rule: wallet_step.cases)
    case (host a ph ks b)
    then show thesis by (intro that(1) [of a ks]) (simp_all add: any_proper)
  next
    case hang_up
    then show thesis by (intro that(2)) simp_all
  next
    case (user q texts b ph ks)
    then show thesis by (intro that(3) [of b q texts ks]) (simp_all add: any_proper del: user_move_simps)
  qed
next
  case (deviates ph ks b)
  show thesis
  proof (cases act)
    case (Host a)
    then show thesis using that(1) deviates by (auto simp: any_move_def)
  next
    case Hang_up
    then show thesis using deviates(3) by (auto elim: deviation.cases)
  next
    case (Answer c)
    then obtain q texts where "phase w = Asking q texts" using deviates(3) by (auto elim: deviation.cases)
    then show thesis using that(3) deviates Answer by (auto simp: any_answer_def)
  qed
qed

section \<open>Orderly use\<close>

text \<open>
  The user confirms complete payments only, and the host asks for the next signature while there
  is an input left. Then no move deviates: a payment under entry or in question has no signature
  yet unless it is complete, and a payment being spent is complete.
\<close>

definition orderly_use :: "phase \<Rightarrow> action \<Rightarrow> bool" where
  "orderly_use ph a \<longleftrightarrow>
     (\<forall>p texts. ph = Asking (Confirm_payment p) texts \<and> a = Answer True \<longrightarrow> complete p) \<and>
     (\<forall>p. ph = Spending p \<and> a = Host Ask_next \<longrightarrow> input_left p)"

fun settled :: "phase \<Rightarrow> bool" where
  "settled (Entering p) = (next_input p = 0 \<or> complete p)"
| "settled (Asking (Confirm_payment p) texts) = (next_input p = 0)"
| "settled (Spending p) = complete p"
| "settled _ = True"

lemma add_item_next: "add_item a b p p' \<Longrightarrow> next_input p' = next_input p"
  by (induction rule: add_item.induct) (simp_all add: put_output_def put_input_def)

lemma count_complete: "complete p \<Longrightarrow> complete (count_signature p)"
  by (simp add: complete_def count_signature_def)

lemma no_deviation:
  assumes "settled ph" and "orderly_use ph a"
  shows "\<not> deviation E ph a ph' ks"
proof
  assume "deviation E ph a ph' ks"
  then show False using assms by (cases rule: deviation.cases) (auto simp: orderly_use_def)
qed

lemma host_settled: "host_move E ph a ph' ks \<Longrightarrow> settled ph \<Longrightarrow> settled ph'"
proof (induction rule: host_move.induct)
  case (message_shown m texts ph)
  then show ?case by simp
next
  case (item_entered a b p p')
  then show ?case using add_item_complete add_item_next by fastforce
next
  case (item_shown a p p' texts)
  then show ?case using add_item_complete add_item_next by fastforce
qed (simp_all add: new_payment_def count_complete)

lemma user_settled:
  assumes "user_move E q b ph' ks" and "settled (Asking q texts)" and "orderly_use (Asking q texts) (Answer b)"
  shows "settled ph'"
  using assms by (cases rule: user_move.cases) (auto simp: orderly_use_def count_complete)

lemma loose_orderly:
  assumes "loose_step E w a w'" and "settled (phase w)" and "orderly_use (phase w) a"
  shows "wallet_step E w a w' \<and> settled (phase w')"
  using assms(1)
proof (cases rule: loose_step.cases)
  case proper
  moreover from proper have "settled (phase w')" using assms(2,3)
    by (cases rule: wallet_step.cases) (auto dest: host_settled user_settled simp del: user_move_simps)
  ultimately show ?thesis by simp
next
  case deviates
  then show ?thesis using no_deviation [OF assms(2,3)] by blast
qed

end
