(* ===== verification/Wallet_Refinement.thy ===== *)
theory Wallet_Refinement
  imports Wallet
begin

text \<open>
  The application refines the wallet of the theory \<open>Wallet\<close>: seen through \<open>app_wallet\<close>, every
  step of a reachable state is a step of the wallet or one of the deviations listed there, with
  the same signatures.
\<close>

section \<open>The abstraction\<close>

definition payment_of :: "transaction_ctx_t \<Rightarrow> payment" where
  "payment_of t = \<lparr>pay_tx = transaction t, outputs_in = unat (parsing_output_index t),
     inputs_in = unat (parsing_input_index t), next_input = unat (signing_input_index t)\<rparr>"

definition request_of :: "message_sign_ctx_t \<Rightarrow> message_request" where
  "request_of m = \<lparr>req_account = msg_account m, req_address_type = msg_address_type m,
     req_address_index = msg_address_index m, req_text = take (message_len m) (message m)\<rparr>"

definition ctx_payment :: "env \<Rightarrow> global_ctx_t \<Rightarrow> payment option" where
  "ctx_payment E c = map_option payment_of (tx_info (MAX_INPUT_COUNT E) (member c))"

definition ctx_phase :: "env \<Rightarrow> global_ctx_t \<Rightarrow> phase" where
  "ctx_phase E c =
     (case (req_type c, ctx_payment E c) of
        (CONFIRM_TRANSACTION, Some p) \<Rightarrow> (if state c = STATE_APPROVED then Spending p else Entering p)
      | _ \<Rightarrow> Home)"

definition question_of :: "env \<Rightarrow> review_e \<Rightarrow> global_ctx_t \<Rightarrow> question" where
  "question_of E r c =
     (case r of
        Review_Address \<Rightarrow> Confirm_key
      | Review_Transaction \<Rightarrow>
          (case ctx_payment E c of Some p \<Rightarrow> Confirm_payment p | None \<Rightarrow> Confirm_key)
      | Review_Message \<Rightarrow>
          (case msg_info (member c) of Some m \<Rightarrow> Confirm_message (request_of m) | None \<Rightarrow> Confirm_key))"

definition app_phase :: "env \<Rightarrow> app \<Rightarrow> phase" where
  "app_phase E s =
     (case pending s of
        Some (r, texts) \<Rightarrow> Asking (question_of E r (G_context s)) texts
      | None \<Rightarrow> ctx_phase E (G_context s))"

definition app_wallet :: "env \<Rightarrow> app \<Rightarrow> wallet" where
  "app_wallet E s = \<lparr>phase = app_phase E s, alive = running s, signatures = sign_log s\<rparr>"

definition order_of :: "command_t \<Rightarrow> order" where
  "order_of c =
     (if cla c \<noteq> CLA then Other
      else if ins c = command_value GET_PUBLIC_KEY then Ask_key
      else if ins c = command_value SIGN_MESSAGE then Ask_message
      else if ins c = command_value SIGN_TX then
        (if p1 c = P1_START then New_payment
         else if p1 c = P1_OUTPUTS then Add_output
         else if p1 c = P1_INPUTS then Add_input
         else if p1 c = P1_NEXT_SIGNATURE then Ask_next
         else Other)
      else Other)"

fun action_of :: "env \<Rightarrow> event \<Rightarrow> action" where
  "action_of E (Received bs) = Host (case apdu_parser E bs of Some c \<Rightarrow> order_of c | None \<Rightarrow> Other)"
| "action_of E Receive_failed = Hang_up"
| "action_of E (Chosen b) = Answer b"

lemma request_type_cases: "(case r of CONFIRM_TRANSACTION \<Rightarrow> a | _ \<Rightarrow> b) = (if r = CONFIRM_TRANSACTION then a else b)"
  by (cases r) simp_all

lemma ctx_phase_simps [simp]:
  "req_type c \<noteq> CONFIRM_TRANSACTION \<Longrightarrow> ctx_phase E c = Home"
  "req_type c = CONFIRM_TRANSACTION \<Longrightarrow> ctx_payment E c = Some p \<Longrightarrow> state c = STATE_APPROVED \<Longrightarrow>
     ctx_phase E c = Spending p"
  "req_type c = CONFIRM_TRANSACTION \<Longrightarrow> ctx_payment E c = Some p \<Longrightarrow> state c \<noteq> STATE_APPROVED \<Longrightarrow>
     ctx_phase E c = Entering p"
  by (auto simp: ctx_phase_def split: request_type_e.splits)

lemma app_phase_idle [simp]: "pending s = None \<Longrightarrow> app_phase E s = ctx_phase E (G_context s)"
  by (simp add: app_phase_def)

lemma ctx_payment_Some:
  "ctx_inv E c \<Longrightarrow> req_type c = CONFIRM_TRANSACTION \<Longrightarrow> \<exists>t. tx_info (MAX_INPUT_COUNT E) (member c) = Some t"
  by (auto simp: ctx_inv_def member_fits_def split: ctx_union.splits)

section \<open>Questions on the screen\<close>

lemma take_message:
  "message_len m \<le> length (message m) \<Longrightarrow>
   format_message_to_sign g n (take (message_len m) (message m)) (message_len m) =
   format_message_to_sign g n (message m) (message_len m)"
  by (simp add: format_message_to_sign_def mem_read_def)

lemma pending_asks:
  assumes "app_inv E s" and "pending s = Some (r, texts)"
  shows "asks E (question_of E r (G_context s)) texts"
proof (cases r)
  case Review_Message
  then obtain m where m: "msg_ready (G_context s) m" "shows_message E m texts"
    using assms by (auto simp: app_inv_def pending_fits_def)
  then have "length (message m) = 128"
    using assms by (auto simp: app_inv_def ctx_inv_def wf_ctx_def msg_ready_def)
  with m Review_Message show ?thesis
    by (fastforce simp: question_of_def msg_ready_def shows_message_def proper_request_def request_of_def
        take_message min_def)
qed (use assms in \<open>auto simp: question_of_def app_inv_def pending_fits_def ctx_payment_def payment_of_def\<close>)

text \<open>What a display function leaves: the request on the screen, or the context as it was but for
  an aborted request.\<close>

definition asked :: "review_e \<Rightarrow> app \<Rightarrow> app \<Rightarrow> bool" where
  "asked r s s' \<longleftrightarrow> sign_log s' = sign_log s \<and>
     ((\<exists>texts. pending s' = Some (r, texts) \<and> G_context s' = G_context s) \<or>
      pending s' = pending s \<and> (\<exists>st \<in> {state (G_context s), STATE_NONE}. G_context s' = (G_context s)\<lparr>state := st\<rparr>))"

lemma asked_simps [simp]:
  "asked r s (s\<lparr>pending := Some (r, texts)\<rparr>)" "asked r s (snd (io_send_sw E sw s))"
  "asked r s (snd (io_send_sw E sw (set_state STATE_NONE s)))"
  by (auto simp: asked_def io_simps set_defs)

lemma display_asked:
  "yields (ui_display_address E s) (\<lambda>(x, s'). asked Review_Address s s')"
  "yields (ui_display_message E s) (\<lambda>(x, s'). asked Review_Message s s')"
  "yields (ui_display_transaction E s) (\<lambda>(x, s'). asked Review_Transaction s s')"
  unfolding ui_display_address_def ui_display_message_def ui_display_transaction_def
    bagl_ui_display_address_def bagl_ui_display_message_def bagl_ui_display_transaction_def
    nbgl_ui_display_address_def nbgl_ui_display_message_def nbgl_ui_display_transaction_def Let_def
    show_review_def bad_state_def
  by (intro yields_if yields_bind_any yields_prod | simp add: case_prod_beta)+

section \<open>Commands\<close>

text \<open>A new request that is not a payment: nothing on the screen, or this request.\<close>

definition new_request :: "review_e \<Rightarrow> app \<Rightarrow> app \<Rightarrow> bool" where
  "new_request r s s' \<longleftrightarrow> sign_log s' = sign_log s \<and>
     (pending s' = None \<and> req_type (G_context s') \<noteq> CONFIRM_TRANSACTION \<or>
      (\<exists>texts. pending s' = Some (r, texts)))"

text \<open>Where a request ends: with its display or with an answer.\<close>

definition fresh :: "app \<Rightarrow> app \<Rightarrow> bool" where
  "fresh s s' \<longleftrightarrow> pending s' = None \<and> sign_log s' = sign_log s \<and> req_type (G_context s') \<noteq> CONFIRM_TRANSACTION"

lemma fresh_ends:
  assumes "fresh s s'"
  shows "yields (ui_display_address E s') (\<lambda>(x, s'). new_request Review_Address s s')"
    "yields (ui_display_message E s') (\<lambda>(x, s'). new_request Review_Message s s')"
    "yields (helper_send_response_pubkey E s') (\<lambda>(x, s'). new_request Review_Address s s')"
  using assms unfolding fresh_def new_request_def
  by (fastforce intro: yields_mono [OF display_asked(1)] yields_mono [OF display_asked(2)]
      yields_mono [OF response_only_sends(1)] simp: asked_def only_sends_def)+

lemma get_public_key_request:
  assumes "pending s = None"
  shows "yields (handler_get_public_key E b d s) (\<lambda>(x, s'). new_request Review_Address s s')"
  unfolding handler_get_public_key_def Let_def
  by (intro yields_if yields_bind_any yields_prod fresh_ends)
    (auto simp: fresh_def new_request_def io_simps set_defs reset_ctx_def zero_ctx_def assms)

lemma sign_msg_request:
  assumes "pending s = None"
  shows "yields (handler_sign_msg E b s) (\<lambda>(x, s'). new_request Review_Message s s')"
  unfolding handler_sign_msg_def Let_def
  by (intro yields_if yields_bind_any yields_prod fresh_ends)
    (auto simp: fresh_def new_request_def io_simps set_defs reset_ctx_def zero_ctx_def assms)

lemma header_keeps_items:
  "yields (transaction_deserialize B n b tx path) (\<lambda>(st, b', tx', path').
     tx_outputs tx' = tx_outputs tx \<and> tx_inputs tx' = tx_inputs tx)"
  unfolding transaction_deserialize_def Let_def
  by (intro yields_if yields_bind_any yields_prod) auto

lemma header_begins:
  assumes "pending s = None"
  shows "yields (sign_tx_header E b s) (\<lambda>(x, s'). pending s' = None \<and> sign_log s' = sign_log s \<and>
    req_type (G_context s') = CONFIRM_TRANSACTION \<and> state (G_context s') = STATE_NONE \<and>
    (\<exists>p. ctx_payment E (G_context s') = Some p \<and> new_payment (MAX_INPUT_COUNT E) p))"
  unfolding sign_tx_header_def Let_def reset_ctx_def
  by (intro yields_bind_any yields_prod)
    (auto simp: assms set_defs io_simps zero_ctx_def ctx_payment_def payment_of_def new_payment_def
      zero_tx_def dest!: yieldsD [OF header_keeps_items])

lemma other_sends:
  "yields (handler_get_version E s) (\<lambda>(x, s'). only_sends s s')"
  "yields (handler_get_app_name E s) (\<lambda>(x, s'). only_sends s s')"
  "yields (handler_debug E n s) (\<lambda>(x, s'). only_sends s s')"
  unfolding handler_get_version_def handler_get_app_name_def
  by (auto intro!: yields_mono [OF debug_test] simp: io_simps only_sends_def test_signature_def)

section \<open>Items of a payment\<close>

text \<open>The same request in the same state, with another payment.\<close>

definition same_state :: "app \<Rightarrow> app \<Rightarrow> bool" where
  "same_state s s' \<longleftrightarrow> pending s' = pending s \<and> sign_log s' = sign_log s \<and>
     state (G_context s') = state (G_context s) \<and> req_type (G_context s') = req_type (G_context s)"

lemma same_state_simps [simp]:
  "same_state s s" "same_state s (set_member u s)" "same_state s (snd (io_send_sw E sw s'))  \<longleftrightarrow> same_state s s'"
  by (auto simp: same_state_def set_defs io_simps)

lemma ctx_payment_simps [simp]:
  "G_context (snd (io_send_sw E sw s)) = G_context s"
  "ctx_payment E ((c::global_ctx_t)\<lparr>member := Tx_info t\<rparr>) = Some (payment_of t)"
  "ctx_payment E ((c::global_ctx_t)\<lparr>state := st\<rparr>) = ctx_payment E c"
  "ctx_payment E (c\<lparr>bip32_path := path\<rparr>) = ctx_payment E c"
  "ctx_payment E (c\<lparr>bip32_path_len := n\<rparr>) = ctx_payment E c"
  by (simp_all add: ctx_payment_def io_simps)

lemma tx_validate_same:
  "yields (tx_validate_parsed_transaction E tx s) (\<lambda>(ok, s'). same_state s s' \<and>
     ctx_payment E (G_context s') = ctx_payment E (G_context s))"
  unfolding tx_validate_parsed_transaction_def Let_def
  by (auto intro!: yields_bind_any simp: same_state_def set_defs bind_eq_Some_conv split: if_splits)

definition item_read :: "env \<Rightarrow> order \<Rightarrow> bool \<Rightarrow> payment \<Rightarrow> app \<Rightarrow> app \<Rightarrow> bool" where
  "item_read E a b p s s' \<longleftrightarrow> same_state s s' \<and>
     (\<exists>p'. ctx_payment E (G_context s') = Some p' \<and> add_item a b p p')"

lemma below_count: "\<not> (word_of_nat n :: u8) \<le> i \<Longrightarrow> unat i < n"
  using mod_less_eq_dividend [of n 256] by (simp add: u8_le)

context device
begin

lemma output_read:
  assumes "idle E s" and t: "tx_info (MAX_INPUT_COUNT E) (member (G_context s)) = Some t" and "valid_buffer b"
  shows "yields (sign_tx_output E b t s) (\<lambda>(g, r, s'). item_read E Add_output g (payment_of t) s s')"
proof -
  let ?i = "unat (parsing_output_index t)" and ?outs = "tx_outputs (transaction t)"
  have p: "ctx_payment E (G_context s) = Some (payment_of t)" using t by (simp add: ctx_payment_def)
  have wf: "wf_tx_ctx (MAX_INPUT_COUNT E) t"
    using assms(1) t by (cases "member (G_context s)") (auto simp: idle_iff)
  show ?thesis
  proof (cases "parsing_output_index t \<ge> word_of_nat MAX_OUTPUT_COUNT \<or>
      parsing_output_index t \<ge> word_of_nat (tx_output_len (transaction t))")
    case True
    then show ?thesis using p by (auto simp: sign_tx_output_def item_read_def case_prod_beta intro: not_expected)
  next
    case False
    then have i: "?i < 2" "?i < tx_output_len (transaction t)"
      using below_count [of MAX_OUTPUT_COUNT] below_count [of "tx_output_len (transaction t)"]
      by (auto simp: size_consts)
    have len: "?i < length ?outs" and w: "wf_output (?outs ! ?i)"
      using wf i wf_transaction_nth(2) by (auto simp: wf_tx_ctx_def wf_transaction_def size_consts)
    obtain st b' x where d: "transaction_output_deserialize (sdk_buffer E) b (?outs ! ?i) = Some (st, b', x)"
      and x: "wf_output x"
      using output_deserialize_status [OF assms(3) w] by auto
    have u: "unat (parsing_output_index t + 1) = ?i + 1"
      using i(1) by (simp add: unat_word_ariths)
    have "add_item Add_output False (payment_of t) (put_output x (payment_of t))"
      "add_item Add_output True (payment_of t) ((put_output x (payment_of t))\<lparr>outputs_in := ?i + 1\<rparr>)"
      using output_rejected [of "payment_of t", OF _ x] output_kept [of "payment_of t", OF _ x] i(2)
      by (simp_all add: payment_of_def)
    then show ?thesis using False d len u
      by (auto simp: sign_tx_output_def item_read_def arr_get_Some Let_def set_simps case_prod_beta
          payment_of_def put_output_def)
  qed
qed

lemma input_read:
  assumes "idle E s" and t: "tx_info (MAX_INPUT_COUNT E) (member (G_context s)) = Some t" and "valid_buffer b"
  shows "yields (sign_tx_input E b t s) (\<lambda>(g, r, s'). item_read E Add_input g (payment_of t) s s')"
proof -
  let ?i = "unat (parsing_input_index t)" and ?ins = "tx_inputs (transaction t)"
  have p: "ctx_payment E (G_context s) = Some (payment_of t)" using t by (simp add: ctx_payment_def)
  have wf: "wf_tx_ctx (MAX_INPUT_COUNT E) t"
    using assms(1) t by (cases "member (G_context s)") (auto simp: idle_iff)
  show ?thesis
  proof (cases "parsing_input_index t \<ge> word_of_nat (MAX_INPUT_COUNT E) \<or>
      parsing_input_index t \<ge> word_of_nat (tx_input_len (transaction t))")
    case True
    then show ?thesis using p by (auto simp: sign_tx_input_def item_read_def case_prod_beta intro: not_expected)
  next
    case False
    then have i: "?i < MAX_INPUT_COUNT E" "?i < tx_input_len (transaction t)"
      using below_count by auto
    have len: "?i < length ?ins" and w: "wf_input (?ins ! ?i)"
      using wf i wf_transaction_nth(1) by (auto simp: wf_tx_ctx_def wf_transaction_def)
    obtain st b' x where d: "transaction_input_deserialize (sdk_buffer E) b (?ins ! ?i) = Some (st, b', x)"
      and x: "wf_input x"
      using input_deserialize_status [OF assms(3) w] by auto
    have u: "unat (parsing_input_index t + 1) = ?i + 1"
      using i(1) input_count(2) by (simp add: unat_word_ariths)
    have "add_item Add_input False (payment_of t) (put_input x (payment_of t))"
      "add_item Add_input True (payment_of t) ((put_input x (payment_of t))\<lparr>inputs_in := ?i + 1\<rparr>)"
      using input_rejected [of "payment_of t", OF _ x] input_kept [of "payment_of t", OF _ x] i(2)
      by (simp_all add: payment_of_def)
    then show ?thesis using False d len u
      by (auto simp: sign_tx_input_def item_read_def arr_get_Some Let_def set_simps case_prod_beta
          payment_of_def put_input_def)
  qed
qed

end

section \<open>Moves of the wallet\<close>

definition moves :: "env \<Rightarrow> order \<Rightarrow> app \<Rightarrow> app \<Rightarrow> bool" where
  "moves E a s s' \<longleftrightarrow>
     (\<exists>ks. any_move E (app_phase E s) a (app_phase E s') ks \<and> sign_log s' = sign_log s @ ks)"

lemma app_phase_cong:
  "G_context s' = G_context s \<Longrightarrow> pending s' = pending s \<Longrightarrow> app_phase E s' = app_phase E s"
  by (simp add: app_phase_def split: option.splits)

lemma app_phase_io [simp]: "app_phase E (snd (io_send_sw E' sw s)) = app_phase E s"
  by (rule app_phase_cong) (simp_all add: io_simps)

lemma moves_refused:
  "G_context s' = G_context s \<Longrightarrow> pending s' = pending s \<Longrightarrow> sign_log s' = sign_log s \<Longrightarrow> moves E a s s'"
  using any_proper(1) [OF refused [of E "app_phase E s" a]] app_phase_cong [of s' s E] by (auto simp: moves_def)

lemma moves_sends: "only_sends s s' \<Longrightarrow> moves E a s s'"
  by (auto simp: only_sends_def intro: moves_refused)

lemma moves_io [simp]: "moves E a s (snd (io_send_sw E sw s)) \<longleftrightarrow> True"
  by (simp add: moves_refused io_simps)

lemma moves_new_key:
  assumes "new_request Review_Address s s'"
  shows "moves E Ask_key s s'"
  using assms by (auto simp: moves_def new_request_def app_phase_def question_of_def any_proper(1) [OF key_sent] any_proper(1) [OF key_shown])

lemma question_message:
  assumes "app_inv E s" and "pending s = Some (Review_Message, texts)"
  obtains m where "msg_info (member (G_context s)) = Some m"
    and "question_of E Review_Message (G_context s) = Confirm_message (request_of m)"
  using assms by (auto simp: question_of_def app_inv_def pending_fits_def msg_ready_def)

lemma moves_new_message:
  assumes "new_request Review_Message s s'" and "app_inv E s'"
  shows "moves E Ask_message s s'"
proof (cases "pending s'")
  case None
  then show ?thesis using assms(1) by (auto simp: moves_def new_request_def intro: any_proper(1) [OF message_refused])
next
  case (Some p)
  then obtain texts where p: "pending s' = Some (Review_Message, texts)"
    using assms(1) by (auto simp: new_request_def)
  then obtain m where m: "question_of E Review_Message (G_context s') = Confirm_message (request_of m)"
    using question_message [OF assms(2)] by blast
  have "any_move E (app_phase E s) Ask_message (Asking (Confirm_message (request_of m)) texts) []"
    using pending_asks [OF assms(2) p] by (intro any_proper message_shown) (simp add: m)
  then show ?thesis using assms(1) p m by (auto simp: moves_def new_request_def app_phase_def)
qed

lemma moves_item:
  assumes "item_read E a b p s s'" and "pending s = None" and "req_type (G_context s) = CONFIRM_TRANSACTION"
    and "ctx_payment E (G_context s) = Some p"
  shows "moves E a s s'"
  using assms by (cases "state (G_context s) = STATE_APPROVED")
    (auto simp: moves_def item_read_def same_state_def intro: any_proper(1) [OF item_entered] item_added)

lemma moves_last_item:
  assumes "item_read E a True p s s1" and "pending s = None" and "req_type (G_context s) = CONFIRM_TRANSACTION"
    and "ctx_payment E (G_context s) = Some p" and "same_state s1 s2"
    and "ctx_payment E (G_context s2) = ctx_payment E (G_context s1)"
    and a: "asked Review_Transaction (set_state STATE_PARSED s2) s'" and i: "app_inv E s'"
  shows "moves E a s s'"
proof -
  obtain p' where p': "ctx_payment E (G_context s2) = Some p'" "add_item a True p p'"
    using assms(1,6) by (auto simp: item_read_def)
  have s2: "pending s2 = None" "sign_log s2 = sign_log s" "req_type (G_context s2) = CONFIRM_TRANSACTION"
    using assms(1,2,3,5) by (auto simp: item_read_def same_state_def)
  have ph: "app_phase E s = (if state (G_context s) = STATE_APPROVED then Spending p else Entering p)"
    using assms(2-4) by simp
  show ?thesis
  proof (cases "pending s'")
    case None
    then have "app_phase E s' = Entering p'" "sign_log s' = sign_log s"
      using a s2 p'(1) by (auto simp: asked_def set_simps set_defs)
    then show ?thesis using p'(2) ph by (auto simp: moves_def intro: any_proper(1) [OF item_entered] item_reopens)
  next
    case (Some x)
    then obtain texts where t: "pending s' = Some (Review_Transaction, texts)" "sign_log s' = sign_log s"
      "G_context s' = (G_context s2)\<lparr>state := STATE_PARSED\<rparr>"
      using a s2 by (auto simp: asked_def set_defs)
    then have q: "question_of E Review_Transaction (G_context s') = Confirm_payment p'"
      using p'(1) by (simp add: question_of_def)
    have "asks E (Confirm_payment p') texts" using pending_asks [OF i t(1)] by (simp only: q)
    then show ?thesis using p'(2) ph t q
      by (auto simp: moves_def app_phase_def intro: any_proper(1) [OF item_shown] item_asked)
  qed
qed

context device
begin

lemma sign_tx_data_moves:
  assumes "idle E s" and "valid_buffer b" and ty: "ty = P1_OUTPUTS \<and> a = Add_output \<or> ty = P1_INPUTS \<and> a = Add_input"
  shows "yields (sign_tx_data E b ty m s) (\<lambda>(r, s'). app_inv E s' \<longrightarrow> moves E a s s')"
proof (cases "req_type (G_context s) = CONFIRM_TRANSACTION")
  case False
  then show ?thesis by (simp add: sign_tx_data_def case_prod_beta)
next
  case True
  have n: "pending s = None" using assms(1) by (simp add: idle_iff)
  obtain t where t: "tx_info (MAX_INPUT_COUNT E) (member (G_context s)) = Some t"
    using ctx_payment_Some True assms(1) by (auto simp: idle_def)
  then have p: "ctx_payment E (G_context s) = Some (payment_of t)" by (simp add: ctx_payment_def)
  have read: "yields (if ty = P1_OUTPUTS then sign_tx_output E b t s
      else if ty = P1_INPUTS then sign_tx_input E b t s
      else Some (False, io_send_sw E SW_WRONG_P1P2 s)) (\<lambda>(g, r, s'). item_read E a g (payment_of t) s s')"
    using ty output_read [OF assms(1) t assms(2)] input_read [OF assms(1) t assms(2)]
    by (auto simp: apdu_consts)
  show ?thesis unfolding sign_tx_data_def
  proof (rule yields_if, simp add: True, simp only: t bind.simps, rule yields_bind_any, rule yields_prod, rule yields_prod)
    fix x g y r s1
    assume x: "(if ty = P1_OUTPUTS then sign_tx_output E b t s
      else if ty = P1_INPUTS then sign_tx_input E b t s
      else Some (False, io_send_sw E SW_WRONG_P1P2 s)) = Some x" "x = (g, y)" "y = (r, s1)"
    then have item: "item_read E a g (payment_of t) s s1" using yieldsD [OF read x(1)] by simp
    have i: "moves E a s s1" by (rule moves_item [OF item n True p])
    have io: "moves E a s (snd (io_send_sw E sw s'))" if "moves E a s s'" for sw s'
      using that by (simp add: moves_def) (simp add: io_simps)
    have v: "moves E a s s2" if "same_state s1 s2" "ctx_payment E (G_context s2) = ctx_payment E (G_context s1)" for s2
    proof (rule moves_item [OF _ n True p])
      show "item_read E a g (payment_of t) s s2" using item that by (auto simp: item_read_def same_state_def)
    qed
    show "yields (if \<not> g then Some (r, s1)
        else if m then Some (io_send_sw E SW_OK s1)
        else do {
          t \<leftarrow> tx_info (MAX_INPUT_COUNT E) (member (G_context s1));
          (valid, s) \<leftarrow> tx_validate_parsed_transaction E (transaction t) s1;
          if \<not> valid then Some (io_send_sw E SW_TX_PARSING_FAIL s)
          else ui_display_transaction E (set_state STATE_PARSED s)
        }) (\<lambda>(r, s'). app_inv E s' \<longrightarrow> moves E a s s')"
    proof (intro yields_if yields_bind_any yields_prod)
      fix t1 x ok s2
      assume g: "\<not> \<not> g" and "tx_validate_parsed_transaction E (transaction t1) s1 = Some x" and "x = (ok, s2)"
      then have f: "same_state s1 s2" "ctx_payment E (G_context s2) = ctx_payment E (G_context s1)"
        using yieldsD [OF tx_validate_same] by blast+
      have item': "item_read E a True (payment_of t) s s1" using item g by simp
      show "yields (Some (io_send_sw E SW_TX_PARSING_FAIL s2)) (\<lambda>(r, s'). app_inv E s' \<longrightarrow> moves E a s s')"
        using v [OF f] io by (simp add: case_prod_beta)
      show "yields (ui_display_transaction E (set_state STATE_PARSED s2)) (\<lambda>(r, s'). app_inv E s' \<longrightarrow> moves E a s s')"
        by (rule yields_mono [OF display_asked(3)])
          (use moves_last_item [OF item' n True p f] in auto)
    qed (auto simp: i io case_prod_beta)
  qed
qed

end

section \<open>Signatures\<close>

lemma sign_keeps_payment:
  "yields (crypto_sign_transaction E s) (\<lambda>(err, s'). ctx_payment E (G_context s') = ctx_payment E (G_context s))"
  unfolding crypto_sign_transaction_def Let_def
  by (intro yields_if yields_bind_any yields_prod)
    (auto simp: ctx_payment_def payment_of_def set_defs log_sign_def)

text \<open>One signature asked for: made and counted, or the request is over.\<close>

definition tries_next :: "env \<Rightarrow> payment \<Rightarrow> app \<Rightarrow> app \<Rightarrow> bool" where
  "tries_next E p s s' \<longleftrightarrow> pending s' = pending s \<and> req_type (G_context s') = req_type (G_context s) \<and>
     (state (G_context s') = state (G_context s) \<and>
        ctx_payment E (G_context s') = Some (count_signature p) \<and>
        (\<exists>kh. sign_log s' = sign_log s @ [kh] \<and> signs_next E p kh) \<or>
      state (G_context s') = STATE_NONE \<and> ctx_payment E (G_context s') = Some p \<and>
        (\<exists>ks. sign_log s' = sign_log s @ ks \<and> may_sign E p ks))"

context device
begin

lemma signs_input_next:
  assumes "signs_input E (transaction t) (unat (signing_input_index t)) kh"
    and "wf_transaction (MAX_INPUT_COUNT E) (transaction t)"
  shows "signs_next E (payment_of t) kh" "unat (signing_input_index t + 1) = unat (signing_input_index t) + 1"
proof -
  show "signs_next E (payment_of t) kh"
    using signs_input_transaction [OF assms] by (simp add: signs_next_def payment_of_def)
  have "unat (signing_input_index t) < MAX_INPUT_COUNT E"
    using assms by (auto simp: signs_input_def Let_def wf_transaction_def)
  then show "unat (signing_input_index t + 1) = unat (signing_input_index t) + 1"
    using input_count(2) by (simp add: unat_word_ariths)
qed

lemma sign_and_send_tries:
  assumes "idle E s" and "ctx_payment E (G_context s) = Some p"
  shows "yields (sign_input_and_send E s) (\<lambda>(r, s'). tries_next E p s s')"
proof -
  have len: "length (bip32_path (G_context s)) = 5" using assms(1) by (simp add: idle_iff)
  obtain t where t: "tx_info (MAX_INPUT_COUNT E) (member (G_context s)) = Some t" "p = payment_of t"
    using assms(2) by (auto simp: ctx_payment_def)
  have wf: "wf_transaction (MAX_INPUT_COUNT E) (transaction t)"
    using assms(1) t(1) by (cases "member (G_context s)") (auto simp: idle_iff wf_tx_ctx_def zero_tx_def)
  show ?thesis unfolding sign_input_and_send_def
  proof (rule yields_bind_any, rule yields_prod)
    fix x err s1 assume c: "crypto_sign_transaction E s = Some x" "x = (err, s1)"
    have s1: "same_request s s1" "ctx_payment E (G_context s1) = Some p"
      "sign_log s1 = sign_log s \<and> err \<noteq> 0 \<or> (\<exists>kh. sign_log s1 = sign_log s @ [kh] \<and> signs_next E p kh \<and>
        unat (signing_input_index t + 1) = unat (signing_input_index t) + 1)"
      using yieldsD [OF crypto_sign_transaction_signs [OF len] c(1)] yieldsD [OF sign_keeps_payment c(1)] c(2)
        t assms(2) signs_input_next [OF _ wf] by auto
    have failed: "tries_next E p s (snd (io_send_sw E err (set_state STATE_NONE s1)))"
      using s1 by (auto simp: tries_next_def same_request_def io_simps set_defs may_sign_def)
    have sent: "tries_next E p s (set_member (Tx_info (t2\<lparr>signing_input_index := signing_input_index t2 + 1\<rparr>)) s2)"
      if "err = 0" "only_sends s1 s2" "tx_info (MAX_INPUT_COUNT E) (member (G_context s2)) = Some t2" for s2 t2
    proof -
      have p2: "payment_of t2 = payment_of t" using that s1(2) t(2) by (auto simp: only_sends_def ctx_payment_def)
      then have "signing_input_index t2 = signing_input_index t"
        by (simp add: payment_of_def word_unat_eq_iff)
      then have "payment_of (t2\<lparr>signing_input_index := signing_input_index t2 + 1\<rparr>) = count_signature p"
        if "unat (signing_input_index t + 1) = unat (signing_input_index t) + 1"
        using that p2 by (simp add: t(2) count_signature_def payment_of_def)
      then show ?thesis using that s1(1,3)
        by (auto simp: tries_next_def same_request_def only_sends_def set_defs)
    qed
    show "yields (if err \<noteq> 0 then Some (err, snd (io_send_sw E err (set_state STATE_NONE s1)))
        else do {
          (_, s) \<leftarrow> helper_send_response_sig E s1;
          t \<leftarrow> tx_info (MAX_INPUT_COUNT E) (member (G_context s));
          Some (err, set_member (Tx_info (t\<lparr>signing_input_index := signing_input_index t + 1\<rparr>)) s)
        }) (\<lambda>(r, s'). tries_next E p s s')"
      by (intro yields_if yields_bind_any yields_prod)
        (use failed sent in \<open>auto dest!: yieldsD [OF response_only_sends(2)]\<close>)
  qed
qed

text \<open>The command for the next signature.\<close>

lemma ask_next_moves:
  assumes "idle E s"
  shows "yields (handler_sign_tx E b P1_NEXT_SIGNATURE m s) (\<lambda>(r, s'). moves E Ask_next s s')"
proof -
  have n: "pending s = None" using assms by (simp add: idle_iff)
  show ?thesis
  proof (cases "req_type (G_context s) = CONFIRM_TRANSACTION \<and> state (G_context s) = STATE_APPROVED")
    case True
    then obtain p where p: "ctx_payment E (G_context s) = Some p"
      using ctx_payment_Some assms by (fastforce simp: idle_def ctx_payment_def)
    have "moves E Ask_next s s'" if "tries_next E p s s'" for s'
      using that True p n by (auto simp: moves_def tries_next_def intro: any_next)
    with True show ?thesis
      unfolding handler_sign_tx_def P1_NEXT_SIGNATURE_def
      by (auto intro!: yields_bind yields_mono [OF sign_and_send_tries [OF assms p]])
  next
    case False
    then have "ctx_phase E (G_context s) = Home \<or> (\<exists>p. ctx_phase E (G_context s) = Entering p)"
      by (auto simp: ctx_phase_def split: request_type_e.splits option.splits)
    with False n show ?thesis
      by (auto simp: handler_sign_tx_def P1_NEXT_SIGNATURE_def case_prod_beta moves_def io_simps set_defs
          zero_ctx_def intro: any_proper(1) [OF next_refused] any_proper(1) [OF next_aborts])
  qed
qed

end

section \<open>The whole application\<close>

context device
begin

lemma header_moves:
  assumes "pending s = None"
  shows "yields (sign_tx_header E b s) (\<lambda>(r, s'). moves E New_payment s s')"
  by (rule yields_mono [OF header_begins [OF assms]]) (auto simp: moves_def intro: any_proper(1) [OF payment_begun])

lemma dispatcher_moves:
  assumes "idle E s" and "valid_buffer (cmd_buffer c)"
  shows "yields (apdu_dispatcher E c s) (\<lambda>(r, s'). app_inv E s' \<longrightarrow> moves E (order_of c) s s')"
proof (cases "refusal E c")
  case (Some sw)
  then show ?thesis by (simp add: dispatch_eq case_prod_beta)
next
  case None
  have n: "pending s = None" using assms(1) by (simp add: idle_iff)
  have cla: "cla c = CLA" using None by (simp add: refusal_def CLA_def split: if_splits)
  consider (key) "ins c = 5" | (msg) "ins c = 7" | (header) "ins c = 6" "p1 c = 0" |
    (data) a where "ins c = 6" "p1 c = P1_OUTPUTS \<and> a = Add_output \<or> p1 c = P1_INPUTS \<and> a = Add_input" |
    (nxt) "ins c = 6" "p1 c = 3" | (other) "ins c \<notin> {5, 6, 7}"
    using None by (auto simp: refusal_def bad_params_def apdu_consts split: if_splits)
  then show ?thesis
  proof cases
    case key
    then have "order_of c = Ask_key" "handle E c s = handler_get_public_key E (cmd_buffer c) (p1 c = 1) s"
      by (simp_all add: order_of_def cla handle_def)
    with yields_mono [OF get_public_key_request [OF n]] moves_new_key show ?thesis
      by (auto simp: dispatch_eq None)
  next
    case msg
    then have "order_of c = Ask_message" "handle E c s = handler_sign_msg E (cmd_buffer c) s"
      by (simp_all add: order_of_def cla handle_def)
    with yields_mono [OF sign_msg_request [OF n]] moves_new_message show ?thesis
      by (auto simp: dispatch_eq None)
  next
    case header
    then have "order_of c = New_payment" "handle E c s = sign_tx_header E (cmd_buffer c) s"
      by (simp_all add: order_of_def cla handle_def handler_sign_tx_def apdu_consts)
    with yields_mono [OF header_moves [OF n]] show ?thesis
      by (auto simp: dispatch_eq None)
  next
    case (data a)
    then have "order_of c = a" "handle E c s = sign_tx_data E (cmd_buffer c) (p1 c) (p2 c = 0x80) s"
      by (auto simp: order_of_def cla handle_def handler_sign_tx_def apdu_consts)
    with sign_tx_data_moves [OF assms data(2)] show ?thesis
      by (auto simp: dispatch_eq None)
  next
    case nxt
    then have "order_of c = Ask_next" "handle E c s = handler_sign_tx E (cmd_buffer c) P1_NEXT_SIGNATURE (p2 c = 0x80) s"
      by (simp_all add: order_of_def cla handle_def apdu_consts)
    with yields_mono [OF ask_next_moves [OF assms(1)]] show ?thesis
      by (auto simp: dispatch_eq None)
  next
    case other
    have "yields (handle E c s) (\<lambda>(x, s'). only_sends s s')"
      using other other_sends by (auto simp: handle_def)
    then have "yields (handle E c s) (\<lambda>(x, s'). app_inv E s' \<longrightarrow> moves E (order_of c) s s')"
      by (rule yields_mono) (auto intro: moves_sends)
    then show ?thesis by (simp add: dispatch_eq None)
  qed
qed

lemma validate_message_req:
  "yields (validate_message E choice s) (\<lambda>s'. req_type (G_context s') = req_type (G_context s))"
  unfolding validate_message_def Let_def
  by (intro yields_if yields_bind_any yields_prod)
    (auto simp: io_simps set_defs same_request_def only_sends_def
      dest!: yieldsD [OF crypto_sign_message_signs] yieldsD [OF response_only_sends(3)])

lemma choice_moves:
  assumes i: "app_inv E s" and p: "pending s = Some (r, texts)"
  shows "yields (review_choice E r choice s) (\<lambda>s'. running s' = running s \<and> pending s' = None \<and>
    (\<exists>ks. any_answer E (question_of E r (G_context s)) texts choice (ctx_phase E (G_context s')) ks \<and>
       sign_log s' = sign_log s @ ks))" (is "yields _ ?Q")
proof -
  let ?s = "s\<lparr>pending := None\<rparr>"
  have len: "length (bip32_path (G_context s)) = 5" by (rule inv_path [OF i])
  have idle: "idle E ?s" "idle E (set_state st ?s)" for st
    using i p idle_set_state [of E ?s] by (auto simp: app_inv_def idle_def)
  show ?thesis
  proof (cases r)
    case Review_Address
    have req: "req_type (G_context s) = CONFIRM_ADDRESS" using i p Review_Address by (simp add: app_inv_def pending_fits_def)
    have "yields (validate_pubkey E choice ?s) (\<lambda>s'. only_sends ?s s')"
      unfolding validate_pubkey_def
      by (rule yields_if, rule yields_bind, rule yields_mono [OF response_only_sends(1)])
        (auto simp: io_simps only_sends_def)
    then show ?thesis unfolding review_choice_def Let_def Review_Address review_e.case
      by (rule yields_mono) (simp add: only_sends_def question_of_def req any_proper(2))
  next
    case Review_Transaction
    obtain t where t: "member (G_context s) = Tx_info t" "req_type (G_context s) = CONFIRM_TRANSACTION"
      using i p Review_Transaction by (auto simp: app_inv_def pending_fits_def)
    then have c: "ctx_payment E (G_context s) = Some (payment_of t)" by (simp add: ctx_payment_def)
    have sign: "?Q s'" if "choice" "tries_next E (payment_of t) (set_state STATE_APPROVED ?s) s'" "running s' = running s" for s'
      using that t(2)
      by (auto simp: tries_next_def set_defs question_of_def Review_Transaction c intro: any_confirmed)
    have run: "running s' = running s" if "sign_input_and_send E (set_state STATE_APPROVED ?s) = Some (x, s')" for x s'
      using yieldsD [OF sign_and_answer that] len by (simp add: set_defs)
    have c': "ctx_payment E (G_context (set_state STATE_APPROVED ?s)) = Some (payment_of t)"
      using c by (simp add: set_simps)
    show ?thesis
    proof (cases choice)
      case True
      then show ?thesis unfolding review_choice_def Let_def Review_Transaction review_e.case
        by (simp only: validate_transaction_eq, intro yields_bind_any yields_prod)
          (use sign run yieldsD [OF sign_and_send_tries [OF idle(2) c']] Review_Transaction in fastforce)
    next
      case False
      then show ?thesis using t(2) c
        by (auto simp: review_choice_def Review_Transaction validate_transaction_def question_of_def io_simps set_defs
            any_proper(2))
    qed
  next
    case Review_Message
    have req: "req_type (G_context s) = CONFIRM_MESSAGE" using i p Review_Message by (simp add: app_inv_def pending_fits_def)
    obtain m where m: "msg_ready (G_context s) m" "question_of E r (G_context s) = Confirm_message (request_of m)"
      using i p Review_Message by (auto simp: app_inv_def pending_fits_def question_of_def msg_ready_def)
    have sg: "sign_log s' = sign_log s @ [request_signature E (request_of m)]" if "message_signature E s s'" for s'
      using message_signed [OF i p [unfolded Review_Message] that] m(1)
      by (auto simp: msg_ready_def request_signature_def request_of_def)
    have "yields (review_choice E r choice s) (\<lambda>s'. req_type (G_context s') = CONFIRM_MESSAGE)"
      using validate_message_req [of choice ?s] req by (simp add: review_choice_def Review_Message)
    then show ?thesis
      using review_choice_gate [OF len, of E r choice] sg m(2)
      by (auto simp: yields_def Review_Message any_answer_def)
  qed
qed

lemma wallet_sim:
  assumes "app_step E s e s'" and i: "app_inv E s"
  shows "loose_step E (app_wallet E s) (action_of E e) (app_wallet E s')"
  using assms(1)
proof (cases rule: app_step.cases)
  case (received bs)
  have idle: "idle E s" using received(3) i by (simp add: app_inv_def idle_def)
  have i': "app_inv E s'" by (rule step_keeps [OF assms])
  have "moves E a s s'" if a: "action_of E e = Host a" for a
  proof (cases "apdu_parser E bs")
    case None
    then show ?thesis using received(4) by (auto simp: app_main_round_def)
  next
    case (Some c)
    then obtain x s1 where d: "apdu_dispatcher E c s = Some (x, s1)"
      and s1: "G_context s' = G_context s1" "pending s' = pending s1" "sign_log s' = sign_log s1"
      using received(4) by (auto simp: app_main_round_def bind_eq_Some_conv split: if_splits)
    have "app_inv E s1" using i' unfolding app_inv_def s1 .
    then have "moves E a s s1"
      using yieldsD [OF dispatcher_moves [OF idle cmd_buffer_valid [OF Some]] d] a received(1) Some by simp
    then show ?thesis using s1 app_phase_cong [OF s1(1,2)] by (simp add: moves_def)
  qed
  moreover have "\<not> asking (app_phase E s)"
    using received(3) by (auto simp: ctx_phase_def split: request_type_e.splits option.splits)
  ultimately show ?thesis using received(1,2) loose_host [of "app_wallet E s" E _ _ _ "running s'"]
    by (auto simp: app_wallet_def moves_def)
next
  case failed
  then have "\<not> asking (app_phase E s)"
    by (auto simp: ctx_phase_def split: request_type_e.splits option.splits)
  then show ?thesis using failed proper [OF hang_up [of "app_wallet E s" E]]
    by (simp add: app_wallet_def app_phase_cong [of s' s])
next
  case (chosen r texts choice)
  from yieldsD [OF choice_moves [OF i chosen(3)] chosen(4)] obtain ks where
    "running s' = running s" "pending s' = None" "sign_log s' = sign_log s @ ks"
    "any_answer E (question_of E r (G_context s)) texts choice (ctx_phase E (G_context s')) ks" by auto
  moreover have "app_phase E s = Asking (question_of E r (G_context s)) texts"
    using chosen(3) by (simp add: app_phase_def)
  ultimately show ?thesis using chosen(1,2) loose_user [of "app_wallet E s"]
    by (auto simp: app_wallet_def)
qed

end

lemma wallet_of_start: "app_wallet E app_main_start = wallet_start"
  by (simp add: app_wallet_def wallet_start_def app_main_start_def zero_ctx_def)

sublocale device \<subseteq> wallet_map: refinement_mapping "app_step E" app_main_start "app_inv E"
  "loose_step E" wallet_start "app_wallet E" "action_of E"
  by unfold_locales (rule wallet_of_start, rule wallet_sim)

interpretation std_wallet: refinement_mapping "app_step std_env" app_main_start "app_inv std_env"
  "loose_step std_env" wallet_start "app_wallet std_env" "action_of std_env"
  by (rule std_dev.wallet_map.refinement_mapping_axioms)

end
