(* ===== verification/Wallet_Safety.thy ===== *)
theory Wallet_Safety
  imports Wallet_Refinement
begin

text \<open>
  What follows for the application from its refinement of the wallet: the payment it spends
  extends one that the user has confirmed, its inputs are signed in their order, and with an
  orderly host no step deviates.
\<close>

section \<open>Confirmed payments\<close>

text \<open>What a payment keeps when items are added and inputs are signed: the header and every
  item taken in before.\<close>

definition keeps_items :: "payment \<Rightarrow> payment \<Rightarrow> bool" where
  "keeps_items p p' \<longleftrightarrow>
     version (pay_tx p') = version (pay_tx p) \<and> account (pay_tx p') = account (pay_tx p) \<and>
     tx_output_len (pay_tx p') = tx_output_len (pay_tx p) \<and>
     tx_input_len (pay_tx p') = tx_input_len (pay_tx p) \<and>
     outputs_in p \<le> outputs_in p' \<and> inputs_in p \<le> inputs_in p' \<and>
     take (outputs_in p) (tx_outputs (pay_tx p')) = take (outputs_in p) (tx_outputs (pay_tx p)) \<and>
     take (inputs_in p) (tx_inputs (pay_tx p')) = take (inputs_in p) (tx_inputs (pay_tx p))"

definition extends :: "payment \<Rightarrow> payment \<Rightarrow> bool" where
  "extends p p' \<longleftrightarrow> keeps_items p p' \<and> (complete p \<longrightarrow> complete p' \<and> pay_tx p' = pay_tx p)"

lemma extends_refl [simp]: "extends p p"
  by (simp add: extends_def keeps_items_def Let_def)

lemma take_le_eq:
  assumes "m \<le> n" and "take n xs = take n ys"
  shows "take m xs = take m ys"
proof -
  have "take m (take n xs) = take m (take n ys)" by (simp only: assms(2))
  with assms(1) show ?thesis by simp
qed

lemma keeps_items_trans:
  assumes "keeps_items p p'" and "keeps_items p' p''"
  shows "keeps_items p p''"
proof -
  have le: "outputs_in p \<le> outputs_in p'" "inputs_in p \<le> inputs_in p'"
    using assms(1) unfolding keeps_items_def by blast+
  have "take (outputs_in p') (tx_outputs (pay_tx p'')) = take (outputs_in p') (tx_outputs (pay_tx p'))"
    "take (inputs_in p') (tx_inputs (pay_tx p'')) = take (inputs_in p') (tx_inputs (pay_tx p'))"
    using assms(2) unfolding keeps_items_def by blast+
  from le(1) [THEN take_le_eq, OF this(1)] le(2) [THEN take_le_eq, OF this(2)] show ?thesis
    using assms unfolding keeps_items_def by (metis le_trans)
qed

lemma extends_trans: "extends p p' \<Longrightarrow> extends p' p'' \<Longrightarrow> extends p p''"
  by (auto simp: extends_def elim: keeps_items_trans)

lemma put_extends:
  "outputs_in p < tx_output_len (pay_tx p) \<Longrightarrow> extends p (put_output x p)"
  "outputs_in p < tx_output_len (pay_tx p) \<Longrightarrow> extends p ((put_output x p)\<lparr>outputs_in := outputs_in p + 1\<rparr>)"
  "inputs_in p < tx_input_len (pay_tx p) \<Longrightarrow> extends p (put_input y p)"
  "inputs_in p < tx_input_len (pay_tx p) \<Longrightarrow> extends p ((put_input y p)\<lparr>inputs_in := inputs_in p + 1\<rparr>)"
  by (simp_all add: extends_def keeps_items_def complete_def put_output_def put_input_def)

lemma add_item_extends: "add_item a b p p' \<Longrightarrow> extends p p' \<and> next_input p' = next_input p"
  by (frule add_item_next, induction rule: add_item.induct) (simp_all add: put_extends put_extends [simplified])

lemma count_extends [simp]: "extends p (count_signature p)" "next_input (count_signature p) = next_input p + 1"
  by (auto simp: count_signature_def extends_def keeps_items_def complete_def Let_def)

text \<open>Where a wallet that spends comes from, one move back.\<close>

lemma spending_source:
  assumes "any_move E ph a (Spending p) ks"
  obtains pa where "ph = Spending pa" and "extends pa p" and "next_input p = next_input pa + length ks"
    and "\<forall>kh\<in>set ks. signs_next E pa kh"
  | "ph = Spending p" and "ks = []"
proof -
  from assms consider "host_move E ph a (Spending p) ks" | "deviation E ph (Host a) (Spending p) ks"
    unfolding any_move_def by blast
  then show thesis
  proof cases
    case 1
    then show thesis using that by (cases rule: spending_host_move) auto
  next
    case 2
    then show thesis using that by (cases rule: spending_deviation) (auto dest: add_item_extends)
  qed
qed

text \<open>A payment being spent extends one that the user has confirmed, and its inputs are signed in
  their order.\<close>

definition confirmed :: "env \<Rightarrow> event list \<Rightarrow> app \<Rightarrow> payment \<Rightarrow> bool" where
  "confirmed E es s p \<longleftrightarrow>
     (\<exists>es1 s1 es2 t texts. es = es1 @ Chosen True # es2 \<and> run (app_step E) app_main_start es1 s1 \<and>
        pending s1 = Some (Review_Transaction, texts) \<and> member (G_context s1) = Tx_info t \<and>
        shows_transaction E (transaction t) texts \<and> extends (payment_of t) p \<and>
        next_input p = unat (signing_input_index t) + (length (sign_log s) - length (sign_log s1)) \<and>
        length (sign_log s1) \<le> length (sign_log s))"

lemma confirmed_step:
  assumes "confirmed E es s pa" and "extends pa p" and "next_input p = next_input pa + length ks"
    and "sign_log s' = sign_log s @ ks"
  shows "confirmed E (es @ [e]) s' p"
proof -
  obtain es1 s1 es2 t texts where c: "es = es1 @ Chosen True # es2" "run (app_step E) app_main_start es1 s1"
    "pending s1 = Some (Review_Transaction, texts)" "member (G_context s1) = Tx_info t"
    "shows_transaction E (transaction t) texts" "extends (payment_of t) pa"
    "next_input pa = unat (signing_input_index t) + (length (sign_log s) - length (sign_log s1))"
    "length (sign_log s1) \<le> length (sign_log s)"
    using assms(1) by (auto simp: confirmed_def)
  moreover have "es @ [e] = es1 @ Chosen True # (es2 @ [e])" by (simp add: c(1))
  moreover have "extends (payment_of t) p" by (rule extends_trans [OF c(6) assms(2)])
  moreover have "next_input p = unat (signing_input_index t) + (length (sign_log s') - length (sign_log s1))"
    "length (sign_log s1) \<le> length (sign_log s')"
    using c(7,8) assms(3,4) by simp_all
  ultimately show ?thesis unfolding confirmed_def by blast
qed

context device
begin

lemma run_confirmed:
  assumes "run (app_step E) app_main_start es s"
  shows "run (app_step E) app_main_start es s \<and> (\<forall>p. app_phase E s = Spending p \<longrightarrow> confirmed E es s p)"
proof (rule app.run_history [OF assms])
  show "run (app_step E) app_main_start [] app_main_start \<and>
      (\<forall>p. app_phase E app_main_start = Spending p \<longrightarrow> confirmed E [] app_main_start p)"
    by (simp add: run_start app_main_start_def zero_ctx_def)
next
  fix es s e s'
  assume i: "app_inv E s" and h: "run (app_step E) app_main_start es s \<and>
      (\<forall>p. app_phase E s = Spending p \<longrightarrow> confirmed E es s p)" and st: "app_step E s e s'"
  have "confirmed E (es @ [e]) s' p" if p: "app_phase E s' = Spending p" for p
    using wallet_sim [OF st i]
  proof (cases rule: loose_cases)
    case (move a ks)
    then have m: "any_move E (app_phase E s) a (Spending p) ks" "sign_log s' = sign_log s @ ks"
      using p by (simp_all add: app_wallet_def)
    from m(1) show ?thesis
    proof (cases rule: spending_source)
      case (1 pa)
      with h show ?thesis by (intro confirmed_step [OF _ _ _ m(2)]) auto
    next
      case 2
      with h m(2) show ?thesis by (intro confirmed_step [of E es s p p "[]"]) auto
    qed
  next
    case over
    then show ?thesis using p h by (intro confirmed_step [of E es s p p "[]"]) (auto simp: app_wallet_def)
  next
    case (answer q texts b ks)
    then have q: "app_phase E s = Asking q texts" "any_answer E q texts b (Spending p) ks"
        "sign_log s' = sign_log s @ ks"
      and e: "e = Chosen b"
      using p by (cases e; simp add: app_wallet_def)+
    from q(2) obtain p0 where p0: "q = Confirm_payment p0" "b" "p = count_signature p0" "length ks = 1"
      by (auto simp: any_answer_def elim: user_move.cases answer_deviation)
    then obtain t where t: "pending s = Some (Review_Transaction, texts)" "member (G_context s) = Tx_info t"
      "shows_transaction E (transaction t) texts" "p0 = payment_of t"
      using q(1) i by (auto simp: app_phase_def question_of_def ctx_payment_def app_inv_def pending_fits_def
          ctx_phase_def split: option.splits review_e.splits request_type_e.splits if_splits)
    show ?thesis unfolding confirmed_def
      by (intro exI [of _ es] exI [of _ s] exI [of _ "[]"] exI [of _ t] exI [of _ texts])
        (use h e p0 q(3) t in \<open>auto simp: payment_of_def [of t, THEN arg_cong, of next_input]\<close>)
  qed
  with h st show "run (app_step E) app_main_start (es @ [e]) s' \<and>
      (\<forall>p. app_phase E s' = Spending p \<longrightarrow> confirmed E (es @ [e]) s' p)"
    by (auto intro: run_step)
qed

end

lemma next_signature_of:
  assumes "any_move E (Spending p) Ask_next ph ks" and "signatures' = signatures0 @ ks" and "signatures' \<noteq> signatures0"
  obtains kh where "signatures' = signatures0 @ [kh]" and "signs_next E p kh"
proof -
  have "may_sign E p ks"
    using assms(1) unfolding any_move_def may_sign_def
    by (auto elim!: next_host_move next_deviation simp: may_sign_def)
  then show thesis using that assms(2,3) by (auto simp: may_sign_def)
qed

lemma asks_next_action: "asks_next E s e \<Longrightarrow> action_of E e = Host Ask_next"
  by (auto simp: asks_next_def order_of_def apdu_consts)

lemma asks_next_phase:
  assumes "asks_next E s e" and "app_step E s e s'" and "app_inv E s"
  obtains p where "app_phase E s = Spending p"
proof -
  have s: "pending s = None" "req_type (G_context s) = CONFIRM_TRANSACTION" "state (G_context s) = STATE_APPROVED"
    using assms(1,2) by (auto simp: asks_next_def elim: received_cases)
  with assms(3) obtain t where "tx_info (MAX_INPUT_COUNT E) (member (G_context s)) = Some t"
    using ctx_payment_Some by (auto simp: app_inv_def)
  with s have "app_phase E s = Spending (payment_of t)" by (simp add: ctx_payment_def)
  with that show thesis by blast
qed

section \<open>Orderly use\<close>

text \<open>The steps of the application in the hands of an orderly host.\<close>

definition orderly_step :: "env \<Rightarrow> app \<Rightarrow> event \<Rightarrow> app \<Rightarrow> bool" where
  "orderly_step E s e s' \<longleftrightarrow> app_step E s e s' \<and> orderly_use (app_phase E s) (action_of E e)"

sublocale device \<subseteq> orderly_map: refinement_mapping "orderly_step E" app_main_start
  "\<lambda>s. app_inv E s \<and> settled (app_phase E s)" "wallet_step E" wallet_start "app_wallet E" "action_of E"
proof unfold_locales
  have "app_phase E app_main_start = Home" by (simp add: app_main_start_def zero_ctx_def)
  then show "app_inv E app_main_start \<and> settled (app_phase E app_main_start)" using start_inv by simp
  show "app_wallet E app_main_start = wallet_start" by (rule wallet_of_start)
next
  fix s e s' assume "orderly_step E s e s'" and i: "app_inv E s \<and> settled (app_phase E s)"
  then have st: "app_step E s e s'" and u: "orderly_use (app_phase E s) (action_of E e)"
    by (simp_all add: orderly_step_def)
  have w: "wallet_step E (app_wallet E s) (action_of E e) (app_wallet E s') \<and> settled (phase (app_wallet E s'))"
    by (rule loose_orderly [OF wallet_sim [OF st]]) (use i u in \<open>simp_all add: app_wallet_def\<close>)
  then show "wallet_step E (app_wallet E s) (action_of E e) (app_wallet E s')" by blast
  from w show "app_inv E s' \<and> settled (app_phase E s')"
    using step_keeps [OF st] i by (simp add: app_wallet_def)
qed

context device
begin

lemma run_refines:
  "run (app_step E) app_main_start es s \<Longrightarrow>
   run (loose_step E) wallet_start (map (action_of E) es) (app_wallet E s)"
  by (rule wallet_map.map_run)

lemma run_orderly:
  "run (orderly_step E) app_main_start es s \<Longrightarrow>
   run (wallet_step E) wallet_start (map (action_of E) es) (app_wallet E s)"
  by (rule orderly_map.map_run)

text \<open>Before the first approval every step is orderly.\<close>

lemma orderly_entry:
  assumes "run (app_step E) app_main_start es s" and "Chosen True \<notin> set es"
  shows "run (orderly_step E) app_main_start es s"
  using assms
proof (induction rule: run.induct)
  case run_start
  show ?case by (rule run.run_start)
next
  case (run_step es s e s')
  have "state (G_context s) \<noteq> STATE_APPROVED" using run_no_approval [OF run_step.hyps(1)] run_step.prems by simp
  then have "app_phase E s \<noteq> Spending p" for p
    by (auto simp: app_phase_def ctx_phase_def split: option.splits request_type_e.splits)
  then have "orderly_use (app_phase E s) (action_of E e)"
    using run_step.prems by (cases e) (auto simp: orderly_use_def)
  then have "orderly_step E s e s'" using run_step.hyps(2) by (simp add: orderly_step_def)
  then show ?case using run_step.IH run_step.prems by (auto intro: run.run_step)
qed

end

section \<open>Properties\<close>



text \<open>C6. Later signatures: a signature made by the command for the next signature belongs to an
  approval earlier in the run. The transaction signed has the version, the account, the counts
  and all outputs and inputs that the approved one had received when its texts were on the
  screen; when it had received all that its header announced, it is the approved transaction
  itself. The inputs are signed one after the other, from the one the approval signed.\<close>

theorem later_signatures_confirmed:
  assumes "device E" and "run (app_step E) app_main_start es s" and "app_step E s e s'"
    and "asks_next E s e" and "sign_log s' \<noteq> sign_log s"
  shows "\<exists>es1 s1 es2 t texts p kh. es = es1 @ Chosen True # es2 \<and> run (app_step E) app_main_start es1 s1 \<and>
    pending s1 = Some (Review_Transaction, texts) \<and> member (G_context s1) = Tx_info t \<and>
    shows_transaction E (transaction t) texts \<and> keeps_items (payment_of t) p \<and>
    (complete (payment_of t) \<longrightarrow> pay_tx p = transaction t) \<and>
    next_input p = unat (signing_input_index t) + (length (sign_log s) - length (sign_log s1)) \<and>
    sign_log s' = sign_log s @ [kh] \<and> signs_transaction E (pay_tx p) (next_input p) kh"
proof -
  have i: "app_inv E s" by (rule device.run_app_inv [OF assms(1,2)])
  obtain p where p: "app_phase E s = Spending p" by (rule asks_next_phase [OF assms(4,3) i])
  obtain ph ks where m: "any_move E (Spending p) Ask_next ph ks" "sign_log s' = sign_log s @ ks"
    using device.wallet_sim [OF assms(1,3) i] p asks_next_action [OF assms(4)]
    by (cases rule: loose_cases) (auto simp: app_wallet_def)
  from m(1) obtain kh where kh: "sign_log s' = sign_log s @ [kh]" "signs_next E p kh"
    using m(2) assms(5) by (rule next_signature_of)
  have "confirmed E es s p" using device.run_confirmed [OF assms(1,2)] p by blast
  with kh show ?thesis unfolding confirmed_def extends_def signs_next_def
    by (fastforce simp: payment_of_def)
qed

theorem later_signatures_confirmed_witness:
  "\<exists>s s' t p kh. app_step std_env s (Received ex_next) s' \<and> sign_log s' = sign_log s @ [kh] \<and>
     keeps_items (payment_of t) p \<and> signs_transaction std_env (pay_tx p) (next_input p) kh"
proof -
  obtain es s texts where s: "run (app_step std_env) app_main_start es s" "running s"
    "pending s = Some (Review_Transaction, texts)" "sign_log s = []"
    "member (G_context s) = Tx_info (add_input (ex_input 4) ex_sent)"
    using ex_tx_run by auto
  obtain s1 where s1: "app_step std_env s (Chosen True) s1" "signing std_env ex_tx 0 1 s1"
    using ex_tx_step [OF s(1,2,3,5,4)] by auto
  have r1: "run (app_step std_env) app_main_start (es @ [Chosen True]) s1" using s(1) s1(1) by (rule run_step)
  obtain s2 where s2: "app_exec std_env s1 (Received ex_next) = Some s2" "sign_log s2 \<noteq> sign_log s1"
    using std_dev.next_signature_ok [OF std_crypto_works ex_next_command s1(2) ex_signable]
      signable_input [OF ex_signable, of 1] ex_index(2) by auto
  have a: "asks_next std_env s1 (Received ex_next)"
    using s1(2) ex_next_command by (auto simp: asks_next_def signing_def next_command_def)
  from later_signatures_confirmed [OF std_device r1 s2(1) [unfolded app_exec_iff] a s2(2)] s2(1)
  show ?thesis unfolding app_exec_iff by metis
qed

end
