(* ===== verification/Address_Tests.thy ===== *)
theory Address_Tests
  imports Address
begin

text \<open>
  The address tests of \<open>src/unit-tests/test_address.c\<close> and \<open>src/unit-tests/test_tx_utils.c\<close>, run on the
  model. An address is determined by the kind and the key (\<open>encodes_unique\<close>), so the functions
  are evaluated by checking the expected text: its symbols spell version and key, and prefix
  and symbols verify.
\<close>

section \<open>Checking a text\<close>

lemma encodesI:
  assumes "map chr (ys @ c) = a" and "symbols (ys @ c)" and "length c = 8"
    and "p < 5" and "spell 5 ys = spell 8 (version_byte ver # key) @ replicate p False"
    and "poly cashaddr_polymod_step kaspa_state (ys @ c) = 1"
  shows "encodes ver key a"
proof -
  have "regroups 5 ys 8 (version_byte ver # key)"
    using assms(2,4,5) by (auto simp: regroups_def symbols_fits)
  then show ?thesis using assms unfolding encodes_def valid_codeword_def
    by (intro exI [of _ ys] exI [of _ c]) simp
qed

lemma kaspa_state_eval: "kaspa_state = 1444528160"
  by (simp add: kaspa_state_def c_bytes_def cashaddr_polymod_step_def)

lemma zeros_1: "zeros (Suc 0) = [0]"
  by (simp add: zeros_def)

lemma address_from_pubkey_text:
  assumes "encodes (addr_version ty) (addr_key ty pk) (c_bytes a)" and "length pk = 64"
  shows "address_from_pubkey pk ty (zeros (addr_len ty + 1)) (addr_len ty) = Some (True, c_bytes (''kaspa:'' @ a) @ [0])"
proof -
  obtain enc where "encodes (addr_version ty) (addr_key ty pk) enc"
    "address_from_pubkey pk ty (zeros (addr_len ty + 1)) (addr_len ty) = Some (True, c_bytes ''kaspa:'' @ enc @ [0])"
    using address_from_pubkey_eq [OF assms(2), of "addr_len ty" "zeros (addr_len ty + 1)" ty] by (auto simp: zeros_1)
  with encodes_unique [OF assms(1)] show ?thesis by (simp add: c_bytes_def)
qed

lemma script_to_address_text:
  assumes "encodes (addr_version (script_type s)) (script_key s) (c_bytes a)" and "length s = 35"
    and "n = addr_len (script_type s) + 1"
  shows "script_public_key_to_address (zeros n) n s 35 = Some (True, c_bytes (''kaspa:'' @ a) @ [0])"
proof -
  obtain x where "is_address_of s x" "script_public_key_to_address (zeros n) n s 35 = Some (True, x @ [0])"
    using script_address [of 35 s n "zeros n"] assms(2,3) by (auto simp: zeros_1)
  then show ?thesis using encodes_unique [OF assms(1)] by (auto simp: is_address_of_def c_bytes_def)
qed

lemma charset_eval: "charset =
    [0x71, 0x70, 0x7a, 0x72, 0x79, 0x39, 0x78, 0x38, 0x67, 0x66, 0x32, 0x74, 0x76, 0x64, 0x77, 0x30,
     0x73, 0x33, 0x6a, 0x6e, 0x35, 0x34, 0x6b, 0x68, 0x63, 0x65, 0x36, 0x6d, 0x75, 0x61, 0x37, 0x6c,
     0x00]"
  by (simp add: charset_def c_bytes_def)

section \<open>The tests\<close>

lemmas step_eval = polymod_step_eq [of "numeral k" for k] polymod_step_eq [of 1]

lemma replicate_3: "replicate 3 x = [x, x, x]"
  by (simp add: numeral_3_eq_3)

lemma bits_of_eval:
  "bits_of 5 w = [bit w 4, bit w 3, bit w 2, bit w 1, bit w 0]"
  "bits_of 8 w = [bit w 7, bit w 6, bit w 5, bit w 4, bit w 3, bit w 2, bit w 1, bit w 0]"
  by (simp_all add: bits_of_def upt_rec eval_nat_numeral)

lemmas text_eval = replicate_3 spell_def bits_of_eval version_byte_def kaspa_state_eval step_eval

definition key_schnorr_1 :: bytes where
  "key_schnorr_1 =
    [0x21, 0xeb, 0x0c, 0x42, 0x70, 0x12, 0x8b, 0x16, 0xc9, 0x3c, 0x5f, 0x0d, 0xac, 0x48, 0xd5, 0x60,
     0x51, 0xa6, 0x23, 0x7d, 0xae, 0x99, 0x7b, 0x58, 0x91, 0x26, 0x95, 0x05, 0x28, 0x18, 0xe3, 0x48,
     0xb0, 0xa8, 0x95, 0xcb, 0xd0, 0xc9, 0x3a, 0x11, 0xee, 0x7a, 0xfa, 0xc7, 0x45, 0x92, 0x9d, 0x96,
     0xa4, 0x64, 0x2a, 0x71, 0x83, 0x1f, 0x54, 0xa7, 0x37, 0x78, 0x93, 0xaf, 0x71, 0xa2, 0xe2, 0xae]"

lemma text_schnorr_1: "map chr
   ([0x00, 0x00, 0x10, 0x1e, 0x16, 0x03, 0x02, 0x02, 0x0e, 0x00, 0x09, 0x08, 0x16, 0x05, 0x16, 0x09,
     0x07, 0x11, 0x0f, 0x10, 0x1b, 0x0b, 0x02, 0x08, 0x1a, 0x15, 0x10, 0x05, 0x03, 0x09, 0x11, 0x03,
     0x0f, 0x16, 0x17, 0x09, 0x12, 0x1e, 0x1a, 0x18, 0x12, 0x04, 0x13, 0x09, 0x0a, 0x01, 0x09, 0x08,
     0x03, 0x03, 0x11, 0x14, 0x10] @
    [0x1d, 0x1d, 0x0b, 0x1c, 0x07, 0x07, 0x06, 0x00]) =
    c_bytes ''qqs7krzzwqfgk9kf830smtzg64s9rf3r0khfj76cjynf2pfgrr35saatu88xq''"
  by (simp add: chr_def charset_eval) (simp add: c_bytes_def)

lemma encodes_schnorr_1: "encodes (addr_version SCHNORR) (addr_key SCHNORR key_schnorr_1)
    (c_bytes ''qqs7krzzwqfgk9kf830smtzg64s9rf3r0khfj76cjynf2pfgrr35saatu88xq'')"
  by (rule encodesI [OF text_schnorr_1, where p = 1]) (simp_all add: key_schnorr_1_def text_eval)

theorem test_address_schnorr_1: "address_from_pubkey key_schnorr_1 SCHNORR (zeros 68) 67 =
    Some (True, c_bytes ''kaspa:qqs7krzzwqfgk9kf830smtzg64s9rf3r0khfj76cjynf2pfgrr35saatu88xq'' @ [0])"
  using address_from_pubkey_text [OF encodes_schnorr_1]
  by (simp add: key_schnorr_1_def)

definition key_p2sh :: bytes where
  "key_p2sh =
    [0xf3, 0x80, 0x31, 0xf6, 0x1c, 0xa2, 0x3d, 0x70, 0x84, 0x4f, 0x63, 0xa4, 0x77, 0xd0, 0x7f, 0x0b,
     0x2c, 0x2d, 0xec, 0xab, 0x90, 0x7c, 0x2e, 0x09, 0x6e, 0x54, 0x8b, 0x0e, 0x08, 0x72, 0x1c, 0x79,
     0x00, 0x00, 0x00, 0x00, 0x00, 0x00, 0x00, 0x00, 0x00, 0x00, 0x00, 0x00, 0x00, 0x00, 0x00, 0x00,
     0x00, 0x00, 0x00, 0x00, 0x00, 0x00, 0x00, 0x00, 0x00, 0x00, 0x00, 0x00, 0x00, 0x00, 0x00, 0x00]"

lemma text_p2sh: "map chr
   ([0x01, 0x03, 0x19, 0x18, 0x00, 0x0c, 0x0f, 0x16, 0x03, 0x12, 0x11, 0x03, 0x1a, 0x1c, 0x04, 0x04,
     0x09, 0x1d, 0x11, 0x1a, 0x08, 0x1d, 0x1e, 0x10, 0x0f, 0x1c, 0x05, 0x12, 0x18, 0x0b, 0x0f, 0x0c,
     0x15, 0x0e, 0x08, 0x07, 0x18, 0x0b, 0x10, 0x09, 0x0d, 0x19, 0x0a, 0x08, 0x16, 0x03, 0x10, 0x08,
     0x0e, 0x08, 0x0e, 0x07, 0x12] @
    [0x08, 0x06, 0x09, 0x02, 0x09, 0x18, 0x05, 0x07]) =
    c_bytes ''precqv0krj3r6uyyfa36ga7s0u9jct0v4wg8ctsfde2gkrsgwgw8jgxfzfc98''"
  by (simp add: chr_def charset_eval) (simp add: c_bytes_def)

lemma encodes_p2sh: "encodes (addr_version P2SH) (addr_key P2SH key_p2sh)
    (c_bytes ''precqv0krj3r6uyyfa36ga7s0u9jct0v4wg8ctsfde2gkrsgwgw8jgxfzfc98'')"
  by (rule encodesI [OF text_p2sh, where p = 1]) (simp_all add: key_p2sh_def text_eval)

theorem test_address_p2sh: "address_from_pubkey key_p2sh P2SH (zeros 68) 67 =
    Some (True, c_bytes ''kaspa:precqv0krj3r6uyyfa36ga7s0u9jct0v4wg8ctsfde2gkrsgwgw8jgxfzfc98'' @ [0])"
  using address_from_pubkey_text [OF encodes_p2sh]
  by (simp add: key_p2sh_def)

definition key_ecdsa_even :: bytes where
  "key_ecdsa_even =
    [0xd5, 0xfd, 0xc7, 0xad, 0x11, 0xa6, 0x5d, 0x0b, 0xbe, 0x78, 0x82, 0xfc, 0x3d, 0xbc, 0x91, 0xb5,
     0x86, 0x1d, 0x18, 0x2d, 0xcc, 0xe7, 0x9f, 0x7c, 0x1b, 0xe5, 0xbf, 0xd3, 0x0a, 0x67, 0x7c, 0xd6,
     0xc5, 0x62, 0xad, 0x66, 0xab, 0xcd, 0xb1, 0xec, 0x02, 0xf3, 0xe4, 0xb0, 0x7c, 0x11, 0xbc, 0x5a,
     0x94, 0xa6, 0x85, 0xfe, 0xdb, 0x5d, 0x55, 0x87, 0x07, 0x6e, 0x48, 0xb1, 0x2d, 0xa6, 0xc2, 0x82]"

lemma text_ecdsa_even: "map chr
   ([0x00, 0x04, 0x01, 0x0d, 0x0b, 0x1f, 0x0e, 0x07, 0x15, 0x14, 0x08, 0x1a, 0x0c, 0x17, 0x08, 0x0b,
     0x17, 0x19, 0x1c, 0x08, 0x05, 0x1f, 0x01, 0x1d, 0x17, 0x12, 0x08, 0x1b, 0x0b, 0x01, 0x10, 0x1d,
     0x03, 0x00, 0x16, 0x1c, 0x19, 0x19, 0x1c, 0x1f, 0x0f, 0x10, 0x0d, 0x1e, 0x0b, 0x0f, 0x1e, 0x13,
     0x01, 0x09, 0x13, 0x17, 0x19, 0x15, 0x10] @
    [0x1e, 0x09, 0x0d, 0x07, 0x0a, 0x13, 0x0f, 0x0c]) =
    c_bytes ''qypdtlw845g6vhgtheug9lpahjgmtpsarqkueeul0sd7t07npfnhe4s7fd82n0v''"
  by (simp add: chr_def charset_eval) (simp add: c_bytes_def)

lemma encodes_ecdsa_even: "encodes (addr_version ECDSA) (addr_key ECDSA key_ecdsa_even)
    (c_bytes ''qypdtlw845g6vhgtheug9lpahjgmtpsarqkueeul0sd7t07npfnhe4s7fd82n0v'')"
  by (rule encodesI [OF text_ecdsa_even, where p = 3]) (simp_all add: key_ecdsa_even_def text_eval)

theorem test_address_ecdsa_even: "address_from_pubkey key_ecdsa_even ECDSA (zeros 70) 69 =
    Some (True, c_bytes ''kaspa:qypdtlw845g6vhgtheug9lpahjgmtpsarqkueeul0sd7t07npfnhe4s7fd82n0v'' @ [0])"
  using address_from_pubkey_text [OF encodes_ecdsa_even]
  by (simp add: key_ecdsa_even_def)

definition key_ecdsa_odd :: bytes where
  "key_ecdsa_odd =
    [0xe3, 0x10, 0x0d, 0x85, 0xef, 0xae, 0x93, 0xe0, 0xc2, 0xfc, 0x65, 0x4b, 0x2f, 0x0c, 0x33, 0x58,
     0x4f, 0x21, 0x3a, 0x3f, 0xdf, 0xfd, 0x02, 0x3c, 0x82, 0x12, 0x77, 0xb2, 0x17, 0x89, 0xe0, 0x64,
     0xe0, 0x6b, 0x45, 0x4f, 0x5c, 0xba, 0x0e, 0xff, 0x1c, 0xe8, 0x01, 0xd3, 0x83, 0x5c, 0x39, 0xec,
     0x01, 0xca, 0x94, 0x9c, 0xa8, 0x77, 0xc0, 0xb5, 0x5b, 0xbd, 0xec, 0xa8, 0xff, 0x84, 0x91, 0xd9]"

lemma text_ecdsa_odd: "map chr
   ([0x00, 0x04, 0x01, 0x1e, 0x06, 0x04, 0x00, 0x0d, 0x10, 0x17, 0x17, 0x1a, 0x1d, 0x04, 0x1f, 0x00,
     0x18, 0x0b, 0x1e, 0x06, 0x0a, 0x12, 0x19, 0x0f, 0x01, 0x10, 0x19, 0x15, 0x10, 0x13, 0x19, 0x01,
     0x07, 0x08, 0x1f, 0x1d, 0x1f, 0x1f, 0x08, 0x02, 0x07, 0x12, 0x01, 0x01, 0x04, 0x1d, 0x1d, 0x12,
     0x02, 0x1e, 0x04, 0x1e, 0x00, 0x19, 0x00] @
    [0x15, 0x06, 0x1e, 0x05, 0x09, 0x00, 0x15, 0x02]) =
    c_bytes ''qyp7xyqdshh6aylqct7x2je0pse4snep8glallgz8jppyaajz7y7qeq4x79fq4z''"
  by (simp add: chr_def charset_eval) (simp add: c_bytes_def)

lemma encodes_ecdsa_odd: "encodes (addr_version ECDSA) (addr_key ECDSA key_ecdsa_odd)
    (c_bytes ''qyp7xyqdshh6aylqct7x2je0pse4snep8glallgz8jppyaajz7y7qeq4x79fq4z'')"
  by (rule encodesI [OF text_ecdsa_odd, where p = 3]) (simp_all add: key_ecdsa_odd_def text_eval)

theorem test_address_ecdsa_odd: "address_from_pubkey key_ecdsa_odd ECDSA (zeros 70) 69 =
    Some (True, c_bytes ''kaspa:qyp7xyqdshh6aylqct7x2je0pse4snep8glallgz8jppyaajz7y7qeq4x79fq4z'' @ [0])"
  using address_from_pubkey_text [OF encodes_ecdsa_odd]
  by (simp add: key_ecdsa_odd_def)

theorem test_script_p2sh: "script_public_key_to_address (zeros 68) 68 (0xaa # 0x20 # take 32 key_p2sh @ [0x87]) 35 =
    Some (True, c_bytes ''kaspa:precqv0krj3r6uyyfa36ga7s0u9jct0v4wg8ctsfde2gkrsgwgw8jgxfzfc98'' @ [0])"
  using script_to_address_text [of "0xaa # 0x20 # take 32 key_p2sh @ [0x87]" "''precqv0krj3r6uyyfa36ga7s0u9jct0v4wg8ctsfde2gkrsgwgw8jgxfzfc98''" 68] encodes_p2sh
  by (simp add: script_type_def script_key_def key_p2sh_def)

theorem test_script_ecdsa_even: "script_public_key_to_address (zeros 70) 70 (0x21 # 0x02 # take 32 key_ecdsa_even @ [0xad]) 35 =
    Some (True, c_bytes ''kaspa:qypdtlw845g6vhgtheug9lpahjgmtpsarqkueeul0sd7t07npfnhe4s7fd82n0v'' @ [0])"
  using script_to_address_text [of "0x21 # 0x02 # take 32 key_ecdsa_even @ [0xad]" "''qypdtlw845g6vhgtheug9lpahjgmtpsarqkueeul0sd7t07npfnhe4s7fd82n0v''" 70] encodes_ecdsa_even
  by (simp add: script_type_def script_key_def key_ecdsa_even_def)

theorem test_script_ecdsa_odd: "script_public_key_to_address (zeros 70) 70 (0x21 # 0x03 # take 32 key_ecdsa_odd @ [0xad]) 35 =
    Some (True, c_bytes ''kaspa:qyp7xyqdshh6aylqct7x2je0pse4snep8glallgz8jppyaajz7y7qeq4x79fq4z'' @ [0])"
  using script_to_address_text [of "0x21 # 0x03 # take 32 key_ecdsa_odd @ [0xad]" "''qyp7xyqdshh6aylqct7x2je0pse4snep8glallgz8jppyaajz7y7qeq4x79fq4z''" 70] encodes_ecdsa_odd
  by (simp add: script_type_def script_key_def key_ecdsa_odd_def)


end
