(* ===== verification/Unit_Tests.thy ===== *)
theory Unit_Tests
  imports Format Wire Address_Tests
begin

text \<open>
  The other tests of \<open>src/unit-tests\<close>, run on the model: the parser of transactions
  (\<open>test_tx_parser.c\<close>), encoding and fees (\<open>test_tx_utils.c\<close>), compression of keys
  (\<open>test_address.c\<close>) and the message formatter (\<open>test_format.c\<close>). The parsers are run through
  their verdict functions. Two of the tests read or write outside their own arrays; they are
  stated with the arrays they have.
\<close>

section \<open>The parser of transactions\<close>

definition run_test_tx :: "bytes \<Rightarrow> parser_status_e option" where
  "run_test_tx raw = map_option fst
     (transaction_deserialize std_buffer 15 (mk_buffer raw) (zero_transaction 15) (replicate 5 0))"

definition run_test_tx_input :: "bytes \<Rightarrow> parser_status_e option" where
  "run_test_tx_input raw = map_option fst (transaction_input_deserialize std_buffer (mk_buffer raw) zero_input)"

definition run_test_tx_output :: "bytes \<Rightarrow> parser_status_e option" where
  "run_test_tx_output raw = map_option fst (transaction_output_deserialize std_buffer (mk_buffer raw) zero_output)"

lemma run_tests:
  "run_test_tx raw = Some (header_status 15 raw)"
  "run_test_tx_input raw = Some (input_status raw)"
  "run_test_tx_output raw = Some (output_status raw)"
  using std_buf.header_deserialize_status [OF valid_mk_buffer, of "replicate 5 0" 15 "zero_transaction 15" raw]
    std_buf.input_deserialize_status [OF valid_mk_buffer, of zero_input raw]
    std_buf.output_deserialize_status [OF valid_mk_buffer, of zero_output raw]
  by (auto simp: run_test_tx_def run_test_tx_input_def run_test_tx_output_def)

theorem test_tx_deserialization_fail:
  "run_test_tx [0] = Some VERSION_PARSING_ERROR"
  "run_test_tx [0, 1] = Some OUTPUTS_LENGTH_PARSING_ERROR"
  "run_test_tx [0, 1, 3] = Some OUTPUTS_LENGTH_PARSING_ERROR"
  "run_test_tx [0, 1, 2] = Some INPUTS_LENGTH_PARSING_ERROR"
  "run_test_tx [0, 1, 2, 0] = Some INPUTS_LENGTH_PARSING_ERROR"
  "run_test_tx [0, 1, 2, 3, 2] = Some HEADER_PARSING_ERROR"
  "run_test_tx (take 5 [0, 1, 2, 3, 1, 0, 0, 0]) = Some HEADER_PARSING_ERROR"
  "run_test_tx (take 5 [0, 1, 2, 3, 1, 0x7F, 0xFF, 0xFF]) = Some HEADER_PARSING_ERROR"
  "run_test_tx (take 5 [0, 1, 2, 3, 1, 0x7F, 0xFF, 0xFF, 0xFF]) = Some HEADER_PARSING_ERROR"
  by (simp_all add: run_tests header_status_def)

definition raw_input :: bytes where
  "raw_input = [0x00, 0x00, 0x00, 0x00, 0x00, 0x01, 0x82, 0xb8] @ replicate 32 7 @ zeros 6"

theorem test_tx_input_deserialization_fail:
  "run_test_tx_input (take 7 raw_input) = Some INPUT_VALUE_PARSING_ERROR"
  "run_test_tx_input (take 38 raw_input) = Some INPUT_TX_ID_PARSING_ERROR"
  "run_test_tx_input (take 40 raw_input) = Some INPUT_ADDRESS_TYPE_PARSING_ERROR"
  "run_test_tx_input (take 44 raw_input) = Some INPUT_ADDRESS_INDEX_PARSING_ERROR"
  "run_test_tx_input (take 45 raw_input) = Some INPUT_INDEX_PARSING_ERROR"
  by (simp_all add: run_tests input_status_def raw_input_def)

definition raw_hash :: bytes where
  "raw_hash = [0xe1, 0x19, 0xd5, 0x35, 0x14, 0xc1, 0xb0, 0xe2, 0xef, 0xce, 0x7a, 0x89, 0xe3, 0xd1, 0xd5, 0xd6,
     0xcd, 0x73, 0x58, 0x2e, 0xa2, 0x06, 0x87, 0x64, 0x1c, 0x8f, 0xdc, 0xcb, 0x60, 0x60, 0xa9, 0xad]"

definition raw_output :: "bytes \<Rightarrow> bytes" where
  "raw_output script = [0x00, 0x00, 0x00, 0x00, 0x00, 0x01, 0x86, 0xa0] @ script"

theorem test_tx_output_deserialization_fail:
  "run_test_tx_output (take 7 (raw_output [])) = Some OUTPUT_VALUE_PARSING_ERROR"
  "run_test_tx_output (raw_output []) = Some OUTPUT_SCRIPT_PUBKEY_PARSING_ERROR"
  "run_test_tx_output (raw_output (0x30 # raw_hash @ [0x00, OP_CHECKSIGECDSA])) = Some OUTPUT_SCRIPT_PUBKEY_PARSING_ERROR"
  "run_test_tx_output (raw_output (0x20 # raw_hash @ [0xff])) = Some OUTPUT_SCRIPT_PUBKEY_PARSING_ERROR"
  "run_test_tx_output (raw_output (0x21 # raw_hash @ [0x00, 0xff])) = Some OUTPUT_SCRIPT_PUBKEY_PARSING_ERROR"
  "run_test_tx_output (raw_output (0x21 # take 24 raw_hash)) = Some OUTPUT_SCRIPT_PUBKEY_PARSING_ERROR"
  "run_test_tx_output (raw_output (OP_BLAKE2B # 0x20 # raw_hash @ [0x00, OP_CHECKSIG])) = Some OUTPUT_SCRIPT_PUBKEY_PARSING_ERROR"
  "run_test_tx_output (raw_output (OP_BLAKE2B # 0x21 # raw_hash @ [0x00, OP_EQUAL])) = Some OUTPUT_SCRIPT_PUBKEY_PARSING_ERROR"
  by (simp_all add: run_tests output_status_def raw_output_def raw_hash_def known_script_def script_len_def op_consts)

text \<open>What a parser accepts, the writer gives back.\<close>

interpretation std_wire: wire std_buffer std_write
  by (rule wireI [OF std_buffer_api std_write_api])

lemma accepted:
  "run_test_tx raw = Some PARSING_OK \<Longrightarrow> \<exists>x. header_decode std_buffer 15 raw = Some x \<and> header_encode std_write x = raw"
  "run_test_tx_input raw = Some PARSING_OK \<Longrightarrow> \<exists>x. input_decode std_buffer raw = Some x \<and> input_encode std_write x = raw"
  "run_test_tx_output raw = Some PARSING_OK \<Longrightarrow> \<exists>x. output_decode std_buffer raw = Some x \<and> output_encode std_write x = raw"
  using std_wire.header_enc_dec [of 15 raw] std_wire.input_enc_dec [of raw] std_wire.output_enc_dec [of raw]
  by (auto simp: run_test_tx_def run_test_tx_input_def run_test_tx_output_def header_decode_def
      input_decode_def output_decode_def split: option.splits)

definition raw_header :: bytes where
  "raw_header = [0x00, 0x01, 0x02, 0x03, 0x01, 0x04, 0x05, 0x06, 0xFF, 0x80, 0x00, 0x00, 0x00]"

theorem test_tx_serialization:
  "header_decode std_buffer 15 raw_header = Some (1, 2, 3, header_path 0x80000000 1 0x040506FF)"
  "header_encode std_write (1, 2, 3, header_path 0x80000000 1 0x040506FF) = raw_header"
  by code_simp+

theorem test_tx_input_serialization:
  "\<exists>x. input_decode std_buffer raw_input = Some x \<and> input_encode std_write x = raw_input"
  by (rule accepted(2)) (simp add: run_tests input_status_def raw_input_def)

theorem test_tx_output_serialization:
  "\<exists>x. output_decode std_buffer (raw_output (0x20 # raw_hash @ [OP_CHECKSIG])) = Some x \<and>
     output_encode std_write x = raw_output (0x20 # raw_hash @ [OP_CHECKSIG])"
  "\<exists>x. output_decode std_buffer (raw_output (0x21 # raw_hash @ [0x00, OP_CHECKSIGECDSA])) = Some x \<and>
     output_encode std_write x = raw_output (0x21 # raw_hash @ [0x00, OP_CHECKSIGECDSA])"
  "\<exists>x. output_decode std_buffer (raw_output (OP_BLAKE2B # 0x20 # raw_hash @ [OP_EQUAL])) = Some x \<and>
     output_encode std_write x = raw_output (OP_BLAKE2B # 0x20 # raw_hash @ [OP_EQUAL])"
  by (rule accepted(3),
      simp add: run_tests output_status_def raw_output_def raw_hash_def known_script_def script_len_def op_consts)+

theorem test_serialization_fail:
  "transaction_serialize std_write tx path [0] 1 = Some (-1, [0])"
  "transaction_output_serialize std_write txout [0] 1 = Some (-1, [0])"
  "transaction_input_serialize std_write txin [0] 1 = Some (-1, [0])"
  by (simp_all add: transaction_serialize_def transaction_output_serialize_def transaction_input_serialize_def)

section \<open>Utilities\<close>

theorem test_tx_utils:
  "transaction_utils_check_encoding [0x48, 0x65, 0x6c, 0x6c, 0x6f, 0x21] 6 = Some True"
  "transaction_utils_check_encoding [0x32, 0xc3, 0x97, 0x32, 0x3d, 0x34] 6 = Some False"
  by code_simp+

theorem test_calc_fees:
  "calc_fees [zero_input\<lparr>in_value := 0xFFFFFFFFFFFFFF00\<rparr>, zero_input\<lparr>in_value := 0xFF\<rparr>] 2
     [zero_output\<lparr>out_value := 0xFFFFFFFFFFFFF00F\<rparr>] 1 = Some 0xFF0"
  by (simp add: calc_fees_def mem_read_def)

theorem test_compress_address:
  "compress_public_key key_p2sh SCHNORR (zeros 32) 32 = Some (32, take 32 key_p2sh)"
  "compress_public_key key_ecdsa_even ECDSA (zeros 33) 33 = Some (33, 0x02 # take 32 key_ecdsa_even)"
  "compress_public_key key_ecdsa_odd ECDSA (zeros 33) 33 = Some (33, 0x03 # take 32 key_ecdsa_odd)"
  "compress_public_key key_ecdsa_odd SCHNORR (zeros 31) 31 = Some (0, zeros 31)"
  "compress_public_key key_ecdsa_odd ECDSA (zeros 32) 32 = Some (0, zeros 32)"
  using compress_eq [of key_ecdsa_even ECDSA] compress_eq [of key_ecdsa_odd ECDSA]
  by (simp_all add: key_p2sh_def key_ecdsa_even_def key_ecdsa_odd_def compress_public_key_def mem_read_Some mem_write_Some)

text \<open>\<open>test_format\<close> gives the formatter an area of 12 bytes for a text of 12 characters and its
  terminating zero: the zero is written outside. With one byte more the test is the one meant.\<close>

theorem test_format_message_to_sign_simple:
  "format_message_to_sign (zeros 12) 12 (c_bytes ''Hello Kaspa!'' @ [0]) 13 = None"
  "map_option cstr (format_message_to_sign (zeros 13) 13 (c_bytes ''Hello Kaspa!'' @ [0]) 13) = Some (c_bytes ''Hello Kaspa!'')"
  by code_simp+

end
