(* ===== verification/Blake2b_Eval.thy ===== *)
theory Blake2b_Eval
  imports Blake2b_Spec
begin

text \<open>
  BLAKE2b in a form the simplifier evaluates: the reference on natural numbers below 2^64, with
  the working vector as four columns, so that a digest of concrete bytes is computed by
  rewriting alone. Used to run the repository's digest tests on the model.
\<close>

unbundle bit_operations_syntax

section \<open>Arithmetic\<close>

definition wrap64 :: "nat \<Rightarrow> nat" where
  "wrap64 s = (if s < 18446744073709551616 then s else s - 18446744073709551616)"

text \<open>A rotation, from the high part \<open>h\<close> of the number.\<close>

definition rot_parts :: "nat \<Rightarrow> nat \<Rightarrow> nat \<Rightarrow> nat" where
  "rot_parts r x h = h + push_bit (64 - r) (x - push_bit r h)"

definition rot64 :: "nat \<Rightarrow> nat \<Rightarrow> nat" where
  "rot64 r x = rot_parts r x (drop_bit r x)"

lemma unat_u64_less: "unat (x :: u64) < 18446744073709551616"
  using unsigned_less [of x, where ?'a = nat] by simp

lemma bit_unat_u64: "bit (unat (x :: u64)) n \<longleftrightarrow> bit x n"
  by (auto simp: bit_unsigned_iff dest: bit_imp_le_length)

lemma unat_add64: "unat (a + b :: u64) = wrap64 (unat a + unat b)"
  using unat_u64_less [of a] unat_u64_less [of b]
  by (auto simp: wrap64_def unat_word_ariths mod_if)

lemma unat_xor64: "unat (a XOR b :: u64) = unat a XOR unat b"
  by (rule bit_eqI) (simp add: bit_xor_iff bit_unat_u64)

lemma unat_rot64:
  assumes "0 < r" and "r < 64"
  shows "unat (word_rotr r x :: u64) = rot64 r (unat x)"
proof -
  have low: "unat x - push_bit r (drop_bit r (unat x)) = take_bit r (unat x)"
    by (simp add: push_bit_eq_mult drop_bit_eq_div take_bit_eq_mod minus_div_mult_eq_mod)
  have "drop_bit r (unat x) + push_bit (64 - r) (take_bit r (unat x)) =
      drop_bit r (unat x) OR push_bit (64 - r) (take_bit r (unat x))"
    by (rule disjunctive_add)
      (auto simp: bit_push_bit_iff bit_drop_bit_eq bit_unat_u64 dest: bit_imp_le_length)
  moreover have "unat (word_rotr r x) = drop_bit r (unat x) OR push_bit (64 - r) (take_bit r (unat x))"
    unfolding rotr64_word_rotr [OF assms, symmetric] rotr64_def
    using assms by (intro bit_eqI)
      (auto simp: bit_or_iff bit_unat_u64 bit_drop_bit_eq bit_push_bit_iff bit_take_bit_iff less_diff_conv2)
  ultimately show ?thesis by (simp add: rot64_def rot_parts_def low)
qed

section \<open>Mixing\<close>

type_synonym quad = "nat \<times> nat \<times> nat \<times> nat"
type_synonym columns = "quad \<times> quad \<times> quad \<times> quad"

text \<open>Half of the mixing function, cut so that each value is computed before it is used.\<close>

definition mix3 :: "nat \<Rightarrow> nat \<Rightarrow> nat \<Rightarrow> nat \<Rightarrow> nat \<Rightarrow> quad" where
  "mix3 s a b c d = (a, rot64 s (b XOR c), c, d)"

definition mix2 :: "nat \<Rightarrow> nat \<Rightarrow> nat \<Rightarrow> nat \<Rightarrow> nat \<Rightarrow> quad" where
  "mix2 s a b c d = mix3 s a b (wrap64 (c + d)) d"

definition mix1 :: "nat \<Rightarrow> nat \<Rightarrow> nat \<Rightarrow> nat \<Rightarrow> nat \<Rightarrow> nat \<Rightarrow> quad" where
  "mix1 r s a b c d = mix2 s a b c (rot64 r (d XOR a))"

fun mix :: "nat \<Rightarrow> nat \<Rightarrow> nat \<Rightarrow> quad \<Rightarrow> quad" where
  "mix r s x (a, b, c, d) = mix1 r s (wrap64 (wrap64 (a + b) + x)) b c d"

definition quad_G :: "nat \<Rightarrow> nat \<Rightarrow> quad \<Rightarrow> quad" where
  "quad_G x y v = mix 16 63 y (mix 32 24 x v)"

definition quad_at :: "u64 list \<Rightarrow> nat \<times> nat \<times> nat \<times> nat \<Rightarrow> quad" where
  "quad_at v ix = (case ix of (a, b, c, d) \<Rightarrow> (unat (v ! a), unat (v ! b), unat (v ! c), unat (v ! d)))"

text \<open>The mixing function of the reference changes its four words and no others.\<close>

definition half_G :: "u64 list \<Rightarrow> nat \<times> nat \<times> nat \<times> nat \<Rightarrow> u64 \<Rightarrow> nat \<Rightarrow> nat \<Rightarrow> u64 list" where
  "half_G v ix x r s = (case ix of (a, b, c, d) \<Rightarrow>
     let v = v[a := v ! a + v ! b + x];
         v = v[d := word_rotr r (v ! d XOR v ! a)];
         v = v[c := v ! c + v ! d]
     in v[b := word_rotr s (v ! b XOR v ! c)])"

lemma rfc_G_halves: "rfc_G v ix x y = half_G (half_G v ix x 32 24) ix y 16 63"
  unfolding rfc_G_def half_G_def by (cases ix) (simp only: prod.case Let_def)

lemma half_G_quad:
  assumes "distinct [a, b, c, d]" and "a < length v" "b < length v" "c < length v" "d < length v"
    and "0 < r" "r < 64" "0 < s" "s < 64"
  shows "quad_at (half_G v (a, b, c, d) x r s) (a, b, c, d) = mix r s (unat x) (quad_at v (a, b, c, d))"
proof -
  have "a \<noteq> b" "a \<noteq> c" "a \<noteq> d" "b \<noteq> c" "b \<noteq> d" "c \<noteq> d" "b \<noteq> a" "c \<noteq> a" "d \<noteq> a" "c \<noteq> b" "d \<noteq> b" "d \<noteq> c"
    using assms(1) by auto
  then show ?thesis using assms(2-)
    by (simp add: quad_at_def half_G_def mix1_def mix2_def mix3_def Let_def unat_add64 unat_xor64 unat_rot64)
qed

lemma length_half_G [simp]: "length (half_G v ix x r s) = length v"
  by (simp add: half_G_def Let_def split: prod.split)

lemma rfc_G_quad:
  assumes "distinct [a, b, c, d]" and "a < length v" "b < length v" "c < length v" "d < length v"
  shows "quad_at (rfc_G v (a, b, c, d) x y) (a, b, c, d) = quad_G (unat x) (unat y) (quad_at v (a, b, c, d))"
  using assms by (simp add: rfc_G_halves half_G_quad quad_G_def)

lemma half_G_other: "i \<notin> {a, b, c, d} \<Longrightarrow> half_G v (a, b, c, d) x r s ! i = v ! i"
  by (simp add: half_G_def Let_def nth_list_update_neq)

lemma rfc_G_other: "i \<notin> {a, b, c, d} \<Longrightarrow> rfc_G v (a, b, c, d) x y ! i = v ! i"
  by (simp add: rfc_G_halves half_G_other)

lemma quad_at_other:
  "distinct [a, b, c, d, a', b', c', d'] \<Longrightarrow> quad_at (rfc_G v (a, b, c, d) x y) (a', b', c', d') = quad_at v (a', b', c', d')"
  by (auto simp: quad_at_def rfc_G_other)

fun diag :: "columns \<Rightarrow> columns" where
  "diag ((a0, b0, c0, d0), (a1, b1, c1, d1), (a2, b2, c2, d2), (a3, b3, c3, d3)) =
     ((a0, b1, c2, d3), (a1, b2, c3, d0), (a2, b3, c0, d1), (a3, b0, c1, d2))"

fun undiag :: "columns \<Rightarrow> columns" where
  "undiag ((a0, b1, c2, d3), (a1, b2, c3, d0), (a2, b3, c0, d1), (a3, b0, c1, d2)) =
     ((a0, b0, c0, d0), (a1, b1, c1, d1), (a2, b2, c2, d2), (a3, b3, c3, d3))"

fun mix_all :: "nat list \<Rightarrow> nat list \<Rightarrow> columns \<Rightarrow> columns" where
  "mix_all m [i0, i1, i2, i3, i4, i5, i6, i7] (q0, q1, q2, q3) =
     (quad_G (m ! i0) (m ! i1) q0, quad_G (m ! i2) (m ! i3) q1,
      quad_G (m ! i4) (m ! i5) q2, quad_G (m ! i6) (m ! i7) q3)"
| "mix_all m _ q = q"

definition columns_round :: "nat list \<Rightarrow> nat list \<Rightarrow> columns \<Rightarrow> columns" where
  "columns_round m s q = undiag (mix_all m (drop 8 s) (diag (mix_all m (take 8 s) q)))"

definition columns_of :: "u64 list \<Rightarrow> columns" where
  "columns_of v = (quad_at v (0, 4, 8, 12), quad_at v (1, 5, 9, 13), quad_at v (2, 6, 10, 14), quad_at v (3, 7, 11, 15))"

definition diagonals_of :: "u64 list \<Rightarrow> columns" where
  "diagonals_of v = (quad_at v (0, 5, 10, 15), quad_at v (1, 6, 11, 12), quad_at v (2, 7, 8, 13), quad_at v (3, 4, 9, 14))"

lemma diag_columns: "diag (columns_of v) = diagonals_of v" "undiag (diagonals_of v) = columns_of v"
  by (simp_all add: columns_of_def diagonals_of_def quad_at_def)

lemma half_round:
  assumes "length v = 16"
  shows "columns_of (rfc_G (rfc_G (rfc_G (rfc_G v (0, 4, 8, 12) x0 x1) (1, 5, 9, 13) x2 x3) (2, 6, 10, 14) x4 x5)
      (3, 7, 11, 15) x6 x7) =
    (case columns_of v of (q0, q1, q2, q3) \<Rightarrow> (quad_G (unat x0) (unat x1) q0, quad_G (unat x2) (unat x3) q1,
       quad_G (unat x4) (unat x5) q2, quad_G (unat x6) (unat x7) q3))"
    and "diagonals_of (rfc_G (rfc_G (rfc_G (rfc_G v (0, 5, 10, 15) x0 x1) (1, 6, 11, 12) x2 x3) (2, 7, 8, 13) x4 x5)
      (3, 4, 9, 14) x6 x7) =
    (case diagonals_of v of (q0, q1, q2, q3) \<Rightarrow> (quad_G (unat x0) (unat x1) q0, quad_G (unat x2) (unat x3) q1,
       quad_G (unat x4) (unat x5) q2, quad_G (unat x6) (unat x7) q3))"
  using assms by (simp_all add: columns_of_def diagonals_of_def rfc_G_quad quad_at_other)

lemma round_columns:
  assumes "length v = 16" and "length m = 16" and "length s = 16" and "list_all (\<lambda>i. i < 16) s"
  shows "columns_of (rfc_round m s v) = columns_round (map unat m) s (columns_of v)"
proof -
  obtain s0 s1 s2 s3 s4 s5 s6 s7 s8 s9 s10 s11 s12 s13 s14 s15 where
    s: "s = [s0, s1, s2, s3, s4, s5, s6, s7, s8, s9, s10, s11, s12, s13, s14, s15]"
    using assms(3) by (auto simp: numeral_eq_Suc length_Suc_conv)
  have n: "map unat m ! i = unat (m ! i)" if "i < 16" for i using that assms(2) by simp
  have up: "[0..<8] = [0, 1, 2, 3, 4, 5, 6, 7]" by (simp add: upt_rec)
  define w where "w = rfc_G (rfc_G (rfc_G (rfc_G v (0, 4, 8, 12) (m ! s0) (m ! s1)) (1, 5, 9, 13) (m ! s2) (m ! s3))
      (2, 6, 10, 14) (m ! s4) (m ! s5)) (3, 7, 11, 15) (m ! s6) (m ! s7)"
  have r: "rfc_round m s v = rfc_G (rfc_G (rfc_G (rfc_G w (0, 5, 10, 15) (m ! s8) (m ! s9)) (1, 6, 11, 12) (m ! s10) (m ! s11))
      (2, 7, 8, 13) (m ! s12) (m ! s13)) (3, 4, 9, 14) (m ! s14) (m ! s15)"
    by (simp add: rfc_round_def s up rfc_indices_def w_def)
  have w: "length w = 16" "columns_of w = mix_all (map unat m) (take 8 s) (columns_of v)"
    using assms(1,4) half_round(1) [OF assms(1)] n
    by (simp_all add: w_def s split: prod.split)
  have "diagonals_of (rfc_round m s v) = mix_all (map unat m) (drop 8 s) (diag (columns_of w))"
    unfolding r using assms(4) half_round(2) [OF w(1)] n
    by (simp add: s diag_columns split: prod.split)
  then have "undiag (diagonals_of (rfc_round m s v)) = columns_round (map unat m) s (columns_of v)"
    by (simp only: columns_round_def w(2))
  then show ?thesis by (simp only: diag_columns)
qed

section \<open>Compression and digest\<close>

definition block_words :: "bytes \<Rightarrow> nat list" where
  "block_words block = map unat (rfc_words block)"

text \<open>The vector \<open>v\<close> before the first round: the state, the initial vector and the two changed words.\<close>

fun start_columns :: "nat list \<Rightarrow> nat \<Rightarrow> bool \<Rightarrow> columns" where
  "start_columns [h0, h1, h2, h3, h4, h5, h6, h7] t final =
     ((h0, h4, 7640891576956012808, 5840696475078001361 XOR t),
      (h1, h5, 13503953896175478587, 11170449401992604703),
      (h2, h6, 4354685564936845355, if final then 16175846103906665108 else 2270897969802886507),
      (h3, h7, 11912009170470909681, 6620516959819538809))"
| "start_columns _ t final = ((0, 0, 0, 0), (0, 0, 0, 0), (0, 0, 0, 0), (0, 0, 0, 0))"

fun columns_rounds :: "nat list \<Rightarrow> nat list list \<Rightarrow> columns \<Rightarrow> columns" where
  "columns_rounds m [] q = q"
| "columns_rounds m (s # ss) q = columns_rounds m ss (columns_round m s q)"

definition twelve_rounds :: "nat list \<Rightarrow> columns \<Rightarrow> columns" where
  "twelve_rounds m q = columns_rounds m blake2b_sigma q"

fun feed_forward :: "nat list \<Rightarrow> columns \<Rightarrow> nat list" where
  "feed_forward h ((v0, v4, v8, v12), (v1, v5, v9, v13), (v2, v6, v10, v14), (v3, v7, v11, v15)) =
     map2 (XOR) h [v0 XOR v8, v1 XOR v9, v2 XOR v10, v3 XOR v11, v4 XOR v12, v5 XOR v13, v6 XOR v14, v7 XOR v15]"

lemma length_rfc_round [simp]: "length (rfc_round m s v) = length v"
proof -
  have "length (foldl (\<lambda>v i. rfc_G v (rfc_indices ! i) (m ! (s ! (2 * i))) (m ! (s ! (2 * i + 1)))) v is) = length v" for "is"
    by (induction "is" arbitrary: v) auto
  then show ?thesis by (simp add: rfc_round_def)
qed

lemma rounds_columns:
  assumes "length v = 16" and "length m = 16" and "list_all (\<lambda>s. length s = 16 \<and> list_all (\<lambda>i. i < 16) s) ss"
  shows "columns_of (foldl (\<lambda>v s. rfc_round m s v) v ss) = columns_rounds (map unat m) ss (columns_of v)"
  using assms(1,3) by (induction ss arbitrary: v) (simp_all add: round_columns assms(2))

lemma unat_not64: "unat (NOT x :: u64) = 18446744073709551615 - unat x"
proof -
  have "NOT x = - 1 - x" by (simp add: not_eq_complement)
  then have "NOT x + x = - 1" by simp
  then have "unat (NOT x + x) = unat (- 1 :: u64)" by simp
  then have "wrap64 (unat (NOT x) + unat x) = 18446744073709551615"
    by (simp add: unat_add64 unsigned_minus_1_eq_mask mask_eq_exp_minus_1)
  then show ?thesis using unat_u64_less [of x] unat_u64_less [of "NOT x"]
    by (simp add: wrap64_def split: if_splits)
qed

lemma compress_columns:
  assumes "length h = 8" and "t < 2 ^ 64"
  shows "map unat (rfc_F h block t final) =
    feed_forward (map unat h) (twelve_rounds (block_words block) (start_columns (map unat h) t final))"
proof -
  obtain h0 h1 h2 h3 h4 h5 h6 h7 where h: "h = [h0, h1, h2, h3, h4, h5, h6, h7]"
    using assms(1) by (auto simp: numeral_eq_Suc length_Suc_conv)
  define v where "v = (let v = h @ blake2b_IV;
          v = v[12 := v ! 12 XOR word_of_nat t, 13 := v ! 13 XOR word_of_nat (t div 2 ^ 64)]
       in (if final then v[14 := NOT (v ! 14)] else v))"
  define w where "w = foldl (\<lambda>v s. rfc_round (rfc_words block) s v) v blake2b_sigma"
  have up: "[0..<12] = [0, 1, 2, 3, 4, 5, 6, 7, 8, 9, 10, 11]" by (simp add: upt_rec)
  have "foldl (\<lambda>v r. rfc_round (rfc_words block) (blake2b_sigma ! (r mod 10)) v) v [0..<12] = w"
    unfolding w_def up by (simp add: blake2b_sigma_def)
  then have F: "rfc_F h block t final = map (\<lambda>i. h ! i XOR w ! i XOR w ! (i + 8)) [0..<8]"
    by (simp add: rfc_F_def v_def Let_def)
  have t: "unat (word_of_nat t :: u64) = t" using assms(2) by (simp add: unat_of_nat)
  have v: "length v = 16" "columns_of v = start_columns (map unat h) t final"
    using assms(2) t by (simp_all add: v_def h Let_def blake2b_IV_def columns_of_def quad_at_def
        unat_xor64 unat_not64)
  have c: "columns_of w = twelve_rounds (block_words block) (start_columns (map unat h) t final)"
    unfolding w_def twelve_rounds_def block_words_def v(2) [symmetric]
    by (rule rounds_columns) (simp_all add: v(1) rfc_words_def blake2b_sigma_def)
  have "[0..<8] = [0, 1, 2, 3, 4, 5, 6, 7]" by (simp add: upt_rec)
  then show ?thesis
    unfolding F c [symmetric] by (simp add: h columns_of_def quad_at_def unat_xor64 xor.assoc)
qed

section \<open>Bytes\<close>

fun bytes_nat :: "bytes \<Rightarrow> nat" where
  "bytes_nat [] = 0"
| "bytes_nat (b # bs) = unat b + 256 * bytes_nat bs"

fun nat_bytes :: "nat \<Rightarrow> nat \<Rightarrow> bytes" where
  "nat_bytes 0 n = []"
| "nat_bytes (Suc k) n = word_of_nat (n mod 256) # nat_bytes k (n div 256)"

lemma unat_le_word:
  assumes "8 * length bs \<le> 64"
  shows "unat (le_word bs :: u64) = bytes_nat bs"
proof -
  have "unat (le_word bs :: u64) = bytes_nat bs \<and> bytes_nat bs < 256 ^ length bs" if "length bs \<le> 8" for bs
    using that
  proof (induction bs)
    case (Cons b bs)
    then have i: "unat (le_word bs :: u64) = bytes_nat bs" "bytes_nat bs < 256 ^ length bs" by auto
    have "(256 :: nat) ^ length (b # bs) \<le> 256 ^ 8" using Cons.prems by (intro power_increasing) auto
    moreover have "bytes_nat (b # bs) < 256 ^ length (b # bs)"
      using i(2) unat_u8_less [of b] by simp
    ultimately have less: "bytes_nat (b # bs) < 256 ^ 8" "bytes_nat (b # bs) < 256 ^ length (b # bs)" by simp_all
    have "le_word (b # bs) = (ucast b + push_bit 8 (le_word bs) :: u64)"
      unfolding le_word.simps
      by (rule disjunctive_add [symmetric]) (auto simp: bit_push_bit_iff bit_ucast_iff dest: bit_imp_le_length)
    also have "\<dots> = word_of_nat (unat b) + word_of_nat (256 * bytes_nat bs)"
      unfolding push_bit_eq_mult i(1) [symmetric] by (simp add: mult.commute)
    also have "\<dots> = word_of_nat (bytes_nat (b # bs))" by simp
    finally have "unat (le_word (b # bs) :: u64) = unat (word_of_nat (bytes_nat (b # bs)) :: u64)" by (rule arg_cong)
    also have "\<dots> = bytes_nat (b # bs)" using less(1) by (subst unat_of_nat) simp
    finally show ?case using less(2) by blast
  qed simp
  with assms show ?thesis by simp
qed

lemma le_bytes_nat: "le_bytes k (w :: u64) = nat_bytes k (unat w)"
proof (induction k arbitrary: w)
  case (Suc k)
  have "(ucast w :: u8) = word_of_nat (unat w mod 256)"
    by (rule word_unat_eq_iff [THEN iffD2]) (simp add: unat_of_nat unsigned_ucast_eq take_bit_eq_mod)
  moreover have "unat (drop_bit 8 w) = unat w div 256"
    by (simp add: drop_bit_eq_div unat_div)
  ultimately show ?case using Suc by simp
qed simp

section \<open>Concrete digests\<close>

lemma bytes_nat_zeros: "bytes_nat (bs @ zeros n) = bytes_nat bs"
proof -
  have "bytes_nat (zeros n) = 0" by (induction n) (simp_all add: zeros_def)
  then show ?thesis by (induction bs) simp_all
qed

lemma block_words_pad:
  assumes "length bs \<le> 128"
  shows "block_words (pad128 bs) = map (\<lambda>i. bytes_nat (take 8 (drop (8 * i) bs)))
    [0, 1, 2, 3, 4, 5, 6, 7, 8, 9, 10, 11, 12, 13, 14, 15]"
proof -
  have "block_words (pad128 bs) = map (\<lambda>i. bytes_nat (take 8 (drop (8 * i) bs))) [0..<16]"
    unfolding block_words_def rfc_words_def map_map
  proof (rule map_cong [OF refl])
    fix i
    have "take 8 (drop (8 * i) (pad128 bs)) =
        take 8 (drop (8 * i) bs) @ zeros (min (8 - (length bs - 8 * i)) (128 - length bs - (8 * i - length bs)))"
      by (simp add: pad128_def zeros_def)
    then show "(unat \<circ> (\<lambda>i. le_word (take 8 (drop (8 * i) (pad128 bs))) :: u64)) i = bytes_nat (take 8 (drop (8 * i) bs))"
      by (simp add: unat_le_word bytes_nat_zeros)
  qed
  also have "[0..<16] = [0, 1, 2, 3, 4, 5, 6, 7, 8, 9, 10, 11, 12, 13, 14, 15]" by (simp add: upt_rec)
  finally show ?thesis .
qed

text \<open>One compression of a padded block, from words to words.\<close>

definition compress_nat :: "nat list \<Rightarrow> bytes \<Rightarrow> nat \<Rightarrow> bool \<Rightarrow> nat list" where
  "compress_nat h bs t final = feed_forward h (twelve_rounds
     (map (\<lambda>i. bytes_nat (take 8 (drop (8 * i) bs))) [0, 1, 2, 3, 4, 5, 6, 7, 8, 9, 10, 11, 12, 13, 14, 15])
     (start_columns h t final))"

lemma compress_nat:
  assumes "length h = 8" and "t < 2 ^ 64" and "length bs \<le> 128"
  shows "map unat (rfc_F h (pad128 bs) t final) = compress_nat (map unat h) bs t final"
  using assms by (simp add: compress_columns compress_nat_def block_words_pad)

text \<open>The state after the key block, the blocks of the message, and the bytes of the digest.\<close>

definition key_state_nat :: "bytes \<Rightarrow> nat list" where
  "key_state_nat key = compress_nat (map unat (rfc_h0 32 (length key))) key 128 False"

function rest_nat :: "nat list \<Rightarrow> nat \<Rightarrow> bytes \<Rightarrow> nat list" where
  "rest_nat h t m =
     (if length m \<le> 128 then compress_nat h m (t + length m) True
      else rest_nat (compress_nat h (take 128 m) (t + 128) False) (t + 128) (drop 128 m))"
  by pat_completeness auto
termination
  by (relation "measure (\<lambda>(h, t, m). length m)") auto

declare rest_nat.simps [simp del]

definition digest_nat :: "nat list \<Rightarrow> bytes" where
  "digest_nat h = take 32 (concat (map (nat_bytes 8) h))"

lemma digest_rest:
  assumes "length h = 8" and "t + length m < 2 ^ 64"
  shows "rfc_digest 32 (absorb h t m) = digest_nat (rest_nat (map unat h) t m)"
  using assms
proof (induction h t m rule: absorb.induct)
  case (1 h t m)
  have bytes: "map (le_bytes 8) ws = map (nat_bytes 8) (map unat ws)" for ws :: "u64 list"
    by (simp add: le_bytes_nat)
  show ?case
  proof (cases "length m \<le> 128")
    case True
    with 1 show ?thesis
      by (simp add: absorb_short rfc_digest_def digest_nat_def rest_nat.simps [of _ t m] compress_nat bytes del: map_map)
  next
    case False
    with 1 compress_nat [of h "t + 128" "take 128 m" False] show ?thesis
      by (simp add: absorb_long rest_nat.simps [of _ t m] pad128_def)
  qed
qed

lemma rfc_blake2b_eval:
  assumes "key \<noteq> []" and "length key \<le> 128" and "m \<noteq> []" and "length m < 2 ^ 63"
  shows "rfc_blake2b 32 key m = digest_nat (rest_nat (key_state_nat key) 128 m)"
proof -
  let ?h = "rfc_F (rfc_h0 32 (length key)) (pad128 key) 128 False"
  have "absorb (rfc_h0 32 (length key)) 0 (pad128 key @ m) = absorb ?h 128 m"
    using assms by (subst absorb_long) simp_all
  then show ?thesis
    using assms by (simp add: rfc_blake2b_def digest_rest compress_nat key_state_nat_def)
qed

section \<open>Rules for evaluation\<close>

lemma nat_bytes_numeral:
  "nat_bytes (numeral k) n = word_of_nat (n mod 256) # nat_bytes (pred_numeral k) (n div 256)"
  by (subst numeral_eq_Suc) simp

lemmas compress_eval = compress_nat_def twelve_rounds_def blake2b_sigma_def
  columns_round_def quad_G_def mix1_def mix2_def mix3_def rot64_def rot_parts_def wrap64_def

lemmas digest_eval = compress_eval rest_nat.simps digest_nat_def nat_bytes_numeral

end
