(* ===== verification/Digest_Tests.thy ===== *)
theory Digest_Tests
  imports Blake2b_Eval Personal_Message Sighash
begin

text \<open>
  The digest tests of \<open>src/unit-tests/test_personal_message.c\<close> and \<open>src/unit-tests/test_sighash.c\<close>, run on
  the model: the same calls return the bytes the tests expect. The refinement turns each call
  into the reference digest, the rules of \<open>Blake2b_Eval\<close> compute it.
\<close>

section \<open>The states after the keys\<close>

lemma start_26: "map unat (rfc_h0 32 26) =
   [7640891576939303720, 13503953896175478587, 4354685564936845355, 11912009170470909681,
    5840696475078001361, 11170449401992604703, 2270897969802886507, 6620516959819538809]"
  by (simp add: rfc_h0_def blake2b_IV_def unat_xor64)

lemma start_22: "map unat (rfc_h0 32 22) =
   [7640891576939306792, 13503953896175478587, 4354685564936845355, 11912009170470909681,
    5840696475078001361, 11170449401992604703, 2270897969802886507, 6620516959819538809]"
  by (simp add: rfc_h0_def blake2b_IV_def unat_xor64)

lemma message_key: "c_bytes ''PersonalMessageSigningHash'' =
   [80, 101, 114, 115, 111, 110, 97, 108, 77, 101, 115, 115, 97, 103, 101, 83, 105, 103, 110, 105,
    110, 103, 72, 97, 115, 104]"
  by code_simp

lemma transaction_key: "c_bytes ''TransactionSigningHash'' =
   [84, 114, 97, 110, 115, 97, 99, 116, 105, 111, 110, 83, 105, 103, 110, 105, 110, 103, 72, 97,
    115, 104]"
  by code_simp

lemma message_key_state: "key_state_nat (c_bytes ''PersonalMessageSigningHash'') =
   [14062525389002814101, 3328536645281048714, 7649161315456148727, 6020311195938042818,
    7508407059479289382, 6625829658084411183, 3838898085891905139, 16486554090357961236]"
proof -
  have "length (c_bytes ''PersonalMessageSigningHash'') = 26" by (simp add: message_key)
  then show ?thesis
    unfolding key_state_nat_def by (simp only: start_26 message_key) (simp add: compress_eval)
qed

lemma transaction_key_state: "key_state_nat (c_bytes ''TransactionSigningHash'') =
   [11669498265483573572, 11585704030315360224, 16124661342358234598, 18194378539018065215,
    10258597385285263097, 12753573409097605822, 10526510587052858266, 150964593801264434]"
proof -
  have "length (c_bytes ''TransactionSigningHash'') = 22" by (simp add: transaction_key)
  then show ?thesis
    unfolding key_state_nat_def by (simp only: start_22 transaction_key) (simp add: compress_eval)
qed

lemma message_digest_eval:
  "m \<noteq> [] \<Longrightarrow> length m < 2 ^ 63 \<Longrightarrow> message_digest m = digest_nat (rest_nat
   [14062525389002814101, 3328536645281048714, 7649161315456148727, 6020311195938042818,
    7508407059479289382, 6625829658084411183, 3838898085891905139, 16486554090357961236] 128 m)"
  unfolding message_digest_def message_key_state [symmetric]
  by (rule rfc_blake2b_eval) (simp_all add: message_key)

lemma H32_eval:
  "m \<noteq> [] \<Longrightarrow> length m < 2 ^ 63 \<Longrightarrow> H32 m = digest_nat (rest_nat
   [11669498265483573572, 11585704030315360224, 16124661342358234598, 18194378539018065215,
    10258597385285263097, 12753573409097605822, 10526510587052858266, 150964593801264434] 128 m)"
  unfolding H32_def transaction_key_state [symmetric]
  by (rule rfc_blake2b_eval) (simp_all add: transaction_key)

section \<open>Messages\<close>

lemma hello_kaspa: "c_bytes ''Hello Kaspa!'' = [72, 101, 108, 108, 111, 32, 75, 97, 115, 112, 97, 33]"
  by code_simp

lemma hello_kaspa_digest: "message_digest (c_bytes ''Hello Kaspa!'') =
   [0x2e, 0x55, 0xde, 0xda, 0x4a, 0x52, 0x24, 0x20, 0x8d, 0xbd, 0x4d, 0x93, 0xcf, 0xe5, 0xaa, 0x22,
    0xd9, 0x45, 0xea, 0xa6, 0x31, 0x72, 0xe3, 0x29, 0xc4, 0x9a, 0xfe, 0xd6, 0x2f, 0x0e, 0x15, 0x10]"
  unfolding hello_kaspa by (simp add: message_digest_eval digest_eval)

theorem test_hash_personal_message_vector0:
  "hash_personal_message (c_bytes ''Hello Kaspa!'' @ [0]) 12 (zeros 32) 32 = Some (True,
   [0x2e, 0x55, 0xde, 0xda, 0x4a, 0x52, 0x24, 0x20, 0x8d, 0xbd, 0x4d, 0x93, 0xcf, 0xe5, 0xaa, 0x22,
    0xd9, 0x45, 0xea, 0xa6, 0x31, 0x72, 0xe3, 0x29, 0xc4, 0x9a, 0xfe, 0xd6, 0x2f, 0x0e, 0x15, 0x10])"
  by (simp add: hash_personal_message_eq hello_kaspa hello_kaspa_digest [unfolded hello_kaspa])

section \<open>Transactions\<close>

text \<open>One input that spends \<open>value\<close>, one output with the same value.\<close>

definition test_input :: "bytes \<Rightarrow> u8 \<Rightarrow> u64 \<Rightarrow> transaction_input_t" where
  "test_input txid i value = zero_input\<lparr>in_tx_id := txid, in_index := i, in_value := value\<rparr>"

definition test_output :: "bytes \<Rightarrow> u64 \<Rightarrow> transaction_output_t" where
  "test_output spk value = zero_output\<lparr>out_script_public_key := spk @ zeros 6, out_value := value\<rparr>"

definition test_tx :: "u16 \<Rightarrow> transaction_input_t \<Rightarrow> transaction_output_t \<Rightarrow> transaction_t" where
  "test_tx v txin txout = (zero_transaction 15)\<lparr>version := v,
     tx_inputs := txin # replicate 14 zero_input, tx_input_len := 1,
     tx_outputs := txout # replicate (MAX_OUTPUT_COUNT - 1) zero_output, tx_output_len := 1\<rparr>"

lemma le_bytes_numeral: "le_bytes (numeral k) w = ucast w # le_bytes (pred_numeral k) (drop_bit 8 w)"
  by (subst numeral_eq_Suc) simp

lemma zeros_8: "zeros 8 = [0, 0, 0, 0, 0, 0, 0, 0]"
  by (simp add: zeros_def eval_nat_numeral)

lemma le_bytes_8: "le_bytes 8 (0 :: u64) = zeros 8" "le_bytes 8 (34 :: u64) = [34, 0, 0, 0, 0, 0, 0, 0]"
  by (simp_all add: le_bytes_numeral zeros_8)

lemma test_output_preimage:
  assumes "length hash = 32"
  shows "outputs_preimage (tx_outs (test_tx v i (test_output (0x20 # hash @ [0xac]) value))) =
    le_bytes 8 value @ [0, 0, 34, 0, 0, 0, 0, 0, 0, 0, 0x20] @ hash @ [0xac]"
  using assms by (simp add: outputs_preimage_def tx_outs_def test_tx_def output_preimage_def test_output_def
      script_len_def op_consts le_bytes_8)

lemma test_input_preimages:
  "prev_outputs_preimage (tx_ins (test_tx v (test_input txid i value) out)) = txid @ le_bytes 4 (ucast i :: u32)"
  "sequences_preimage (tx_ins (test_tx v (test_input txid i value) out)) = zeros 8"
  "sig_op_count_preimage (tx_ins (test_tx v (test_input txid i value) out)) = [1]"
  by (simp_all add: prev_outputs_preimage_def sequences_preimage_def sig_op_count_preimage_def tx_ins_def
      test_tx_def test_input_def zero_input_def le_bytes_8)

lemma zeros_68: "zeros 8 @ zeros 20 @ zeros 8 @ zeros 32 @ xs = zeros 68 @ xs"
  by (simp add: zeros_def flip: append_assoc replicate_add)

lemma test_tx_signed:
  assumes "length txid = 32" and "length hash = 32" and "length pk = 32"
  shows "calc_sighash std_write (test_tx v (test_input txid i value) (test_output (0x20 # hash @ [0xac]) value))
      (test_input txid i value) pk (zeros 32) 32 =
    Some (True, H32 (le_bytes 2 v @ H32 (txid @ le_bytes 4 (ucast i :: u32)) @ H32 (zeros 8) @ H32 [1] @
      txid @ le_bytes 4 (ucast i :: u32) @ zeros 2 @ [34, 0, 0, 0, 0, 0, 0, 0, 0x20] @ pk @ [0xac] @
      le_bytes 8 value @ zeros 8 @ [1] @
      H32 (le_bytes 8 value @ [0, 0, 34, 0, 0, 0, 0, 0, 0, 0, 0x20] @ hash @ [0xac]) @ zeros 68 @ [1]))"
proof -
  let ?tx = "test_tx v (test_input txid i value) (test_output (0x20 # hash @ [0xac]) value)"
  have "signable ?tx" "wf_input (test_input txid i value)"
    using assms by (simp_all add: signable_def tx_ins_def tx_outs_def test_tx_def wf_input_def test_input_def
        readable_output_def test_output_def script_len_def op_consts)
  moreover have "in_sequence (test_input txid i value) = 0" "in_value (test_input txid i value) = value"
    "in_index (test_input txid i value) = i" "in_tx_id (test_input txid i value) = txid" "version ?tx = v"
    by (simp_all add: test_input_def zero_input_def test_tx_def)
  ultimately show ?thesis
    using assms by (simp add: std_wr.calc_sighash_correct sighash_preimage_def zeros_68 test_input_preimages
        test_output_preimage le_bytes_8 op_consts)
qed


text \<open>The digests inside the signed string: outpoint, sequence number, operation count, output.\<close>

lemma zeros_numeral: "zeros (numeral k) = 0 # zeros (pred_numeral k)" "zeros (Suc 0) = [0]"
  by (simp_all add: zeros_def numeral_eq_Suc)

definition txid_1122 :: bytes where
  "txid_1122 = [17, 34, 51, 68, 85, 102, 119, 136, 153, 0, 170, 187, 204, 221, 238, 255, 17, 34, 51, 68, 85,
    102, 119, 136, 153, 0, 170, 187, 204, 221, 238, 255]"

definition key_c62c :: bytes where
  "key_c62c = [198, 44, 243, 14, 78, 87, 197, 146, 32, 134, 70, 2, 53, 213, 21, 122, 98, 242, 102, 106, 162,
    39, 7, 203, 155, 88, 143, 98, 17, 252, 14, 214]"

definition key_e9ed :: bytes where
  "key_e9ed = [233, 237, 246, 122, 50, 88, 104, 236, 199, 205, 133, 25, 230, 202, 82, 101, 230, 91, 125, 16,
    245, 96, 102, 70, 28, 234, 191, 12, 43, 193, 197, 173]"

lemma digest_sequence: "H32 [0, 0, 0, 0, 0, 0, 0, 0] =
   [15, 153, 19, 86, 20, 99, 62, 80, 121, 105, 209, 37, 34, 200, 15, 150, 124, 255, 110, 188, 4,
    54, 134, 62, 2, 238, 66, 178, 182, 101, 86, 252]"
  by (simp add: H32_eval digest_eval)

lemma digest_sig_op_count: "H32 [1] =
   [133, 35, 176, 71, 27, 203, 234, 4, 87, 92, 202, 166, 53, 238, 249, 249, 17, 79, 40, 144, 189,
    165, 67, 103, 229, 255, 140, 170, 56, 120, 191, 130]"
  by (simp add: H32_eval digest_eval)

lemma digest_outpoint: "H32 [17, 34, 51, 68, 85, 102, 119, 136, 153, 0, 170, 187, 204, 221, 238, 255, 17, 34, 51, 68, 85,
    102, 119, 136, 153, 0, 170, 187, 204, 221, 238, 255, 1, 0, 0, 0] =
   [96, 205, 80, 207, 66, 28, 82, 253, 198, 234, 101, 62, 172, 48, 245, 31, 3, 132, 127, 20, 21,
    202, 66, 124, 18, 251, 198, 89, 185, 74, 106, 111]"
  by (simp add: H32_eval digest_eval)

lemma digest_output: "H32 [2, 0, 0, 0, 0, 0, 0, 0, 0, 0, 34, 0, 0, 0, 0, 0, 0, 0, 32, 198, 44, 243, 14, 78, 87, 197, 146,
    32, 134, 70, 2, 53, 213, 21, 122, 98, 242, 102, 106, 162, 39, 7, 203, 155, 88, 143, 98, 17, 252,
    14, 214, 172] =
   [10, 109, 24, 157, 73, 76, 247, 45, 101, 178, 179, 149, 181, 155, 41, 32, 172, 19, 63, 69, 243,
    8, 14, 183, 191, 219, 224, 68, 154, 213, 112, 135]"
  by (simp add: H32_eval digest_eval)

lemmas test_digests = digest_sequence digest_sig_op_count digest_outpoint digest_output

text \<open>The test: the transaction of \<open>test_sighash\<close>.\<close>

lemmas preimage_eval = le_bytes_numeral zeros_numeral zeros_8

text \<open>The three blocks of the string that \<open>test_sighash\<close> signs.\<close>

lemma test_block_1: "compress_nat
   [11669498265483573572, 11585704030315360224, 16124661342358234598, 18194378539018065215,
    10258597385285263097, 12753573409097605822, 10526510587052858266, 150964593801264434]
   [1, 0, 96, 205, 80, 207, 66, 28, 82, 253, 198, 234, 101, 62, 172, 48, 245, 31, 3, 132, 127, 20,
    21, 202, 66, 124, 18, 251, 198, 89, 185, 74, 106, 111, 15, 153, 19, 86, 20, 99, 62, 80, 121,
    105, 209, 37, 34, 200, 15, 150, 124, 255, 110, 188, 4, 54, 134, 62, 2, 238, 66, 178, 182, 101,
    86, 252, 133, 35, 176, 71, 27, 203, 234, 4, 87, 92, 202, 166, 53, 238, 249, 249, 17, 79, 40,
    144, 189, 165, 67, 103, 229, 255, 140, 170, 56, 120, 191, 130, 17, 34, 51, 68, 85, 102, 119,
    136, 153, 0, 170, 187, 204, 221, 238, 255, 17, 34, 51, 68, 85, 102, 119, 136, 153, 0, 170, 187,
    204, 221] 256 False =
   [15559319960101821247, 12552887929492586284, 16141985904720967482, 10512728621425660353,
    9360688122986879043, 7523601845711743497, 13910597951722090401, 2157046395142889086]"
  by (simp add: compress_eval)

lemma test_block_2: "compress_nat
   [15559319960101821247, 12552887929492586284, 16141985904720967482, 10512728621425660353,
    9360688122986879043, 7523601845711743497, 13910597951722090401, 2157046395142889086]
   [238, 255, 1, 0, 0, 0, 0, 0, 34, 0, 0, 0, 0, 0, 0, 0, 32, 233, 237, 246, 122, 50, 88, 104, 236,
    199, 205, 133, 25, 230, 202, 82, 101, 230, 91, 125, 16, 245, 96, 102, 70, 28, 234, 191, 12, 43,
    193, 197, 173, 172, 2, 0, 0, 0, 0, 0, 0, 0, 0, 0, 0, 0, 0, 0, 0, 0, 1, 10, 109, 24, 157, 73, 76,
    247, 45, 101, 178, 179, 149, 181, 155, 41, 32, 172, 19, 63, 69, 243, 8, 14, 183, 191, 219, 224,
    68, 154, 213, 112, 135, 0, 0, 0, 0, 0, 0, 0, 0, 0, 0, 0, 0, 0, 0, 0, 0, 0, 0, 0, 0, 0, 0, 0, 0,
    0, 0, 0, 0, 0] 384 False =
   [593876549519879891, 11299861725431156427, 16191741770884658107, 5332723104637014639,
    672870793255923310, 5915308955120340396, 4541531178659144512, 1994245770595983832]"
  by (simp add: compress_eval)

lemma test_block_3: "compress_nat
   [593876549519879891, 11299861725431156427, 16191741770884658107, 5332723104637014639,
    672870793255923310, 5915308955120340396, 4541531178659144512, 1994245770595983832]
   [0, 0, 0, 0, 0, 0, 0, 0, 0, 0, 0, 0, 0, 0, 0, 0, 0, 0, 0, 0, 0, 0, 0, 0, 0, 0, 0, 0, 0, 0, 0, 0,
    0, 0, 0, 0, 0, 0, 0, 1] 424 True =
   [7070115174457724284, 15805885291273580643, 10298155373645241805, 11942074783926111869,
    9893830754709688934, 196120228100766592, 14673850082279820126, 1033420531963757896]"
  by (simp add: compress_eval)

theorem test_sighash:
  "calc_sighash std_write
     (test_tx 1 (test_input txid_1122 1 2) (test_output (0x20 # key_c62c @ [0xac]) 2))
     (test_input txid_1122 1 2) key_e9ed (zeros 32) 32 = Some (True,
   [0x7c, 0xcd, 0xa6, 0xc6, 0x4a, 0x18, 0x1e, 0x62, 0x63, 0xf0, 0xee, 0xe2, 0xed, 0xc8, 0x59, 0xdb,
    0xcd, 0x9d, 0xe7, 0x17, 0xc0, 0x65, 0xea, 0x8e, 0x7d, 0xce, 0x10, 0x81, 0xbe, 0xc5, 0xba, 0xa5])"
  by (subst test_tx_signed, simp_all add: txid_1122_def key_c62c_def key_e9ed_def preimage_eval test_digests)
    (simp add: H32_eval rest_nat.simps test_block_1 test_block_2 test_block_3 digest_nat_def nat_bytes_numeral)

end
