(* ===== verification/Spec2Isabelle.thy ===== *)
theory Spec2Isabelle
  imports Definedness Screens Fuzz Byte_Helpers Wallet_Safety Unit_Tests Digest_Tests
begin

text \<open>
  A verification library of the Kaspa application for hardware wallets (\<open>src/src\<close>, in C).
  The application receives commands, keeps one global context, shows requests on a small
  screen and signs what the user approves. This theory imports all parts.

  \<^bold>\<open>The program.\<close> \<open>app_main\<close> receives bytes, the SDK parses them into a command and
  \<open>apdu_dispatcher\<close> checks class, instruction and parameters and calls a handler.
  GET_PUBLIC_KEY derives a key and sends it or shows its address. SIGN_TX receives a
  transaction in chunks (header, outputs, inputs), parses them into the context, checks the
  whole and asks the user; after the approval every further command signs one input.
  SIGN_MESSAGE does the same for a message in one command. The answer to a request on the
  screen is made by the callbacks in \<open>ui/action/validate.c\<close>.

  \<^bold>\<open>Theories and sources.\<close>
  \<^item> \<open>Prelude\<close>: machine integers, bounds-checked memory (\<open>arr_get\<close>, \<open>arr_put\<close>,
    \<open>mem_read\<close>, \<open>mem_write\<close>), the rules for partial computations (\<open>returns\<close>), C loops
    (\<open>for_each\<close>), byte encodings of words.
  \<^item> \<open>Sdk\<close>: the cursor and the writers of the SDK as records of functions, their
    documented laws as the locales \<open>buffer_api\<close>, \<open>path_api\<close>, \<open>write_api\<close>, and a concrete
    instance. \<open>Context\<close> adds the other SDK functions and the build settings (record
    \<open>env\<close>) with the locale \<open>device\<close>, and the global context of \<open>types.h\<close>.
  \<^item> \<open>Tx_Types\<close>, \<open>Tx_Codec\<close>, \<open>Wire\<close>: \<open>transaction/types.h\<close>, \<open>deserialize.c\<close>,
    \<open>serialize.c\<close>; the locale \<open>codec\<close> is the contract of a pair of parser and writer.
  \<^item> \<open>Blake2b\<close>, \<open>Blake2b_Spec\<close>, \<open>Blake2b_Stream\<close>: \<open>import/blake2b.c\<close>, the function of
    RFC 7693 as a reference, and the refinement (locale \<open>hash_stream\<close>); \<open>Byte_Helpers\<close>: the
    loads and stores of \<open>import/blake2-impl.h\<close> at all widths (locale \<open>little_endian\<close>).
  \<^item> \<open>Sighash\<close>, \<open>Personal_Message\<close>: \<open>sighash.c\<close>, \<open>personal_message.c\<close>, over the locale
    \<open>hash_writer\<close>.
  \<^item> \<open>Cashaddr\<close>, \<open>Cashaddr_Checksum\<close>, \<open>Cashaddr_Bits\<close>, \<open>Address\<close>:
    \<open>import/cashaddr.c\<close>, \<open>address.c\<close>, \<open>transaction/utils.c\<close>.
  \<^item> \<open>Crypto\<close>: \<open>crypto.c\<close>, \<open>tx_validate.c\<close>, \<open>send_reponse.c\<close>; \<open>Display\<close>, \<open>Format\<close>:
    \<open>common/format_local.c\<close> and the display functions of \<open>ui/\<close>, with the flows and pairs of
    their pages as data; \<open>Handlers\<close>: \<open>handler/\<close>, \<open>ui/action/validate.c\<close>,
    \<open>apdu/dispatcher.c\<close>, \<open>app_main.c\<close>.
  \<^item> \<open>Transition\<close>, \<open>App\<close>, \<open>App_Invariant\<close>, \<open>Session\<close>, \<open>Message_Session\<close>, \<open>Review\<close>,
    \<open>Example\<close>, \<open>App_Safety\<close>, \<open>Commands\<close>, \<open>Answers\<close>, \<open>Definedness\<close>: the whole application
    as a transition system and its properties. \<open>Wallet\<close>, \<open>Wallet_Refinement\<close>,
    \<open>Wallet_Safety\<close>: an abstract wallet of one page with the deviations of the code from it, the
    proofs that the application refines it with them, and without them when used orderly (locale
    \<open>refinement_mapping\<close>), and what follows from the abstract rules.
  \<^item> \<open>Screens\<close>: the menus, buttons, callbacks and status pages of \<open>ui/\<close> around the requests;
    \<open>Fuzz\<close>: the harnesses of \<open>src/fuzzing\<close>.
  \<^item> \<open>Blake2b_Eval\<close>, \<open>Digest_Tests\<close>, \<open>Address_Tests\<close>, \<open>Unit_Tests\<close>: the tests of
    \<open>src/unit-tests\<close>, run on the model.

  \<^bold>\<open>State and operations.\<close> A C function that touches memory is a function to an option:
  \<open>None\<close> is undefined behaviour, an access outside an array or a read of a union member
  other than the one last written. A handler maps the record \<open>app\<close> (context, request on the
  screen, answers sent, signing calls made) to its return value and the new record. The signing
  calls are two lists: \<open>sign_log\<close> for those of \<open>crypto.c\<close>, \<open>test_log\<close> for those of the debug
  command, which signs the constants of \<open>debug.c\<close> in builds that have it. Calls
  without effect in the model (logging, clearing of local key material, exception frames) are
  left out. Arrays are lists of the declared sizes, \<open>uint\<close> types are words, \<open>size_t\<close> counters
  naturals, status words integers cut to 16 bits when sent.

  \<^bold>\<open>What is shown.\<close>
  \<^item> All runs (\<open>App_Safety\<close>): signatures and the approved state only by the user's choice (but
    for the test cases of the debug command), what is signed is what was shown, only keys of the
    application's path (or what a failed derivation leaves, for messages), an invariant of all
    reachable states; and, as liveness, that an approval followed by requests for the next
    signature signs every input in order. The invariant is proved once for the locale
    \<open>invariant_system\<close>, with \<open>idle\<close> as the part that holds when nothing is on the screen and
    \<open>keeps\<close>, \<open>calmly\<close>, \<open>yields\<close> as the rules for sequences of calls.
  \<^item> The wallet (\<open>Wallet_Safety\<close>): seen through an abstraction of the state, every run in which
    payments are confirmed when all their items have arrived, and no more signatures are asked
    for than they have inputs, is a run of a machine with the phases home, entering, asking and
    spending that never changes what it spends. Other runs need the rules of \<open>deviation\<close>. In all
    runs a signature belongs to a payment that extends one confirmed on the screen before.
  \<^item> No undefined behaviour (\<open>Definedness\<close>): for commands whose data fits the areas of the code,
    every step from every reachable state has a result. \<open>fine\<close> is the rule for sequences of calls,
    \<open>safe\<close> the part of the invariant that keeps array accesses in bounds.
  \<^item> The user interface (\<open>Screens\<close>) refines the application, by the locale \<open>simulation\<close>: its
    presses of buttons are the choices, and of the buttons only that of the approve step signs.
  \<^item> Single commands (\<open>Answers\<close>): what is answered, errors included. A refusal by the user stops
    all signatures until a further approval, but leaves the transaction in the context.
  \<^item> Data: parsers against verdict functions and round trips (\<open>Wire\<close>); BLAKE2b, the
    transaction digest and the message digest equal their references on all inputs; equal
    transaction digests mean equal outpoints, outputs and spent input, or a collision; addresses
    are determined by the keys and determine the scripts they stand for; the checksum detects
    bursts; fees are exact; the text of a message is its rendering up to the cut.
  \<^item> Tests: with the inputs of the repository's unit tests the model computes the expected
    statuses, addresses, message digest and transaction digest, by the rules of the logic alone.
    BLAKE2b is evaluated on natural numbers below 2^64 (\<open>Blake2b_Eval\<close>), addresses by checking
    the expected text against the specification they have exactly one solution of.
  \<^item> Exceptions that the code leaves open are stated as theorems too: the request stays open
    after an approval, long paths and messages overflow their areas, a rejected header with too
    many inputs leads to reads past the input array, long messages are cut on the screen, size checks of the writers are too small.

  \<^bold>\<open>Bounds.\<close> No fuel is used: loops are structural recursions over the items they visit, the
  inner loop of \<open>convert_bits\<close> is a \<open>partial_function\<close> that is proved to return, for the
  widths whose shifts C defines (\<open>convert_bits_terminates\<close>). Properties
  that need a build setting (15 or 128 inputs, 120 or 200 message bytes) hold for every
  setting below 256.

  \<^bold>\<open>Not modelled.\<close> The SDK (curves, key derivation, random numbers, formatting of amounts and
  paths, input and output) is a parameter with documented laws; icons, the layout of pages and
  the moves between pages are the SDK too. Of the unit tests, \<open>test_apdu_parser.c\<close> tests the SDK,
  and \<open>test_invalid_type\<close> calls with a value outside the enumeration; \<open>test_sighash_zeros\<close> and
  two of the Schnorr addresses are left out to keep the check short. \<open>offsets.h\<close> and five
  status words of \<open>sw.h\<close> are not used by the code. What else the map does not cover are
  declarations, comments, includes and compiler switches.
\<close>

end
